(* ===== verification/Mps_Prelude.thy ===== *)
theory Mps_Prelude
  imports Main "HOL-Library.Word" "HOL-Library.List_Lexorder"
    "HOL-Library.Char_ord" "HOL-Library.Multiset"
begin

text \<open>
  Shared vocabulary of the development.

  \<^item> \<open>fault\<close> and the result type \<open>fault + 'a\<close>: a C++ exception is \<open>Throws\<close>, a read or a
    call the language leaves undefined is \<open>Undefined\<close>. A handler of
    \<^verbatim>\<open>std::exception\<close> recovers from the first and not from the second.
  \<^item> \<open>size_t\<close> conversion of a signed integer, with its wrap-around.
  \<^item> Lemmas on filters, counts and sums that the schema theories share.
\<close>

section \<open>Faults and results\<close>

datatype fault = Throws string | Undefined string

type_synonym 'a res = "fault + 'a"

type_synonym byte = "8 word"
type_synonym bytes = "byte list"

named_theorems res_simps \<open>rewriting of results\<close>

definition res_bind :: "'a res \<Rightarrow> ('a \<Rightarrow> 'b res) \<Rightarrow> 'b res" where
  "res_bind m f = (case m of Inl e \<Rightarrow> Inl e | Inr x \<Rightarrow> f x)"

lemma res_bind_simps [simp, res_simps]:
  "res_bind (Inl e) f = Inl e"
  "res_bind (Inr x) f = f x"
  by (simp_all add: res_bind_def)

lemma res_bind_Inr_iff [res_simps]:
  "res_bind m f = Inr y \<longleftrightarrow> (\<exists>x. m = Inr x \<and> f x = Inr y)"
  by (cases m) auto

lemma res_bind_Inl_iff [res_simps]:
  "res_bind m f = Inl e \<longleftrightarrow> m = Inl e \<or> (\<exists>x. m = Inr x \<and> f x = Inl e)"
  by (cases m) auto

lemma res_bind_cong [fundef_cong]:
  "m = m' \<Longrightarrow> (\<And>x. m' = Inr x \<Longrightarrow> f x = f' x) \<Longrightarrow> res_bind m f = res_bind m' f'"
  by (cases m') auto

text \<open>
  \<^verbatim>\<open>try { m } catch (const std::exception&) { h }\<close>: only a thrown exception is caught.
\<close>

definition res_catch :: "'a res \<Rightarrow> 'a res \<Rightarrow> 'a res" where
  "res_catch m h = (case m of Inl (Throws _) \<Rightarrow> h | _ \<Rightarrow> m)"

lemma res_catch_simps [simp, res_simps]:
  "res_catch (Inl (Throws w)) h = h"
  "res_catch (Inl (Undefined w)) h = Inl (Undefined w)"
  "res_catch (Inr x) h = Inr x"
  by (simp_all add: res_catch_def)

text \<open>A loop that stops at the first fault, as an exception leaves a C++ loop.\<close>

fun res_map :: "('a \<Rightarrow> 'b res) \<Rightarrow> 'a list \<Rightarrow> 'b list res" where
  "res_map f [] = Inr []"
| "res_map f (x # xs) = res_bind (f x) (\<lambda>y. res_bind (res_map f xs) (\<lambda>ys. Inr (y # ys)))"

lemma res_map_Inr: "res_map f xs = Inr ys \<Longrightarrow> list_all2 (\<lambda>x y. f x = Inr y) xs ys"
  by (induction xs arbitrary: ys) (auto simp: res_bind_Inr_iff)

lemma res_map_ok: "(\<And>x. x \<in> set xs \<Longrightarrow> f x = Inr (g x)) \<Longrightarrow> res_map f xs = Inr (map g xs)"
  by (induction xs) auto

lemma res_map_map: "res_map f (map g xs) = res_map (f \<circ> g) xs"
  by (induction xs) auto

section \<open>Machine integers\<close>

text \<open>
  A \<^verbatim>\<open>size_t\<close> is a natural number below \<open>2 ^ 64\<close>. The implicit conversion of a signed
  \<^verbatim>\<open>int\<close> to \<^verbatim>\<open>size_t\<close> wraps modulo \<open>2 ^ 64\<close>.
\<close>

definition size_of_int :: "int \<Rightarrow> nat" where
  "size_of_int i = nat (i mod 2 ^ 64)"

lemma size_of_int_bound: "size_of_int i < 2 ^ 64"
  by (simp add: size_of_int_def nat_less_iff)

lemma size_of_int_nonneg: "0 \<le> i \<Longrightarrow> i < 2 ^ 64 \<Longrightarrow> size_of_int i = nat i"
  by (simp add: size_of_int_def)

lemma size_of_int_neg: "- (2 ^ 64) \<le> i \<Longrightarrow> i < 0 \<Longrightarrow> size_of_int i = nat (i + 2 ^ 64)"
proof -
  assume "- (2 ^ 64) \<le> i" and "i < 0"
  then have "i mod 2 ^ 64 = (i + 2 ^ 64) mod 2 ^ 64" by simp
  also have "\<dots> = i + 2 ^ 64"
    using \<open>- (2 ^ 64) \<le> i\<close> \<open>i < 0\<close> by (intro mod_pos_pos_trivial) auto
  finally show ?thesis by (simp add: size_of_int_def)
qed

text \<open>\<^verbatim>\<open>std::to_string\<close> of a number: its decimal digits.\<close>

fun digits_of :: "nat \<Rightarrow> string" where
  "digits_of n = (if n < 10 then [char_of (48 + n)] else digits_of (n div 10) @ [char_of (48 + n mod 10)])"

declare digits_of.simps [simp del]

section \<open>Counting\<close>

named_theorems counting \<open>facts on counts of matching list elements\<close>

definition count_if :: "('a \<Rightarrow> bool) \<Rightarrow> 'a list \<Rightarrow> nat" where
  "count_if P xs = length (filter P xs)"

lemma count_if_simps [simp]:
  "count_if P [] = 0"
  "count_if P (x # xs) = (if P x then Suc (count_if P xs) else count_if P xs)"
  by (simp_all add: count_if_def)

lemma count_if_append [simp]: "count_if P (xs @ ys) = count_if P xs + count_if P ys"
  by (simp add: count_if_def)

lemma count_if_distinct: "distinct xs \<Longrightarrow> count_if P xs = card {x \<in> set xs. P x}"
  by (simp add: count_if_def distinct_length_filter Int_def conj_commute)

lemma count_if_mono [counting]:
  assumes "distinct xs" and "set xs \<subseteq> set ys"
  shows "count_if P xs \<le> count_if P ys"
proof -
  have "count_if P xs = card {x \<in> set xs. P x}"
    using assms(1) by (rule count_if_distinct)
  also have "\<dots> \<le> card {x \<in> set ys. P x}"
    using assms(2) by (intro card_mono) auto
  also have "\<dots> = card (set (filter P ys))"
    by (rule arg_cong [where f = card]) auto
  also have "\<dots> \<le> count_if P ys"
    unfolding count_if_def by (rule card_length)
  finally show ?thesis .
qed

lemma count_if_le_length: "count_if P xs \<le> length xs"
  by (simp add: count_if_def)

lemma count_if_all: "(\<And>x. x \<in> set xs \<Longrightarrow> P x) \<Longrightarrow> count_if P xs = length xs"
  by (induction xs) auto

lemma sum_list_map_le [counting]:
  fixes f g :: "'a \<Rightarrow> nat"
  shows "(\<And>x. x \<in> set xs \<Longrightarrow> f x \<le> g x) \<Longrightarrow> sum_list (map f xs) \<le> sum_list (map g xs)"
  by (rule sum_list_mono)

end
