(* ===== verification/Name_Set.thy ===== *)
theory Name_Set
  imports Mps_Prelude
begin

text \<open>
  \<^verbatim>\<open>std::set\<close> as the schema code uses it: \<^verbatim>\<open>insert\<close>, \<^verbatim>\<open>erase\<close>,
  \<^verbatim>\<open>count\<close>, construction from a range, and iteration in ascending order. A set is the
  strictly ascending list of its elements, so that copying it to a vector
  (\<^verbatim>\<open>std::vector(s.begin(), s.end())\<close>) is the identity.

  The locale \<open>ordered_set\<close> is the contract the schema container relies on. Its lemmas
  (what a loop of insertions holds, how an insertion changes the number of elements with a
  property) are proved from the contract, and the interpretation \<open>nset\<close> gives them for the
  list model.
\<close>

section \<open>The contract\<close>

locale ordered_set =
  fixes emp :: "'s"
    and ins :: "'a::linorder \<Rightarrow> 's \<Rightarrow> 's"
    and era :: "'a \<Rightarrow> 's \<Rightarrow> 's"
    and cnt :: "'s \<Rightarrow> 'a \<Rightarrow> nat"
    and elems :: "'s \<Rightarrow> 'a list"
    and invar :: "'s \<Rightarrow> bool"
  assumes elems_emp: "elems emp = []"
    and elems_order: "invar s \<Longrightarrow> sorted (elems s) \<and> distinct (elems s)"
    and elems_ins: "invar s \<Longrightarrow> set (elems (ins x s)) = Set.insert x (set (elems s))"
    and elems_era: "invar s \<Longrightarrow> set (elems (era x s)) = set (elems s) - {x}"
    and cnt_elems: "cnt s x = (if x \<in> set (elems s) then 1 else 0)"
    and invar_emp: "invar emp"
    and invar_ins: "invar s \<Longrightarrow> invar (ins x s)"
    and invar_era: "invar s \<Longrightarrow> invar (era x s)"
begin

lemma distinct_elems: "invar s \<Longrightarrow> distinct (elems s)"
  by (simp add: elems_order)

lemma sorted_elems: "invar s \<Longrightarrow> sorted (elems s)"
  by (simp add: elems_order)

lemma invar_fold_ins: "invar s \<Longrightarrow> invar (fold ins xs s)"
  by (induction xs arbitrary: s) (auto simp: invar_ins)

lemma elems_fold_ins: "invar s \<Longrightarrow> set (elems (fold ins xs s)) = set xs \<union> set (elems s)"
  by (induction xs arbitrary: s) (auto simp: invar_ins elems_ins)

lemma invar_of_list: "invar (fold ins xs emp)"
  by (rule invar_fold_ins) (rule invar_emp)

lemma elems_of_list: "set (elems (fold ins xs emp)) = set xs"
  by (simp add: elems_fold_ins invar_emp elems_emp)

lemma cnt_0_iff: "cnt s x = 0 \<longleftrightarrow> x \<notin> set (elems s)"
  by (simp add: cnt_elems)

lemma count_elems: "invar s \<Longrightarrow> count_if P (elems s) = card {x \<in> set (elems s). P x}"
  by (rule count_if_distinct) (rule distinct_elems)

lemma count_ins:
  assumes "invar s"
  shows "count_if P (elems (ins x s)) =
    (if x \<in> set (elems s) \<or> \<not> P x then count_if P (elems s) else Suc (count_if P (elems s)))"
proof -
  have new: "count_if P (elems (ins x s)) = card {y \<in> Set.insert x (set (elems s)). P y}"
    using assms by (simp add: count_elems invar_ins elems_ins)
  have old: "count_if P (elems s) = card {y \<in> set (elems s). P y}"
    using assms by (rule count_elems)
  have split: "{y \<in> Set.insert x (set (elems s)). P y} =
      (if P x then Set.insert x {y \<in> set (elems s). P y} else {y \<in> set (elems s). P y})"
    by auto
  show ?thesis unfolding new old split
    by (auto simp: card_insert_if)
qed

lemma count_ins_mono: "invar s \<Longrightarrow> count_if P (elems s) \<le> count_if P (elems (ins x s))"
  by (simp add: count_ins)

lemma count_era:
  assumes "invar s"
  shows "count_if P (elems s) \<le> count_if P (elems (era x s)) + (if P x then 1 else 0)"
proof -
  let ?A = "{y \<in> set (elems s). P y}" and ?B = "{y \<in> set (elems s) - {x}. P y}"
  have "?A \<subseteq> ?B \<union> (if P x then {x} else {})" by auto
  then have "card ?A \<le> card (?B \<union> (if P x then {x} else {}))"
    by (intro card_mono) auto
  also have "\<dots> \<le> card ?B + (if P x then 1 else 0)"
    by (rule order_trans [OF card_Un_le]) auto
  finally show ?thesis
    using assms by (simp add: count_elems invar_era elems_era)
qed

end

section \<open>The list model of the set\<close>

definition sset_insert :: "'a::linorder \<Rightarrow> 'a list \<Rightarrow> 'a list" where
  "sset_insert x s = (if x \<in> set s then s else insort x s)"

definition sset_erase :: "'a::linorder \<Rightarrow> 'a list \<Rightarrow> 'a list" where
  "sset_erase x s = filter (\<lambda>y. y \<noteq> x) s"

definition sset_count :: "'a::linorder list \<Rightarrow> 'a \<Rightarrow> nat" where
  "sset_count s x = (if x \<in> set s then 1 else 0)"

definition sset_of_list :: "'a::linorder list \<Rightarrow> 'a list" where
  "sset_of_list xs = fold sset_insert xs []"

definition sset_ok :: "'a::linorder list \<Rightarrow> bool" where
  "sset_ok s \<longleftrightarrow> sorted s \<and> distinct s"

interpretation nset: ordered_set "[]" sset_insert sset_erase sset_count "\<lambda>s. s" sset_ok
  by unfold_locales
    (auto simp: sset_insert_def sset_erase_def sset_count_def sset_ok_def
      set_insort_key sorted_insort distinct_insort sorted_filter [where f = "\<lambda>x. x", simplified])

lemma sset_of_list_ok [simp]: "sset_ok (sset_of_list xs)"
  unfolding sset_of_list_def by (rule nset.invar_of_list)

lemma set_sset_of_list [simp]: "set (sset_of_list xs) = set xs"
  unfolding sset_of_list_def by (rule nset.elems_of_list)

lemma sset_of_list_distinct [simp]: "distinct (sset_of_list xs)"
  using sset_of_list_ok [of xs] by (simp add: sset_ok_def)

text \<open>Two sets with the same elements are the same list: iteration order is determined.\<close>

lemma sset_ok_unique: "sset_ok s \<Longrightarrow> sset_ok t \<Longrightarrow> set s = set t \<Longrightarrow> s = t"
  by (simp add: sset_ok_def sorted_distinct_set_unique)

end
