(* ===== verification/Ndn_Api.thy ===== *)
theory Ndn_Api
  imports Mps_Prelude
begin

text \<open>
  The interface of ndn-cxx, the library the program is written against and whose code is not
  in the repository. Its data (names, TLV blocks, Data and Interest packets) are types here;
  its functions are the fields of the records \<open>name_api\<close>, \<open>tlv_api\<close> and
  \<open>packet_api\<close>, an argument of every definition that calls them. What the library
  documents of them is stated by \<open>name_laws\<close>, \<open>tlv_laws\<close> and \<open>packet_laws\<close>, which
  appear as hypotheses where a property rests on them; \<open>Ndn_Instance\<close> gives functions that
  satisfy them.

  A name is the list of its components, over a type \<open>'c\<close> of components with the library's
  canonical order; \<^verbatim>\<open>Name::append\<close>, \<^verbatim>\<open>size\<close>, \<^verbatim>\<open>get\<close> and
  \<^verbatim>\<open>operator<\<close> are the list operations (the canonical order of names is the
  lexicographic order of \<open>List_Lexorder\<close>).
\<close>

section \<open>Names\<close>

type_synonym 'c name = "'c list"

text \<open>\<^verbatim>\<open>getPrefix(-k)\<close> leaves out the last \<open>k\<close> components.\<close>

definition name_prefix_neg :: "'c name \<Rightarrow> nat \<Rightarrow> 'c name" where
  "name_prefix_neg n k = take (length n - k) n"

definition is_prefix_of :: "'c name \<Rightarrow> 'c name \<Rightarrow> bool" where
  "is_prefix_of p n \<longleftrightarrow> take (length p) n = p"

lemma is_prefix_of_refl [simp]: "is_prefix_of n n"
  by (simp add: is_prefix_of_def)

lemma is_prefix_of_append [simp]: "is_prefix_of n (n @ m)"
  by (simp add: is_prefix_of_def)

lemma is_prefix_of_iff: "is_prefix_of p n \<longleftrightarrow> (\<exists>m. n = p @ m)"
  unfolding is_prefix_of_def by (metis append_eq_conv_conj append_take_drop_id)

lemma name_prefix_neg_append [simp]: "length s = k \<Longrightarrow> name_prefix_neg (n @ s) k = n"
  by (simp add: name_prefix_neg_def)

record 'c name_api =
  nameComponentMax :: nat
  comp_type :: "'c \<Rightarrow> nat"
  comp_string :: "'c \<Rightarrow> string"
  comp_of_type :: "nat \<Rightarrow> 'c"
  comp_of_string :: "string \<Rightarrow> 'c"
  comp_of_number :: "nat \<Rightarrow> 'c"
  comp_of_version :: "nat \<Rightarrow> 'c"
  comp_of_timestamp :: "nat \<Rightarrow> 'c"
  name_uri :: "'c name \<Rightarrow> string"

text \<open>
  \<^verbatim>\<open>Name::Component(uint32_t type)\<close> has that type; \<^verbatim>\<open>Component(std::string)\<close> is a
  GenericNameComponent (type 8) whose value is the string, which \<^verbatim>\<open>readString\<close> returns.
\<close>

definition name_laws :: "('c, 'z) name_api_scheme \<Rightarrow> bool" where
  "name_laws api \<longleftrightarrow>
     nameComponentMax api = 65535 \<and>
     comp_type api (comp_of_type api 65534) = 65534 \<and>
     (\<forall>s. comp_type api (comp_of_string api s) = 8) \<and>
     (\<forall>s. comp_string api (comp_of_string api s) = s)"

section \<open>TLV blocks\<close>

text \<open>
  A block is its TLV-TYPE and the bytes of its TLV-VALUE. Sub-elements live in the value:
  \<open>tlv_encode\<close> is the value \<^verbatim>\<open>Block::encode\<close> builds from the pushed elements,
  \<open>tlv_parse\<close> what \<^verbatim>\<open>Block::parse\<close> makes of a value, \<open>tlv_get\<close> the lookup
  \<^verbatim>\<open>Block::get\<close> among the elements.
\<close>

datatype block = Blk (blk_type: nat) (blk_value: bytes)

record 'c tlv_api = "'c name_api" +
  tlv_invalid :: nat
  tlv_encode :: "block list \<Rightarrow> bytes"
  tlv_parse :: "bytes \<Rightarrow> block list res"
  tlv_get :: "block list \<Rightarrow> nat \<Rightarrow> block res"
  str_block :: "nat \<Rightarrow> string \<Rightarrow> block"
  read_string :: "block \<Rightarrow> string"
  nn_block :: "nat \<Rightarrow> nat \<Rightarrow> block"
  read_nn :: "block \<Rightarrow> nat res"
  nested_block :: "nat \<Rightarrow> block \<Rightarrow> block"
  block_from_value :: "block \<Rightarrow> block res"
  block_of_bytes :: "bytes \<Rightarrow> block res"
  name_wire :: "'c name \<Rightarrow> block"
  name_of_block :: "block \<Rightarrow> 'c name res"

definition blk_valid :: "('c, 'z) tlv_api_scheme \<Rightarrow> block \<Rightarrow> bool" where
  "blk_valid api b \<longleftrightarrow> blk_type b \<noteq> tlv_invalid api"

text \<open>
  \<^verbatim>\<open>Block b(t); b.push_back(e1); ...; b.encode()\<close>, and \<^verbatim>\<open>b.parse(); b.get(t)\<close>.
\<close>

definition block_with :: "('c, 'z) tlv_api_scheme \<Rightarrow> nat \<Rightarrow> block list \<Rightarrow> block" where
  "block_with api t es = Blk t (tlv_encode api es)"

definition block_parse :: "('c, 'z) tlv_api_scheme \<Rightarrow> block \<Rightarrow> block list res" where
  "block_parse api b = tlv_parse api (blk_value b)"

lemma block_with_type [simp]: "blk_type (block_with api t es) = t"
  by (simp add: block_with_def)

text \<open>
  The documented laws. Encoding then parsing returns the elements; a lookup returns the first
  element of the type and throws when there is none; the typed block makers are inverted by
  the readers; the type of an invalid block is the largest number of 32 bits.
\<close>

definition tlv_laws :: "('c, 'z) tlv_api_scheme \<Rightarrow> bool" where
  "tlv_laws api \<longleftrightarrow>
     (\<forall>es. tlv_parse api (tlv_encode api es) = Inr es) \<and>
     (\<forall>es t b. find (\<lambda>e. blk_type e = t) es = Some b \<longrightarrow> tlv_get api es t = Inr b) \<and>
     (\<forall>es t. find (\<lambda>e. blk_type e = t) es = None \<longrightarrow> (\<exists>w. tlv_get api es t = Inl (Throws w))) \<and>
     (\<forall>t s. blk_type (str_block api t s) = t \<and> read_string api (str_block api t s) = s) \<and>
     (\<forall>t n. blk_type (nn_block api t n) = t \<and> (n < 2 ^ 64 \<longrightarrow> read_nn api (nn_block api t n) = Inr n)) \<and>
     (\<forall>t b. blk_type (nested_block api t b) = t \<and> block_from_value api (nested_block api t b) = Inr b) \<and>
     (\<forall>n. blk_type (name_wire api n) = 7 \<and> name_of_block api (name_wire api n) = Inr n) \<and>
     tlv_invalid api = 2 ^ 32 - 1"

lemma tlv_lawsD:
  assumes "tlv_laws api"
  shows tlv_parse_encode: "tlv_parse api (tlv_encode api es) = Inr es"
    and tlv_get_found: "find (\<lambda>e. blk_type e = t) es = Some b \<Longrightarrow> tlv_get api es t = Inr b"
    and tlv_get_missing:
      "find (\<lambda>e. blk_type e = t) es = None \<Longrightarrow> \<exists>w. tlv_get api es t = Inl (Throws w)"
    and str_block_type: "blk_type (str_block api t s) = t"
    and read_str_block: "read_string api (str_block api t s) = s"
    and nn_block_type: "blk_type (nn_block api t n) = t"
    and read_nn_block: "n < 2 ^ 64 \<Longrightarrow> read_nn api (nn_block api t n) = Inr n"
    and nested_block_type: "blk_type (nested_block api t b) = t"
    and from_nested_block: "block_from_value api (nested_block api t b) = Inr b"
    and name_wire_type: "blk_type (name_wire api nm) = 7"
    and name_of_wire: "name_of_block api (name_wire api nm) = Inr nm"
    and tlv_invalid_eq: "tlv_invalid api = 2 ^ 32 - 1"
  using assms unfolding tlv_laws_def by blast+

lemma block_parse_with: "tlv_laws api \<Longrightarrow> block_parse api (block_with api t es) = Inr es"
  by (simp add: block_parse_def block_with_def tlv_parse_encode)

section \<open>Packets\<close>

text \<open>
  Numbers of the TLV types and signature types of the packet format that the code uses by
  name (\<^verbatim>\<open>ndn::tlv::Content\<close>, \<^verbatim>\<open>ndn::tlv::ApplicationParameters\<close>,
  \<^verbatim>\<open>ndn::tlv::ContentType_Key\<close>).
\<close>

abbreviation (input) "TLV_Content \<equiv> (21::nat)"
abbreviation (input) "TLV_ApplicationParameters \<equiv> (36::nat)"
abbreviation (input) "ContentType_Key \<equiv> (2::nat)"

datatype 'c key_locator = KL_Empty | KL_Name "'c name" | KL_Digest bytes

record 'c sig_info =
  si_type :: nat
  si_keyLocator :: "'c key_locator"
  si_validity :: "(nat \<times> nat) option"

record 'c data =
  d_name :: "'c name"
  d_contentType :: nat
  d_freshness :: nat
  d_content :: block
  d_sigInfo :: "'c sig_info option"
  d_sigValue :: bytes

record 'c interest =
  i_name :: "'c name"
  i_canBePrefix :: bool
  i_mustBeFresh :: bool
  i_lifetime :: nat
  i_appParams :: block
  i_sigInfo :: "'c sig_info option"
  i_sigValue :: bytes

text \<open>\<^verbatim>\<open>Data(name)\<close> and \<^verbatim>\<open>Interest(name)\<close> with the library's defaults.\<close>

definition new_data :: "'c name \<Rightarrow> 'c data" where
  "new_data n = \<lparr>d_name = n, d_contentType = 0, d_freshness = 0, d_content = Blk TLV_Content [],
     d_sigInfo = None, d_sigValue = []\<rparr>"

definition new_interest :: "'c name \<Rightarrow> 'c interest" where
  "new_interest n = \<lparr>i_name = n, i_canBePrefix = False, i_mustBeFresh = False, i_lifetime = 4000,
     i_appParams = Blk TLV_ApplicationParameters [], i_sigInfo = None, i_sigValue = []\<rparr>"

text \<open>
  \<^verbatim>\<open>getSignatureInfo().getKeyLocator().getName()\<close> throws when there is no key locator
  or it is not a name.
\<close>

definition key_locator_name :: "'c sig_info option \<Rightarrow> 'c name res" where
  "key_locator_name si = (case si of
     Some s \<Rightarrow> (case si_keyLocator s of KL_Name n \<Rightarrow> Inr n | _ \<Rightarrow> Inl (Throws ''KeyLocator is not a name''))
   | None \<Rightarrow> Inl (Throws ''KeyLocator does not exist''))"

text \<open>
  \<open>data_unsigned\<close> is \<^verbatim>\<open>wireEncode(encoder, true)\<close> (the signed portion alone),
  \<open>data_ranges\<close> and \<open>interest_ranges\<close> are \<^verbatim>\<open>extractSignedRanges\<close>,
  \<open>content_of\<close> the block \<^verbatim>\<open>setContent\<close> stores, \<open>interest_sealed\<close> what
  \<^verbatim>\<open>Interest::wireEncode\<close> leaves of a signed Interest (its digest component appended).
\<close>

record 'c packet_api = "'c tlv_api" +
  content_of :: "block \<Rightarrow> block"
  data_wire :: "'c data \<Rightarrow> block"
  data_of_block :: "block \<Rightarrow> 'c data res"
  data_unsigned :: "'c data \<Rightarrow> bytes res"
  data_ranges :: "'c data \<Rightarrow> bytes list res"
  interest_ranges :: "'c interest \<Rightarrow> bytes list res"
  interest_sealed :: "'c interest \<Rightarrow> 'c interest"
  interest_digest_valid :: "'c interest \<Rightarrow> bool"

text \<open>
  Encoding the signed portion throws when the packet has no signature info. It does not depend on the signature value, and for a packet that carries a
  signature info the extracted ranges are that portion. A Content block is stored as it is,
  another block is nested in one. The wire format of a signed packet, an element of type 6,
  reads back.
\<close>

definition packet_laws :: "('c, 'z) packet_api_scheme \<Rightarrow> bool" where
  "packet_laws api \<longleftrightarrow>
     (\<forall>d v. data_unsigned api (d\<lparr>d_sigValue := v\<rparr>) = data_unsigned api d) \<and>
     (\<forall>d. d_sigInfo d \<noteq> None \<longrightarrow>
        (\<exists>rs. data_ranges api d = Inr rs \<and> data_unsigned api d = Inr (concat rs))) \<and>
     (\<forall>i v. i_sigInfo i \<noteq> None \<longrightarrow>
        (\<exists>rs rs'. interest_ranges api i = Inr rs \<and>
          interest_ranges api (interest_sealed api (i\<lparr>i_sigValue := v\<rparr>)) = Inr rs' \<and>
          concat rs' = concat rs)) \<and>
     (\<forall>i. i_sigInfo (interest_sealed api i) = i_sigInfo i \<and>
        i_sigValue (interest_sealed api i) = i_sigValue i) \<and>
     (\<forall>b. content_of api b = (if blk_type b = TLV_Content then b else block_with api TLV_Content [b])) \<and>
     (\<forall>d. blk_type (data_wire api d) = 6) \<and>
     (\<forall>d. d_sigInfo d \<noteq> None \<longrightarrow> data_of_block api (data_wire api d) = Inr d) \<and>
     (\<forall>d. block_of_bytes api (tlv_encode api [data_wire api d]) = Inr (data_wire api d))"

lemma packet_lawsD:
  assumes "packet_laws api"
  shows data_unsigned_sigValue: "data_unsigned api (d\<lparr>d_sigValue := v\<rparr>) = data_unsigned api d"
    and data_ranges_unsigned: "d_sigInfo d \<noteq> None \<Longrightarrow>
      \<exists>rs. data_ranges api d = Inr rs \<and> data_unsigned api d = Inr (concat rs)"
    and interest_ranges_sealed: "i_sigInfo i \<noteq> None \<Longrightarrow>
      \<exists>rs rs'. interest_ranges api i = Inr rs \<and>
        interest_ranges api (interest_sealed api (i\<lparr>i_sigValue := v\<rparr>)) = Inr rs' \<and>
        concat rs' = concat rs"
    and sealed_sigInfo: "i_sigInfo (interest_sealed api i) = i_sigInfo i"
    and sealed_sigValue: "i_sigValue (interest_sealed api i) = i_sigValue i"
    and content_of_eq:
      "content_of api b = (if blk_type b = TLV_Content then b else block_with api TLV_Content [b])"
    and data_wire_type: "blk_type (data_wire api d) = 6"
    and data_of_wire: "d_sigInfo d \<noteq> None \<Longrightarrow> data_of_block api (data_wire api d) = Inr d"
    and data_of_bytes: "block_of_bytes api (tlv_encode api [data_wire api d]) = Inr (data_wire api d)"
  using assms unfolding packet_laws_def by blast+

end
