(* ===== verification/Wildcard_Name.thy ===== *)
theory Wildcard_Name
  imports Ndn_Api
begin

text \<open>
  \<^verbatim>\<open>WildCardName\<close> of \<^verbatim>\<open>schema.hpp\<close> and \<^verbatim>\<open>schema.cpp\<close>: the record with its name
  and its multiplicity, the constructors (from a name, from text, from a block) and
  \<^verbatim>\<open>match\<close>. The text constructor uses \<^verbatim>\<open>std::string::find\<close>,
  \<^verbatim>\<open>substr\<close> and \<^verbatim>\<open>std::stoi\<close>, modelled here as the C++ standard
  defines them.

  The lemmas give the matching relation component by component, the exact result of the text
  constructor (one component per slash, the multiplicity of the \<^verbatim>\<open>nx\<close> prefix, the
  default 1), and that it reads back a printed pattern.
\<close>

section \<open>The record and matching\<close>

record 'c wildcard =
  m_name :: "'c name"
  m_times :: nat

definition WILDCARD_NAME_TYPE :: "('c, 'z) name_api_scheme \<Rightarrow> nat" where
  "WILDCARD_NAME_TYPE api = nameComponentMax api - 1"

definition WildCardName_of_name :: "'c name \<Rightarrow> 'c wildcard" where
  "WildCardName_of_name format = \<lparr>m_name = format, m_times = 1\<rparr>"

definition WildCardName_of_block :: "('c, 'z) tlv_api_scheme \<Rightarrow> block \<Rightarrow> 'c wildcard res" where
  "WildCardName_of_block api b =
     res_bind (name_of_block api b) (\<lambda>n. Inr \<lparr>m_name = n, m_times = 1\<rparr>)"

definition wc_match :: "('c, 'z) name_api_scheme \<Rightarrow> 'c wildcard \<Rightarrow> 'c name \<Rightarrow> bool" where
  "wc_match api w name \<longleftrightarrow>
     (if length (m_name w) \<noteq> length name then False
      else list_all (\<lambda>i. \<not> (comp_type api (m_name w ! i) \<noteq> WILDCARD_NAME_TYPE api \<and>
             comp_string api (m_name w ! i) \<noteq> comp_string api (name ! i)))
           [0..<length (m_name w)])"

definition comp_matches :: "('c, 'z) name_api_scheme \<Rightarrow> 'c \<Rightarrow> 'c \<Rightarrow> bool" where
  "comp_matches api p c \<longleftrightarrow>
     comp_type api p = WILDCARD_NAME_TYPE api \<or> comp_string api p = comp_string api c"

lemma wc_match_list_all2: "wc_match api w name = list_all2 (comp_matches api) (m_name w) name"
  by (auto simp: wc_match_def comp_matches_def list_all_iff list_all2_conv_all_nth)

lemma wc_match_length: "wc_match api w name \<Longrightarrow> length name = length (m_name w)"
  by (auto simp: wc_match_list_all2 dest: list_all2_lengthD)

lemma wc_match_self: "wc_match api (WildCardName_of_name n) n"
  by (auto simp: wc_match_list_all2 WildCardName_of_name_def comp_matches_def intro: list_all2_refl)

lemma wc_match_cong_name: "m_name w = m_name v \<Longrightarrow> wc_match api w n = wc_match api v n"
  by (simp add: wc_match_list_all2)

section \<open>The text constructor\<close>

subsection \<open>Searching and number parsing of the standard library\<close>

text \<open>\<^verbatim>\<open>s.find(c)\<close>: the first position, \<open>None\<close> for \<^verbatim>\<open>npos\<close>.\<close>

fun str_find :: "char \<Rightarrow> string \<Rightarrow> nat option" where
  "str_find c [] = None"
| "str_find c (d # s) = (if d = c then Some 0 else map_option Suc (str_find c s))"

definition is_space :: "char \<Rightarrow> bool" where
  "is_space c \<longleftrightarrow> of_char c \<in> {9, 10, 11, 12, 13, 32 :: nat}"

definition digit_val :: "char \<Rightarrow> nat option" where
  "digit_val c = (if 48 \<le> (of_char c :: nat) \<and> (of_char c :: nat) \<le> 57 then Some (of_char c - 48) else None)"

text \<open>The value of the leading decimal digits; \<open>None\<close> when there is none.\<close>

fun leading_digits :: "nat option \<Rightarrow> string \<Rightarrow> nat option" where
  "leading_digits acc [] = acc"
| "leading_digits acc (c # s) = (case digit_val c of
     None \<Rightarrow> acc
   | Some d \<Rightarrow> leading_digits (Some ((case acc of None \<Rightarrow> 0 | Some a \<Rightarrow> a) * 10 + d)) s)"

definition stoi_sign :: "string \<Rightarrow> int \<times> string" where
  "stoi_sign s = (case s of
     c # r \<Rightarrow> if c = CHR ''-'' then (- 1, r) else if c = CHR ''+'' then (1, r) else (1, s)
   | [] \<Rightarrow> (1, s))"

definition stoi :: "string \<Rightarrow> int res" where
  "stoi s = (case stoi_sign (dropWhile is_space s) of (sg, r) \<Rightarrow>
     (case leading_digits None r of
        None \<Rightarrow> Inl (Throws ''invalid_argument'')
      | Some n \<Rightarrow> (let v = sg * int n in
          if - (2 ^ 31) \<le> v \<and> v < 2 ^ 31 then Inr v else Inl (Throws ''out_of_range''))))"

lemma str_find_Some: "str_find c s = Some k \<Longrightarrow> k < length s \<and> s ! k = c \<and> c \<notin> set (take k s)"
  by (induction s arbitrary: k) (fastforce split: if_splits)+

lemma str_find_None: "str_find c s = None \<longleftrightarrow> c \<notin> set s"
  by (induction s) auto

lemma str_find_append: "c \<notin> set s \<Longrightarrow> str_find c (s @ c # t) = Some (length s)"
  by (induction s) auto

subsection \<open>Splitting at slashes\<close>

text \<open>One component of the pattern: the text \<^verbatim>\<open>*\<close> is the wildcard component.\<close>

definition pattern_component :: "('c, 'z) name_api_scheme \<Rightarrow> string \<Rightarrow> 'c" where
  "pattern_component api compStr =
     (if compStr = ''*'' then comp_of_type api (WILDCARD_NAME_TYPE api) else comp_of_string api compStr)"

function split_components :: "('c, 'z) name_api_scheme \<Rightarrow> string \<Rightarrow> 'c name \<Rightarrow> 'c name" where
  "split_components api tempStr nm = (case str_find CHR ''/'' tempStr of
     Some slashPos \<Rightarrow> split_components api (drop (Suc slashPos) tempStr)
        (nm @ [pattern_component api (take slashPos tempStr)])
   | None \<Rightarrow> nm @ [pattern_component api tempStr])"
  by pat_completeness auto
termination
  by (relation "measure (\<lambda>(api, s, nm). length s)") (auto dest: str_find_Some)

declare split_components.simps [simp del]

definition WildCardName_of_string :: "('c, 'z) name_api_scheme \<Rightarrow> string \<Rightarrow> 'c wildcard res" where
  "WildCardName_of_string api str =
     (let xPos = str_find CHR ''x'' str; slashPos = str_find CHR ''/'' str in
      case slashPos of
        None \<Rightarrow> Inl (Throws ''Error: unrecognized wildcard name format.'')
      | Some sp \<Rightarrow>
          (let times = (case xPos of
               Some xp \<Rightarrow> if xp < sp
                 then (case stoi (take xp str) of Inr i \<Rightarrow> size_of_int i | Inl _ \<Rightarrow> 1)
                 else 1
             | None \<Rightarrow> 1)
           in Inr \<lparr>m_name = split_components api (drop (Suc sp) str) [], m_times = times\<rparr>))"

subsection \<open>What the constructor builds\<close>

fun join_slash :: "string list \<Rightarrow> string" where
  "join_slash [] = []"
| "join_slash [s] = s"
| "join_slash (s # ss) = s @ CHR ''/'' # join_slash ss"

lemma split_components_append:
  "split_components api s nm = nm @ split_components api s []"
proof (induction s arbitrary: nm rule: length_induct)
  case (1 s)
  show ?case
  proof (cases "str_find CHR ''/'' s")
    case None
    then show ?thesis by (simp add: split_components.simps [of api s])
  next
    case (Some k)
    let ?c = "pattern_component api (take k s)" and ?r = "drop (Suc k) s"
    have "length ?r < length s" using str_find_Some [OF Some] by auto
    then have "split_components api ?r ns = ns @ split_components api ?r []" for ns
      using "1" by blast
    from this [of "nm @ [?c]"] this [of "[?c]"] Some show ?thesis
      by (simp add: split_components.simps [of api s])
  qed
qed

lemma split_components_join:
  assumes "cs \<noteq> []" and "\<forall>c \<in> set cs. CHR ''/'' \<notin> set c"
  shows "split_components api (join_slash cs) [] = map (pattern_component api) cs"
  using assms
proof (induction cs rule: join_slash.induct)
  case 1
  then show ?case by simp
next
  case (2 s)
  then have "str_find CHR ''/'' s = None" by (simp add: str_find_None)
  then show ?case by (simp add: split_components.simps [of api s])
next
  case (3 s t ts)
  let ?r = "join_slash (t # ts)"
  have "str_find CHR ''/'' (s @ CHR ''/'' # ?r) = Some (length s)"
    using 3 by (intro str_find_append) auto
  then have "split_components api (s @ CHR ''/'' # ?r) [] =
      split_components api ?r [pattern_component api s]"
    by (simp add: split_components.simps [of api "s @ CHR ''/'' # ?r"])
  also have "\<dots> = pattern_component api s # split_components api ?r []"
    by (subst split_components_append) simp
  finally show ?case using 3 by simp
qed

lemma join_slash_surj: "\<exists>cs. cs \<noteq> [] \<and> (\<forall>c \<in> set cs. CHR ''/'' \<notin> set c) \<and> s = join_slash cs"
proof (induction s rule: length_induct)
  case (1 s)
  show ?case
  proof (cases "str_find CHR ''/'' s")
    case None
    then show ?thesis by (intro exI [of _ "[s]"]) (simp add: str_find_None)
  next
    case (Some k)
    then have k: "k < length s" "s ! k = CHR ''/''" "CHR ''/'' \<notin> set (take k s)"
      by (auto dest: str_find_Some)
    then have "length (drop (Suc k) s) < length s" by simp
    then obtain cs where cs: "cs \<noteq> []" "\<forall>c \<in> set cs. CHR ''/'' \<notin> set c"
      "drop (Suc k) s = join_slash cs" using "1" by blast
    from k have "s = take k s @ CHR ''/'' # drop (Suc k) s" by (metis id_take_nth_drop)
    with cs k(3) show ?thesis
      by (intro exI [of _ "take k s # cs"]) (auto simp: neq_Nil_conv)
  qed
qed

text \<open>The text of a pattern, its \<^verbatim>\<open>nx\<close> prefix in decimal.\<close>

definition render_pattern :: "nat option \<Rightarrow> string list \<Rightarrow> string" where
  "render_pattern k cs =
     (case k of None \<Rightarrow> [] | Some n \<Rightarrow> digits_of n @ ''x'') @ CHR ''/'' # join_slash cs"

lemma digit_val_digit: "d < 10 \<Longrightarrow> digit_val (char_of (48 + d)) = Some d"
  by (simp add: digit_val_def)

lemma leading_digits_append:
  "list_all (\<lambda>c. digit_val c \<noteq> None) s \<Longrightarrow>
   leading_digits acc (s @ t) = leading_digits (leading_digits acc s) t"
  by (induction s arbitrary: acc) (auto split: option.splits)

lemma digits_of_all: "list_all (\<lambda>c. digit_val c \<noteq> None) (digits_of n)"
proof (induction n rule: digits_of.induct)
  case (1 n)
  then show ?case
    by (cases "n < 10") (simp_all add: digits_of.simps [of n] digit_val_digit)
qed

lemma leading_digits_of: "leading_digits None (digits_of n) = Some n"
proof (induction n rule: digits_of.induct)
  case (1 n)
  show ?case
  proof (cases "n < 10")
    case True
    then show ?thesis by (simp add: digits_of.simps [of n] digit_val_digit)
  next
    case False
    then have "leading_digits None (digits_of n) =
        leading_digits (leading_digits None (digits_of (n div 10))) [char_of (48 + n mod 10)]"
      by (simp add: digits_of.simps [of n] leading_digits_append [OF digits_of_all])
    also have "\<dots> = Some (n div 10 * 10 + n mod 10)"
      using "1" False by (simp add: digit_val_digit)
    finally show ?thesis by simp
  qed
qed

lemma digit_char_props:
  assumes "digit_val c \<noteq> None"
  shows "c \<noteq> CHR ''x''" "c \<noteq> CHR ''/''" "c \<noteq> CHR ''-''" "c \<noteq> CHR ''+''" "\<not> is_space c"
  using assms by (auto simp: digit_val_def is_space_def split: if_splits)

lemma digits_of_ne: "digits_of n \<noteq> []"
  by (subst digits_of.simps) simp

lemma stoi_digits_of:
  "stoi (digits_of n) = (if n < 2 ^ 31 then Inr (int n) else Inl (Throws ''out_of_range''))"
proof -
  obtain c r where cr: "digits_of n = c # r" using digits_of_ne by (meson neq_Nil_conv)
  then have "digit_val c \<noteq> None" using digits_of_all [of n] by simp
  then have "dropWhile is_space (digits_of n) = digits_of n"
    and "stoi_sign (digits_of n) = (1, digits_of n)"
    by (simp_all add: cr digit_char_props stoi_sign_def)
  then show ?thesis by (simp add: stoi_def leading_digits_of)
qed

lemma digits_of_chars: "CHR ''x'' \<notin> set (digits_of n)" "CHR ''/'' \<notin> set (digits_of n)"
proof -
  have "digit_val c \<noteq> None" if "c \<in> set (digits_of n)" for c
    using digits_of_all [of n] that by (simp only: list_all_iff) blast
  then show "CHR ''x'' \<notin> set (digits_of n)" "CHR ''/'' \<notin> set (digits_of n)"
    using digit_char_props(1,2) by metis+
qed

lemma WildCardName_of_slash:
  assumes "cs \<noteq> []" and "\<forall>c \<in> set cs. CHR ''/'' \<notin> set c"
  shows "WildCardName_of_string api (CHR ''/'' # join_slash cs) =
    Inr \<lparr>m_name = map (pattern_component api) cs, m_times = 1\<rparr>"
proof -
  have "str_find CHR ''x'' (CHR ''/'' # t) = Some xp \<Longrightarrow> \<not> xp < 0" for t xp by simp
  then show ?thesis
    by (simp add: WildCardName_of_string_def split_components_join [OF assms] split: option.split)
qed

text \<open>
  C36: reading back a printed pattern. For a pattern printed with an optional multiplicity
  \<open>n\<close> and components that contain no slash, the text constructor returns exactly those
  components, \<^verbatim>\<open>*\<close> as the wildcard component, and the multiplicity: 1 when the
  prefix is absent, \<open>n\<close> when it fits an \<^verbatim>\<open>int\<close>, and 1 again, silently, when it
  does not.
\<close>

theorem WildCardName_of_render:
  assumes "cs \<noteq> []" and "\<forall>c \<in> set cs. CHR ''/'' \<notin> set c"
  shows "WildCardName_of_string api (render_pattern k cs) =
    Inr \<lparr>m_name = map (pattern_component api) cs,
         m_times = (case k of None \<Rightarrow> 1 | Some n \<Rightarrow> if n < 2 ^ 31 then n else 1)\<rparr>"
proof (cases k)
  case None
  then show ?thesis by (simp add: render_pattern_def WildCardName_of_slash [OF assms])
next
  case (Some n)
  let ?d = "digits_of n" and ?t = "CHR ''/'' # join_slash cs"
  have x: "str_find CHR ''x'' (?d @ CHR ''x'' # ?t) = Some (length ?d)"
    by (rule str_find_append) (rule digits_of_chars)
  have "str_find CHR ''/'' ((?d @ ''x'') @ ?t) = Some (length (?d @ ''x''))"
    by (rule str_find_append) (simp add: digits_of_chars)
  then have sl: "str_find CHR ''/'' (?d @ CHR ''x'' # ?t) = Some (Suc (length ?d))" by simp
  have "n < 2 ^ 31 \<Longrightarrow> size_of_int (int n) = n" by (simp add: size_of_int_def)
  with Some x sl show ?thesis
    by (simp add: render_pattern_def WildCardName_of_string_def split_components_join [OF assms] stoi_digits_of)
qed

end
