(* ===== verification/Schema.thy ===== *)
theory Schema
  imports Wildcard_Name
begin

text \<open>
  \<^verbatim>\<open>MultipartySchema\<close> of \<^verbatim>\<open>schema.hpp\<close> and \<^verbatim>\<open>schema.cpp\<close>: the
  record, decoding from a property tree (\<^verbatim>\<open>fromSchemaSection\<close>, \<^verbatim>\<open>fromJSON\<close>,
  \<^verbatim>\<open>fromINFO\<close>), encoding to one (\<^verbatim>\<open>toString\<close>) and the decision
  \<^verbatim>\<open>passSchema\<close>. The Boost property tree and its parsers are the parameter record
  \<open>ptree_api\<close>, with \<open>ptree_laws\<close> for what Boost documents of reading after writing.

  The lemmas characterise \<^verbatim>\<open>passSchema\<close> by counts, give its monotonicity, and state
  what a written and re-read schema keeps.
\<close>

section \<open>The record and the decision\<close>

record 'c schema =
  m_pktName :: "'c wildcard"
  m_ruleId :: string
  m_signers :: "'c wildcard list"
  m_optionalSigners :: "'c wildcard list"
  m_minOptionalSigners :: nat

definition MultipartySchema_init :: "'c schema" where
  "MultipartySchema_init = \<lparr>m_pktName = \<lparr>m_name = [], m_times = 1\<rparr>, m_ruleId = [],
     m_signers = [], m_optionalSigners = [], m_minOptionalSigners = 0\<rparr>"

definition schema_match :: "('c, 'z) name_api_scheme \<Rightarrow> 'c schema \<Rightarrow> 'c name \<Rightarrow> bool" where
  "schema_match api schema packetName = wc_match api (m_pktName schema) packetName"

definition count_matching :: "('c, 'z) name_api_scheme \<Rightarrow> 'c wildcard \<Rightarrow> 'c name list \<Rightarrow> nat" where
  "count_matching api pattern signers =
     foldl (\<lambda>count item. if wc_match api pattern item then count + 1 else count) 0 signers"

fun required_ok :: "('c, 'z) name_api_scheme \<Rightarrow> 'c wildcard list \<Rightarrow> 'c name list \<Rightarrow> bool" where
  "required_ok api [] signers = True"
| "required_ok api (pattern # ps) signers =
     (if count_matching api pattern signers < m_times pattern then False
      else required_ok api ps signers)"

definition passSchema :: "('c, 'z) name_api_scheme \<Rightarrow> 'c schema \<Rightarrow> 'c name list \<Rightarrow> bool" where
  "passSchema api schema signers =
     (if \<not> required_ok api (m_signers schema) signers then False
      else (let totalMatchedKeys =
              foldl (\<lambda>total pattern. total + min (count_matching api pattern signers) (m_times pattern))
                0 (m_optionalSigners schema)
            in if totalMatchedKeys \<ge> m_minOptionalSigners schema then True else False))"

subsection \<open>Characterisation by counts\<close>

definition optional_total :: "('c, 'z) name_api_scheme \<Rightarrow> 'c wildcard list \<Rightarrow> 'c name list \<Rightarrow> nat" where
  "optional_total api ps signers =
     sum_list (map (\<lambda>p. min (count_if (wc_match api p) signers) (m_times p)) ps)"

definition required_met :: "('c, 'z) name_api_scheme \<Rightarrow> 'c wildcard list \<Rightarrow> 'c name list \<Rightarrow> bool" where
  "required_met api ps signers \<longleftrightarrow> (\<forall>p \<in> set ps. m_times p \<le> count_if (wc_match api p) signers)"

lemma foldl_count_if:
  "foldl (\<lambda>count item. if P item then count + 1 else count) n xs = n + count_if P xs"
  by (induction xs arbitrary: n) auto

lemma foldl_sum: "foldl (\<lambda>t p. t + f p) (n::nat) ps = n + sum_list (map f ps)"
  by (induction ps arbitrary: n) auto

lemma count_matching_eq [counting]: "count_matching api p signers = count_if (wc_match api p) signers"
  by (simp add: count_matching_def foldl_count_if)

lemma required_ok_eq: "required_ok api ps signers = required_met api ps signers"
  by (induction ps) (auto simp: required_met_def count_matching_eq)

lemma passSchema_iff:
  "passSchema api schema signers \<longleftrightarrow>
     required_met api (m_signers schema) signers \<and>
     m_minOptionalSigners schema \<le> optional_total api (m_optionalSigners schema) signers"
  by (simp add: passSchema_def Let_def required_ok_eq foldl_sum optional_total_def count_matching_eq)

lemma optional_total_Cons [simp]:
  "optional_total api (p # ps) s = min (count_if (wc_match api p) s) (m_times p) + optional_total api ps s"
  by (simp add: optional_total_def)

lemma optional_total_Nil [simp]: "optional_total api [] s = 0"
  by (simp add: optional_total_def)

lemma optional_total_mono:
  "(\<And>p. p \<in> set ps \<Longrightarrow> count_if (wc_match api p) xs \<le> count_if (wc_match api p) ys) \<Longrightarrow>
   optional_total api ps xs \<le> optional_total api ps ys"
  unfolding optional_total_def by (rule sum_list_map_le) (simp add: min.coboundedI1)

lemma required_met_mono:
  "required_met api ps xs \<Longrightarrow>
   (\<And>p. p \<in> set ps \<Longrightarrow> count_if (wc_match api p) xs \<le> count_if (wc_match api p) ys) \<Longrightarrow>
   required_met api ps ys"
  unfolding required_met_def using order_trans by blast

text \<open>
  C27: what a signer list without repetitions must contain. It passes a schema exactly when
  every required pattern is matched by at least its multiplicity of distinct signers, and the
  distinct matches of the optional patterns, each counted up to its multiplicity, reach the
  minimum.
\<close>

theorem passSchema_distinct_iff:
  assumes "distinct signers"
  shows "passSchema api schema signers \<longleftrightarrow>
    (\<forall>p \<in> set (m_signers schema). m_times p \<le> card {n \<in> set signers. wc_match api p n}) \<and>
    m_minOptionalSigners schema \<le>
      (\<Sum>p\<leftarrow>m_optionalSigners schema. min (card {n \<in> set signers. wc_match api p n}) (m_times p))"
  using assms by (simp add: passSchema_iff required_met_def optional_total_def count_if_distinct)

text \<open>
  More signers never hurt. If a list without repetitions passes, every list that contains
  its signers passes as well, in any order and with any repetitions.
\<close>

theorem passSchema_superset:
  assumes "passSchema api schema xs" and "distinct xs" and "set xs \<subseteq> set ys"
  shows "passSchema api schema ys"
proof -
  have le: "count_if (wc_match api p) xs \<le> count_if (wc_match api p) ys" for p
    using assms(2,3) by (rule count_if_mono)
  with assms(1) show ?thesis
    by (meson passSchema_iff required_met_mono optional_total_mono order_trans)
qed

text \<open>
  \<^verbatim>\<open>passSchema\<close> counts list positions and not signers. A single signer that
  matches a pattern and is listed \<open>n\<close> times satisfies a schema that requires the pattern
  \<open>n\<close> times, although the schema documentation asks for \<open>n\<close> different names.
\<close>

theorem passSchema_counts_repetitions:
  assumes "wc_match api p s"
  shows "passSchema api \<lparr>m_pktName = q, m_ruleId = r, m_signers = [p\<lparr>m_times := n\<rparr>],
      m_optionalSigners = [], m_minOptionalSigners = 0\<rparr> (replicate n s)"
proof -
  have "wc_match api (p\<lparr>m_times := n\<rparr>) s"
    using assms by (simp add: wc_match_list_all2)
  then have "count_if (wc_match api (p\<lparr>m_times := n\<rparr>)) (replicate n s) = n"
    by (subst count_if_all) auto
  then show ?thesis by (simp add: passSchema_iff required_met_def)
qed

section \<open>Reading a schema from a property tree\<close>

record 't ptree_api =
  pt_nonempty :: "'t \<Rightarrow> bool"
  pt_get :: "'t \<Rightarrow> string \<Rightarrow> string \<Rightarrow> string"
  pt_get_int :: "'t \<Rightarrow> string \<Rightarrow> int \<Rightarrow> int"
  pt_child :: "'t \<Rightarrow> string \<Rightarrow> 't option"
  pt_children :: "'t \<Rightarrow> (string \<times> 't) list"
  pt_data :: "'t \<Rightarrow> string"
  pt_new :: 't
  pt_put :: "'t \<Rightarrow> string \<Rightarrow> string \<Rightarrow> 't"
  pt_put_num :: "'t \<Rightarrow> string \<Rightarrow> nat \<Rightarrow> 't"
  pt_add_child :: "'t \<Rightarrow> string \<Rightarrow> 't \<Rightarrow> 't"
  pt_push_back :: "'t \<Rightarrow> string \<Rightarrow> 't \<Rightarrow> 't"
  read_json_file :: "string \<Rightarrow> 't res"
  read_json_text :: "string \<Rightarrow> 't res"
  read_info_file :: "string \<Rightarrow> 't res"
  read_info_text :: "string \<Rightarrow> 't res"
  write_info :: "'t \<Rightarrow> string"

definition CONFIG_PKT_NAME :: string where "CONFIG_PKT_NAME = ''pkt-name''"
definition CONFIG_RULE_ID :: string where "CONFIG_RULE_ID = ''rule-id''"
definition CONFIG_ALL_OF :: string where "CONFIG_ALL_OF = ''all-of''"
definition CONFIG_AT_LEAST_NUM :: string where "CONFIG_AT_LEAST_NUM = ''at-least-num''"
definition CONFIG_AT_LEAST :: string where "CONFIG_AT_LEAST = ''at-least''"

lemmas config_defs = CONFIG_PKT_NAME_def CONFIG_RULE_ID_def CONFIG_ALL_OF_def
  CONFIG_AT_LEAST_NUM_def CONFIG_AT_LEAST_def

definition parseAssert :: "bool \<Rightarrow> unit res" where
  "parseAssert criterion = (if \<not> criterion then Inl (Throws ''Invalid schema format'') else Inr ())"

text \<open>One list of patterns: \<^verbatim>\<open>emplace_back(it->second.data())\<close> for every child.\<close>

definition read_patterns ::
  "('c, 'z) name_api_scheme \<Rightarrow> ('t, 'y) ptree_api_scheme \<Rightarrow> 't option \<Rightarrow> 'c wildcard list res" where
  "read_patterns api pt section_opt = (case section_opt of
     None \<Rightarrow> Inr []
   | Some sec \<Rightarrow> res_map (\<lambda>it. WildCardName_of_string api (pt_data pt (snd it))) (pt_children pt sec))"

definition fromSchemaSection ::
  "('c, 'z) name_api_scheme \<Rightarrow> ('t, 'y) ptree_api_scheme \<Rightarrow> 't \<Rightarrow> 'c schema res" where
  "fromSchemaSection api pt config =
     res_bind (parseAssert (pt_nonempty pt config \<and>
                            pt_get pt config CONFIG_PKT_NAME [] \<noteq> [] \<and>
                            pt_get pt config CONFIG_RULE_ID [] \<noteq> [])) (\<lambda>_.
     res_bind (WildCardName_of_string api (pt_get pt config CONFIG_PKT_NAME [])) (\<lambda>pktName.
     res_bind (read_patterns api pt (pt_child pt config CONFIG_ALL_OF)) (\<lambda>signers.
     res_bind (read_patterns api pt (pt_child pt config CONFIG_AT_LEAST)) (\<lambda>optionals.
       Inr \<lparr>m_pktName = pktName,
            m_ruleId = pt_get pt config CONFIG_RULE_ID [],
            m_signers = signers,
            m_optionalSigners = optionals,
            m_minOptionalSigners = size_of_int (pt_get_int pt config CONFIG_AT_LEAST_NUM 0)\<rparr>))))"

definition fromJSON ::
  "('c, 'z) name_api_scheme \<Rightarrow> ('t, 'y) ptree_api_scheme \<Rightarrow> string \<Rightarrow> 'c schema res" where
  "fromJSON api pt fileOrConfigStr =
     res_bind (res_catch (read_json_file pt fileOrConfigStr) (read_json_text pt fileOrConfigStr))
       (fromSchemaSection api pt)"

definition fromINFO ::
  "('c, 'z) name_api_scheme \<Rightarrow> ('t, 'y) ptree_api_scheme \<Rightarrow> string \<Rightarrow> 'c schema res" where
  "fromINFO api pt fileOrConfigStr =
     res_bind (res_catch (read_info_file pt fileOrConfigStr) (read_info_text pt fileOrConfigStr))
       (fromSchemaSection api pt)"

section \<open>Writing a schema to a property tree\<close>

definition signers_node ::
  "('c, 'z) name_api_scheme \<Rightarrow> ('t, 'y) ptree_api_scheme \<Rightarrow> 'c wildcard list \<Rightarrow> 't" where
  "signers_node api pt ps =
     foldl (\<lambda>node signer. pt_push_back pt node [] (pt_put pt (pt_new pt) [] (name_uri api (m_name signer))))
       (pt_new pt) ps"

definition toSection :: "('c, 'z) name_api_scheme \<Rightarrow> ('t, 'y) ptree_api_scheme \<Rightarrow> 'c schema \<Rightarrow> 't" where
  "toSection api pt s =
     (let c = pt_put pt (pt_new pt) CONFIG_PKT_NAME (name_uri api (m_name (m_pktName s)));
          c = pt_put pt c CONFIG_RULE_ID (m_ruleId s);
          c = (if m_minOptionalSigners s > 0 then pt_put_num pt c CONFIG_AT_LEAST_NUM (m_minOptionalSigners s) else c);
          c = (if m_signers s \<noteq> [] then pt_add_child pt c CONFIG_ALL_OF (signers_node api pt (m_signers s)) else c);
          c = (if m_optionalSigners s \<noteq> []
               then pt_add_child pt c CONFIG_AT_LEAST (signers_node api pt (m_optionalSigners s)) else c)
      in c)"

definition toString :: "('c, 'z) name_api_scheme \<Rightarrow> ('t, 'y) ptree_api_scheme \<Rightarrow> 'c schema \<Rightarrow> string" where
  "toString api pt s = write_info pt (toSection api pt s)"

text \<open>
  What Boost documents of a tree, for the five keys of the schema: a value put at a key is read
  back, other keys keep theirs, an integer that does not fit the requested type reads as the
  default, pushed children are iterated in order, and the INFO parser reads what the INFO
  writer wrote.
\<close>

definition config_keys :: "string set" where
  "config_keys = {CONFIG_PKT_NAME, CONFIG_RULE_ID, CONFIG_ALL_OF, CONFIG_AT_LEAST_NUM, CONFIG_AT_LEAST}"

definition ptree_laws :: "('t, 'y) ptree_api_scheme \<Rightarrow> bool" where
  "ptree_laws pt \<longleftrightarrow>
     (\<forall>t v. pt_data pt (pt_put pt t [] v) = v) \<and>
     (\<forall>t k v. k \<in> config_keys \<longrightarrow> pt_nonempty pt (pt_put pt t k v)) \<and>
     (\<forall>t k v. k \<in> config_keys \<longrightarrow> pt_nonempty pt t \<longrightarrow>
        pt_nonempty pt (pt_put_num pt t k v)) \<and>
     (\<forall>t k v. k \<in> config_keys \<longrightarrow> pt_nonempty pt (pt_add_child pt t k v)) \<and>
     (\<forall>t k k' v d. k \<in> config_keys \<longrightarrow> k' \<in> config_keys \<longrightarrow>
        pt_get pt (pt_put pt t k v) k' d = (if k' = k then v else pt_get pt t k' d)) \<and>
     (\<forall>t k k' v d. k \<in> config_keys \<longrightarrow> k' \<in> config_keys \<longrightarrow> k' \<noteq> k \<longrightarrow>
        pt_get pt (pt_put_num pt t k v) k' d = pt_get pt t k' d) \<and>
     (\<forall>t k k' v d. k \<in> config_keys \<longrightarrow> k' \<in> config_keys \<longrightarrow> k' \<noteq> k \<longrightarrow>
        pt_get pt (pt_add_child pt t k v) k' d = pt_get pt t k' d) \<and>
     (\<forall>k d. k \<in> config_keys \<longrightarrow> pt_get_int pt (pt_new pt) k d = d) \<and>
     (\<forall>t k k' v d. k \<in> config_keys \<longrightarrow> k' \<in> config_keys \<longrightarrow> k' \<noteq> k \<longrightarrow>
        pt_get_int pt (pt_put pt t k v) k' d = pt_get_int pt t k' d) \<and>
     (\<forall>t k k' v d. k \<in> config_keys \<longrightarrow> k' \<in> config_keys \<longrightarrow>
        pt_get_int pt (pt_put_num pt t k v) k' d =
          (if k' = k then (if v < 2 ^ 31 then int v else d) else pt_get_int pt t k' d)) \<and>
     (\<forall>t k k' v d. k \<in> config_keys \<longrightarrow> k' \<in> config_keys \<longrightarrow> k' \<noteq> k \<longrightarrow>
        pt_get_int pt (pt_add_child pt t k v) k' d = pt_get_int pt t k' d) \<and>
     (\<forall>k. k \<in> config_keys \<longrightarrow> pt_child pt (pt_new pt) k = None) \<and>
     (\<forall>t k k' v. k \<in> config_keys \<longrightarrow> k' \<in> config_keys \<longrightarrow> k' \<noteq> k \<longrightarrow>
        pt_child pt (pt_put pt t k v) k' = pt_child pt t k') \<and>
     (\<forall>t k k' v. k \<in> config_keys \<longrightarrow> k' \<in> config_keys \<longrightarrow> k' \<noteq> k \<longrightarrow>
        pt_child pt (pt_put_num pt t k v) k' = pt_child pt t k') \<and>
     (\<forall>t k k' c. k \<in> config_keys \<longrightarrow> k' \<in> config_keys \<longrightarrow>
        pt_child pt t k = None \<longrightarrow>
        pt_child pt (pt_add_child pt t k c) k' = (if k' = k then Some c else pt_child pt t k')) \<and>
     (\<forall>t k c. pt_children pt (pt_push_back pt t k c) = pt_children pt t @ [(k, c)]) \<and>
     pt_children pt (pt_new pt) = []"

lemma config_keys_distinct:
  "distinct [CONFIG_PKT_NAME, CONFIG_RULE_ID, CONFIG_ALL_OF, CONFIG_AT_LEAST_NUM, CONFIG_AT_LEAST]"
  by (simp add: config_defs)

lemma in_config_keys [simp]:
  "CONFIG_PKT_NAME \<in> config_keys" "CONFIG_RULE_ID \<in> config_keys" "CONFIG_ALL_OF \<in> config_keys"
  "CONFIG_AT_LEAST_NUM \<in> config_keys" "CONFIG_AT_LEAST \<in> config_keys"
  by (simp_all add: config_keys_def)


lemma ptree_lawsD:
  assumes "ptree_laws pt"
  shows pt_data_put: "pt_data pt (pt_put pt t [] v) = v"
    and pt_nonempty_put: "k \<in> config_keys \<Longrightarrow> pt_nonempty pt (pt_put pt t k v)"
    and pt_nonempty_put_num:
      "k \<in> config_keys \<Longrightarrow> pt_nonempty pt t \<Longrightarrow> pt_nonempty pt (pt_put_num pt t k m)"
    and pt_nonempty_add: "k \<in> config_keys \<Longrightarrow> pt_nonempty pt (pt_add_child pt t k c)"
    and pt_get_put: "k \<in> config_keys \<Longrightarrow> k' \<in> config_keys \<Longrightarrow>
      pt_get pt (pt_put pt t k v) k' d = (if k' = k then v else pt_get pt t k' d)"
    and pt_get_put_num: "k \<in> config_keys \<Longrightarrow> k' \<in> config_keys \<Longrightarrow> k' \<noteq> k \<Longrightarrow>
      pt_get pt (pt_put_num pt t k m) k' d = pt_get pt t k' d"
    and pt_get_add: "k \<in> config_keys \<Longrightarrow> k' \<in> config_keys \<Longrightarrow> k' \<noteq> k \<Longrightarrow>
      pt_get pt (pt_add_child pt t k c) k' d = pt_get pt t k' d"
    and pt_get_int_new: "k \<in> config_keys \<Longrightarrow> pt_get_int pt (pt_new pt) k i = i"
    and pt_get_int_put: "k \<in> config_keys \<Longrightarrow> k' \<in> config_keys \<Longrightarrow> k' \<noteq> k \<Longrightarrow>
      pt_get_int pt (pt_put pt t k v) k' i = pt_get_int pt t k' i"
    and pt_get_int_put_num: "k \<in> config_keys \<Longrightarrow> k' \<in> config_keys \<Longrightarrow>
      pt_get_int pt (pt_put_num pt t k m) k' i =
        (if k' = k then (if m < 2 ^ 31 then int m else i) else pt_get_int pt t k' i)"
    and pt_get_int_add: "k \<in> config_keys \<Longrightarrow> k' \<in> config_keys \<Longrightarrow> k' \<noteq> k \<Longrightarrow>
      pt_get_int pt (pt_add_child pt t k c) k' i = pt_get_int pt t k' i"
    and pt_child_new: "k \<in> config_keys \<Longrightarrow> pt_child pt (pt_new pt) k = None"
    and pt_child_put: "k \<in> config_keys \<Longrightarrow> k' \<in> config_keys \<Longrightarrow> k' \<noteq> k \<Longrightarrow>
      pt_child pt (pt_put pt t k v) k' = pt_child pt t k'"
    and pt_child_put_num: "k \<in> config_keys \<Longrightarrow> k' \<in> config_keys \<Longrightarrow> k' \<noteq> k \<Longrightarrow>
      pt_child pt (pt_put_num pt t k m) k' = pt_child pt t k'"
    and pt_child_add: "k \<in> config_keys \<Longrightarrow> k' \<in> config_keys \<Longrightarrow> pt_child pt t k = None \<Longrightarrow>
      pt_child pt (pt_add_child pt t k c) k' = (if k' = k then Some c else pt_child pt t k')"
    and pt_children_push: "pt_children pt (pt_push_back pt t k c) = pt_children pt t @ [(k, c)]"
    and pt_children_new: "pt_children pt (pt_new pt) = []"
  using assms unfolding ptree_laws_def by (elim conjE; simp)+

lemma config_keys_neq [simp]:
  "CONFIG_PKT_NAME \<noteq> CONFIG_RULE_ID" "CONFIG_PKT_NAME \<noteq> CONFIG_ALL_OF"
  "CONFIG_PKT_NAME \<noteq> CONFIG_AT_LEAST_NUM" "CONFIG_PKT_NAME \<noteq> CONFIG_AT_LEAST"
  "CONFIG_RULE_ID \<noteq> CONFIG_PKT_NAME" "CONFIG_RULE_ID \<noteq> CONFIG_ALL_OF"
  "CONFIG_RULE_ID \<noteq> CONFIG_AT_LEAST_NUM" "CONFIG_RULE_ID \<noteq> CONFIG_AT_LEAST"
  "CONFIG_ALL_OF \<noteq> CONFIG_PKT_NAME" "CONFIG_ALL_OF \<noteq> CONFIG_RULE_ID"
  "CONFIG_ALL_OF \<noteq> CONFIG_AT_LEAST_NUM" "CONFIG_ALL_OF \<noteq> CONFIG_AT_LEAST"
  "CONFIG_AT_LEAST_NUM \<noteq> CONFIG_PKT_NAME" "CONFIG_AT_LEAST_NUM \<noteq> CONFIG_RULE_ID"
  "CONFIG_AT_LEAST_NUM \<noteq> CONFIG_ALL_OF" "CONFIG_AT_LEAST_NUM \<noteq> CONFIG_AT_LEAST"
  "CONFIG_AT_LEAST \<noteq> CONFIG_PKT_NAME" "CONFIG_AT_LEAST \<noteq> CONFIG_RULE_ID"
  "CONFIG_AT_LEAST \<noteq> CONFIG_ALL_OF" "CONFIG_AT_LEAST \<noteq> CONFIG_AT_LEAST_NUM"
  by (simp_all add: config_defs)

lemmas pt_read_back = pt_nonempty_put pt_nonempty_put_num pt_nonempty_add pt_get_put pt_get_put_num
  pt_get_add pt_get_int_new pt_get_int_put pt_get_int_put_num pt_get_int_add pt_child_new
  pt_child_put pt_child_put_num pt_child_add

section \<open>Reading back a written schema\<close>

lemma signers_node_children:
  assumes "ptree_laws pt"
  shows "pt_children pt (signers_node api pt ps) =
    map (\<lambda>p. ([], pt_put pt (pt_new pt) [] (name_uri api (m_name p)))) ps"
proof -
  have "pt_children pt (foldl (\<lambda>node p. pt_push_back pt node [] (pt_put pt (pt_new pt) [] (name_uri api (m_name p))))
      t ps) = pt_children pt t @ map (\<lambda>p. ([], pt_put pt (pt_new pt) [] (name_uri api (m_name p)))) ps" for t
    by (induction ps arbitrary: t) (simp_all add: pt_children_push [OF assms])
  then show ?thesis by (simp add: signers_node_def pt_children_new [OF assms])
qed

definition reread :: "('c, 'z) name_api_scheme \<Rightarrow> 'c wildcard \<Rightarrow> 'c wildcard res" where
  "reread api p = WildCardName_of_string api (name_uri api (m_name p))"

lemma read_patterns_node:
  assumes "ptree_laws pt"
  shows "read_patterns api pt (if ps \<noteq> [] then Some (signers_node api pt ps) else None) =
    res_map (reread api) ps"
proof -
  have "(\<lambda>p. WildCardName_of_string api (name_uri api (m_name p))) = reread api"
    by (simp add: fun_eq_iff reread_def)
  then show ?thesis
    by (simp add: read_patterns_def signers_node_children [OF assms] res_map_map o_def
        pt_data_put [OF assms])
qed

lemma toSection_nonempty: "ptree_laws pt \<Longrightarrow> pt_nonempty pt (toSection api pt s)"
  by (simp add: toSection_def Let_def pt_read_back)

lemma toSection_pktName:
  "ptree_laws pt \<Longrightarrow> pt_get pt (toSection api pt s) CONFIG_PKT_NAME d = name_uri api (m_name (m_pktName s))"
  by (simp add: toSection_def Let_def pt_read_back)

lemma toSection_ruleId: "ptree_laws pt \<Longrightarrow> pt_get pt (toSection api pt s) CONFIG_RULE_ID d = m_ruleId s"
  by (simp add: toSection_def Let_def pt_read_back)

lemma toSection_min:
  "ptree_laws pt \<Longrightarrow> m_minOptionalSigners s < 2 ^ 31 \<Longrightarrow>
   pt_get_int pt (toSection api pt s) CONFIG_AT_LEAST_NUM 0 = int (m_minOptionalSigners s)"
  by (simp add: toSection_def Let_def pt_read_back)

lemma toSection_allOf:
  "ptree_laws pt \<Longrightarrow> pt_child pt (toSection api pt s) CONFIG_ALL_OF =
   (if m_signers s \<noteq> [] then Some (signers_node api pt (m_signers s)) else None)"
  by (simp add: toSection_def Let_def pt_read_back)

lemma toSection_atLeast:
  "ptree_laws pt \<Longrightarrow> pt_child pt (toSection api pt s) CONFIG_AT_LEAST =
   (if m_optionalSigners s \<noteq> [] then Some (signers_node api pt (m_optionalSigners s)) else None)"
  by (simp add: toSection_def Let_def pt_read_back)

lemmas toSection_reads = toSection_nonempty toSection_pktName toSection_ruleId toSection_min
  toSection_allOf toSection_atLeast

text \<open>
  What the library documents of a name printed by \<^verbatim>\<open>toUri\<close>: it begins with a slash, and
  generic components whose text consists of unreserved characters, not of periods only, are
  printed as they are, each after a slash.
\<close>

definition unreserved :: "char \<Rightarrow> bool" where
  "unreserved c \<longleftrightarrow> (let n = (of_char c :: nat) in
     48 \<le> n \<and> n \<le> 57 \<or> 65 \<le> n \<and> n \<le> 90 \<or> 97 \<le> n \<and> n \<le> 122 \<or> n \<in> {45, 46, 95, 126})"

definition plain_text :: "string \<Rightarrow> bool" where
  "plain_text u \<longleftrightarrow> list_all unreserved u \<and> list_ex (\<lambda>c. c \<noteq> CHR ''.'') u"

definition uri_laws :: "('c, 'z) name_api_scheme \<Rightarrow> bool" where
  "uri_laws api \<longleftrightarrow> (\<forall>n. \<exists>u. name_uri api n = CHR ''/'' # u) \<and>
     (\<forall>us. us \<noteq> [] \<and> list_all plain_text us \<longrightarrow>
        name_uri api (map (comp_of_string api) us) = CHR ''/'' # join_slash us)"

lemma plain_textD:
  assumes "plain_text u"
  shows "CHR ''/'' \<notin> set u" and "u \<noteq> ''*''"
  using assms by (auto simp: plain_text_def list_all_iff unreserved_def)

text \<open>
  The hypotheses under which a written schema is read again: the text is not the name of a
  readable file, the INFO parser reads the tree that the INFO writer was given for this schema,
  and the mandatory fields are there.
\<close>

definition reloadable :: "('c, 'z) name_api_scheme \<Rightarrow> ('t, 'y) ptree_api_scheme \<Rightarrow> 'c schema \<Rightarrow> bool" where
  "reloadable api pt s \<longleftrightarrow>
     ptree_laws pt \<and> uri_laws api \<and>
     (\<exists>w. read_info_file pt (toString api pt s) = Inl (Throws w)) \<and>
     read_info_text pt (toString api pt s) = Inr (toSection api pt s) \<and>
     m_ruleId s \<noteq> [] \<and> m_minOptionalSigners s < 2 ^ 31"

lemma reloadable_slash: "reloadable api pt s \<Longrightarrow> \<forall>n. \<exists>u. name_uri api n = CHR ''/'' # u"
  by (simp add: reloadable_def uri_laws_def)

lemma fromINFO_toString:
  assumes "reloadable api pt s"
  shows "fromINFO api pt (toString api pt s) =
    res_bind (reread api (m_pktName s)) (\<lambda>q.
    res_bind (res_map (reread api) (m_signers s)) (\<lambda>rs.
    res_bind (res_map (reread api) (m_optionalSigners s)) (\<lambda>os.
      Inr \<lparr>m_pktName = q, m_ruleId = m_ruleId s, m_signers = rs, m_optionalSigners = os,
           m_minOptionalSigners = m_minOptionalSigners s\<rparr>)))"
proof -
  have laws: "ptree_laws pt" and info: "read_info_text pt (toString api pt s) = Inr (toSection api pt s)"
    using assms unfolding reloadable_def by blast+
  have uri: "name_uri api n \<noteq> []" for n
    using reloadable_slash [OF assms] by (metis list.distinct(1))
  have fields: "m_ruleId s \<noteq> []" "m_minOptionalSigners s < 2 ^ 31"
    using assms unfolding reloadable_def by blast+
  obtain w where "read_info_file pt (toString api pt s) = Inl (Throws w)"
    using assms unfolding reloadable_def by blast
  then have "fromINFO api pt (toString api pt s) = fromSchemaSection api pt (toSection api pt s)"
    by (simp add: fromINFO_def info)
  also have "\<dots> = res_bind (reread api (m_pktName s)) (\<lambda>q.
    res_bind (read_patterns api pt (if m_signers s \<noteq> [] then Some (signers_node api pt (m_signers s)) else None)) (\<lambda>rs.
    res_bind (read_patterns api pt (if m_optionalSigners s \<noteq> [] then Some (signers_node api pt (m_optionalSigners s)) else None)) (\<lambda>os.
      Inr \<lparr>m_pktName = q, m_ruleId = m_ruleId s, m_signers = rs, m_optionalSigners = os,
           m_minOptionalSigners = m_minOptionalSigners s\<rparr>)))"
    using fields uri
    by (simp only: fromSchemaSection_def toSection_reads [OF laws] toSection_min [OF laws fields(2)]
        reread_def parseAssert_def size_of_int_def) simp
  also have "\<dots> = res_bind (reread api (m_pktName s)) (\<lambda>q.
    res_bind (res_map (reread api) (m_signers s)) (\<lambda>rs.
    res_bind (res_map (reread api) (m_optionalSigners s)) (\<lambda>os.
      Inr \<lparr>m_pktName = q, m_ruleId = m_ruleId s, m_signers = rs, m_optionalSigners = os,
           m_minOptionalSigners = m_minOptionalSigners s\<rparr>)))"
    by (simp only: read_patterns_node [OF laws])
  finally show ?thesis .
qed

lemma reread_slash:
  assumes "\<forall>n. \<exists>u. name_uri api n = CHR ''/'' # u"
  shows "\<exists>n. reread api p = Inr \<lparr>m_name = n, m_times = 1\<rparr>"
proof -
  obtain u where u: "name_uri api (m_name p) = CHR ''/'' # u" using assms by blast
  show ?thesis
    unfolding reread_def u WildCardName_of_string_def Let_def by (auto split: option.split)
qed

text \<open>
  Names that \<^verbatim>\<open>toUri\<close> prints as they are: one or more generic components with plain texts.
\<close>

definition schema_patterns :: "'c schema \<Rightarrow> 'c wildcard set" where
  "schema_patterns s = {m_pktName s} \<union> set (m_signers s) \<union> set (m_optionalSigners s)"

definition plain_name :: "('c, 'z) name_api_scheme \<Rightarrow> 'c name \<Rightarrow> bool" where
  "plain_name api n \<longleftrightarrow> (\<exists>us. us \<noteq> [] \<and> list_all plain_text us \<and> n = map (comp_of_string api) us)"

definition single :: "'c wildcard \<Rightarrow> 'c wildcard" where
  "single p = p\<lparr>m_times := 1\<rparr>"

definition single_schema :: "'c schema \<Rightarrow> 'c schema" where
  "single_schema s = s\<lparr>m_pktName := single (m_pktName s), m_signers := map single (m_signers s),
     m_optionalSigners := map single (m_optionalSigners s)\<rparr>"

lemma reread_plain:
  assumes "uri_laws api" and "plain_name api (m_name p)"
  shows "reread api p = Inr (single p)"
proof -
  obtain us where us: "us \<noteq> []" "list_all plain_text us" "m_name p = map (comp_of_string api) us"
    using assms(2) unfolding plain_name_def by blast
  have "name_uri api (m_name p) = CHR ''/'' # join_slash us"
    using assms(1) us unfolding uri_laws_def by simp
  moreover have "\<forall>u \<in> set us. CHR ''/'' \<notin> set u"
    using us(2) plain_textD(1) by (auto simp: list_all_iff)
  moreover have "map (pattern_component api) us = map (comp_of_string api) us"
    using us(2) plain_textD(2) by (auto simp: list_all_iff pattern_component_def)
  ultimately show ?thesis
    using us(1,3) by (cases p) (simp add: reread_def WildCardName_of_slash single_def)
qed

lemma single_same: "single p = p \<longleftrightarrow> m_times p = 1"
  by (cases p) (auto simp: single_def)

lemma single_schema_same: "single_schema s = s \<longleftrightarrow> (\<forall>p \<in> schema_patterns s. m_times p = 1)"
proof -
  have "map single ps = ps \<longleftrightarrow> (\<forall>p \<in> set ps. m_times p = 1)" for ps :: "'a wildcard list"
    by (induction ps) (auto simp: single_same)
  then show ?thesis
    by (cases s) (auto simp: single_schema_def schema_patterns_def single_same)
qed

text \<open>
  C37: what a saved schema is read back as. Let every pattern of the schema be a plain name: one
  or more generic components whose texts are unreserved characters of URIs, not periods only, so
  that no component is a wildcard. Let the rule identifier be non-empty and the minimum
  less than \<open>2 ^ 31\<close>, let the text not be the name of a readable file, and let the INFO parser
  read the tree that the INFO writer was given. Then \<^verbatim>\<open>fromINFO\<close> reads the text
  of \<^verbatim>\<open>toString\<close> as the same schema with every multiplicity set to 1; it is the schema
  itself exactly when all multiplicities are 1.
\<close>

theorem fromINFO_toString_roundtrip:
  assumes "reloadable api pt s" and "\<forall>p \<in> schema_patterns s. plain_name api (m_name p)"
  shows "fromINFO api pt (toString api pt s) = Inr (single_schema s) \<and>
    (fromINFO api pt (toString api pt s) = Inr s \<longleftrightarrow> (\<forall>p \<in> schema_patterns s. m_times p = 1))"
proof -
  have "uri_laws api" using assms(1) by (simp add: reloadable_def)
  then have "reread api p = Inr (single p)" if "p \<in> schema_patterns s" for p
    using that assms(2) by (intro reread_plain) auto
  then have "reread api (m_pktName s) = Inr (single (m_pktName s))"
    "res_map (reread api) (m_signers s) = Inr (map single (m_signers s))"
    "res_map (reread api) (m_optionalSigners s) = Inr (map single (m_optionalSigners s))"
    by (simp_all add: schema_patterns_def res_map_ok)
  then have "fromINFO api pt (toString api pt s) = Inr (single_schema s)"
    by (simp add: fromINFO_toString [OF assms(1)] single_schema_def)
  then show ?thesis using single_schema_same [of s] by auto
qed

text \<open>
  The text \<^verbatim>\<open>toString\<close> writes carries no multiplicities. Whatever the patterns
  required, the schema read back requires each of them once; only the number of patterns, the
  rule identifier and the minimum survive.
\<close>

theorem fromINFO_toString_drops_times:
  assumes "reloadable api pt s"
  shows "\<exists>s'. fromINFO api pt (toString api pt s) = Inr s' \<and>
    m_ruleId s' = m_ruleId s \<and> m_minOptionalSigners s' = m_minOptionalSigners s \<and>
    length (m_signers s') = length (m_signers s) \<and>
    length (m_optionalSigners s') = length (m_optionalSigners s) \<and>
    (\<forall>p \<in> set (m_signers s') \<union> set (m_optionalSigners s'). m_times p = 1)"
proof -
  note slash = reloadable_slash [OF assms]
  define f where "f = (\<lambda>p. projr (reread api p))"
  have f: "reread api p = Inr (f p)" and f1: "m_times (f p) = 1" for p
    using reread_slash [OF slash, of p] by (auto simp: f_def)
  have m: "res_map (reread api) ps = Inr (map f ps)" for ps
    using f by (intro res_map_ok)
  show ?thesis
    by (simp add: fromINFO_toString [OF assms] f m f1 ball_Un)
qed

text \<open>
  Nor does that text carry wildcards. A packet pattern is printed by
  \<^verbatim>\<open>Name::toUri\<close>, which has no \<^verbatim>\<open>*\<close>: when the printed components are
  \<open>us\<close>, the schema read back matches exactly the names whose component texts are
  \<open>us\<close>.
\<close>

theorem toString_loses_wildcards:
  assumes "reloadable api pt s" and "name_laws api"
    and "name_uri api (m_name (m_pktName s)) = CHR ''/'' # join_slash us"
    and "us \<noteq> []" and "\<forall>u \<in> set us. CHR ''/'' \<notin> set u \<and> u \<noteq> ''*''"
  shows "\<exists>s'. fromINFO api pt (toString api pt s) = Inr s' \<and>
    (\<forall>n. schema_match api s' n \<longleftrightarrow> map (comp_string api) n = us)"
proof -
  note slash = reloadable_slash [OF assms(1)]
  define f where "f = (\<lambda>p. projr (reread api p))"
  have f: "reread api p = Inr (f p)" for p
    using reread_slash [OF slash, of p] by (auto simp: f_def)
  have m: "res_map (reread api) ps = Inr (map f ps)" for ps
    using f by (intro res_map_ok)
  have us: "\<forall>u \<in> set us. CHR ''/'' \<notin> set u" using assms(5) by blast
  have "reread api (m_pktName s) = Inr \<lparr>m_name = map (pattern_component api) us, m_times = 1\<rparr>"
    by (simp add: reread_def assms(3) WildCardName_of_slash [OF assms(4) us])
  then have "m_name (f (m_pktName s)) = map (pattern_component api) us" using f by simp
  moreover have "comp_matches api (pattern_component api u) c \<longleftrightarrow> comp_string api c = u" if "u \<in> set us" for u c
    using that assms(2,5) by (auto simp: comp_matches_def pattern_component_def name_laws_def WILDCARD_NAME_TYPE_def)
  then have "list_all2 (comp_matches api) (map (pattern_component api) us) n \<longleftrightarrow> map (comp_string api) n = us" for n
    by (auto simp: list_all2_conv_all_nth list_eq_iff_nth_eq)
  ultimately show ?thesis
    by (simp add: fromINFO_toString [OF assms(1)] f m schema_match_def wc_match_list_all2)
qed

end
