(* ===== verification/Bls_Helpers.thy ===== *)
theory Bls_Helpers
  imports Ndn_Api
begin

text \<open>
  \<^verbatim>\<open>bls-helpers.cpp\<close>: signing, verifying and aggregating BLS signatures on NDN packets.
  The BLS library is the parameter record \<open>bls_api\<close>; an uninitialised C struct is one of
  its fields (\<open>sig_uninit\<close>, \<open>pk_uninit\<close>), and a deserialisation takes the old contents
  of its destination, because the code never looks at the result code.

  \<open>bls_laws\<close> states what the library documents: the secret keys have an addition
  (\<^verbatim>\<open>blsSecretKeyAdd\<close>) that public keys and signatures of one message respect, a
  signature verifies under its own key, and a serialised signature reads back. From it the
  lemmas prove that a signed packet verifies and that an aggregate verifies under the
  aggregate of the keys.
\<close>

section \<open>The library\<close>

record ('sk, 'pk, 'sig) bls_api =
  blsInit :: int
  blsGetPublicKey :: "'sk \<Rightarrow> 'pk"
  blsSign :: "'sk \<Rightarrow> bytes \<Rightarrow> 'sig"
  blsVerify :: "'sig \<Rightarrow> 'pk \<Rightarrow> bytes \<Rightarrow> int"
  blsPublicKeyAdd :: "'pk \<Rightarrow> 'pk \<Rightarrow> 'pk"
  blsSignatureAdd :: "'sig \<Rightarrow> 'sig \<Rightarrow> 'sig"
  blsSignatureSerialize :: "nat \<Rightarrow> 'sig \<Rightarrow> bytes"
  blsSignatureDeserialize :: "'sig \<Rightarrow> bytes \<Rightarrow> 'sig"
  blsPublicKeySerialize :: "nat \<Rightarrow> 'pk \<Rightarrow> bytes"
  sig_uninit :: 'sig
  pk_uninit :: 'pk

definition encodingBuf_size :: nat where
  "encodingBuf_size = 128"

definition SignatureSha256WithBls :: nat where
  "SignatureSha256WithBls = 64"

definition bls_laws :: "('sk, 'pk, 'sig, 'z) bls_api_scheme \<Rightarrow> ('sk \<Rightarrow> 'sk \<Rightarrow> 'sk) \<Rightarrow> bool" where
  "bls_laws bls skAdd \<longleftrightarrow>
     (\<forall>a b. blsGetPublicKey bls (skAdd a b) =
        blsPublicKeyAdd bls (blsGetPublicKey bls a) (blsGetPublicKey bls b)) \<and>
     (\<forall>a b m. blsSign bls (skAdd a b) m = blsSignatureAdd bls (blsSign bls a m) (blsSign bls b m)) \<and>
     (\<forall>a m. blsVerify bls (blsSign bls a m) (blsGetPublicKey bls a) m = 1) \<and>
     (\<forall>old s. blsSignatureDeserialize bls old (blsSignatureSerialize bls encodingBuf_size s) = s)"

lemma bls_lawsD:
  assumes "bls_laws bls skAdd"
  shows pk_skAdd: "blsPublicKeyAdd bls (blsGetPublicKey bls a) (blsGetPublicKey bls b) =
      blsGetPublicKey bls (skAdd a b)"
    and sign_skAdd: "blsSignatureAdd bls (blsSign bls a m) (blsSign bls b m) = blsSign bls (skAdd a b) m"
    and verify_sign: "blsVerify bls (blsSign bls a m) (blsGetPublicKey bls a) m = 1"
    and deserialize_serialize:
      "blsSignatureDeserialize bls old (blsSignatureSerialize bls encodingBuf_size s) = s"
  using assms by (simp_all add: bls_laws_def)

section \<open>The functions\<close>

text \<open>\<^verbatim>\<open>ndnBLSInit\<close>: the flag \<^verbatim>\<open>HAS_BLS_INITIALIZED\<close> is the state.\<close>

definition ndnBLSInit :: "('sk, 'pk, 'sig, 'z) bls_api_scheme \<Rightarrow> bool \<Rightarrow> bool res" where
  "ndnBLSInit bls has_initialized =
     (if \<not> has_initialized
      then (if blsInit bls \<noteq> 0 then Inl (Throws ''Fail to call blsInit'') else Inr True)
      else Inr has_initialized)"

definition ndnGenBLSSignature_data ::
  "('c, 'z) packet_api_scheme \<Rightarrow> ('sk, 'pk, 'sig, 'y) bls_api_scheme \<Rightarrow> 'sk \<Rightarrow> 'c data \<Rightarrow> bytes res" where
  "ndnGenBLSSignature_data api bls signingKey dataWithInfo =
     res_bind (data_unsigned api dataWithInfo) (\<lambda>m.
       Inr (blsSignatureSerialize bls encodingBuf_size (blsSign bls signingKey m)))"

definition ndnGenBLSSignature_data_info ::
  "('c, 'z) packet_api_scheme \<Rightarrow> ('sk, 'pk, 'sig, 'y) bls_api_scheme \<Rightarrow> 'sk \<Rightarrow> 'c data \<Rightarrow>
   'c sig_info \<Rightarrow> bytes res" where
  "ndnGenBLSSignature_data_info api bls signingKey d sigInfo =
     (if si_type sigInfo \<noteq> SignatureSha256WithBls
      then Inl (Throws ''Signer got non-BLS signature type'')
      else ndnGenBLSSignature_data api bls signingKey (d\<lparr>d_sigInfo := Some sigInfo\<rparr>))"

text \<open>The contiguous copy of the signed ranges of an Interest is their concatenation.\<close>

definition ndnGenBLSSignature_interest ::
  "('c, 'z) packet_api_scheme \<Rightarrow> ('sk, 'pk, 'sig, 'y) bls_api_scheme \<Rightarrow> 'sk \<Rightarrow> 'c interest \<Rightarrow> bytes res" where
  "ndnGenBLSSignature_interest api bls signingKey i =
     res_bind (interest_ranges api i) (\<lambda>discontiguousBuf.
       Inr (blsSignatureSerialize bls encodingBuf_size
         (blsSign bls signingKey (foldl (\<lambda>buf piece. buf @ piece) [] discontiguousBuf))))"

definition ndnGenBLSSignature_interest_info ::
  "('c, 'z) packet_api_scheme \<Rightarrow> ('sk, 'pk, 'sig, 'y) bls_api_scheme \<Rightarrow> 'sk \<Rightarrow> 'c interest \<Rightarrow>
   'c sig_info \<Rightarrow> bytes res" where
  "ndnGenBLSSignature_interest_info api bls signingKey i sigInfo =
     (if si_type sigInfo \<noteq> SignatureSha256WithBls
      then Inl (Throws ''Signer got non-BLS signature type'')
      else ndnGenBLSSignature_interest api bls signingKey (i\<lparr>i_sigInfo := Some sigInfo\<rparr>))"

definition bls_sig_info :: "'c name \<Rightarrow> 'c sig_info" where
  "bls_sig_info keyLocatorName =
     \<lparr>si_type = SignatureSha256WithBls, si_keyLocator = KL_Name keyLocatorName, si_validity = None\<rparr>"

definition ndnBLSSign_data_info ::
  "('c, 'z) packet_api_scheme \<Rightarrow> ('sk, 'pk, 'sig, 'y) bls_api_scheme \<Rightarrow> 'sk \<Rightarrow> 'c data \<Rightarrow>
   'c sig_info \<Rightarrow> 'c data res" where
  "ndnBLSSign_data_info api bls signingKey d sigInfo =
     (if si_type sigInfo \<noteq> SignatureSha256WithBls
      then Inl (Throws ''Bad signature type from signature info'')
      else (let d = d\<lparr>d_sigInfo := Some sigInfo\<rparr> in
        res_bind (ndnGenBLSSignature_data api bls signingKey d) (\<lambda>sigValue.
          Inr (d\<lparr>d_sigValue := sigValue\<rparr>))))"

definition ndnBLSSign_data ::
  "('c, 'z) packet_api_scheme \<Rightarrow> ('sk, 'pk, 'sig, 'y) bls_api_scheme \<Rightarrow> 'sk \<Rightarrow> 'c data \<Rightarrow>
   'c name \<Rightarrow> 'c data res" where
  "ndnBLSSign_data api bls signingKey d keyLocatorName =
     ndnBLSSign_data_info api bls signingKey d (bls_sig_info keyLocatorName)"

definition ndnBLSSign_interest_info ::
  "('c, 'z) packet_api_scheme \<Rightarrow> ('sk, 'pk, 'sig, 'y) bls_api_scheme \<Rightarrow> 'sk \<Rightarrow> 'c interest \<Rightarrow>
   'c sig_info \<Rightarrow> 'c interest res" where
  "ndnBLSSign_interest_info api bls signingKey i sigInfo =
     (if si_type sigInfo \<noteq> SignatureSha256WithBls
      then Inl (Throws ''Bad signature type from signature info'')
      else (let i = i\<lparr>i_sigInfo := Some sigInfo\<rparr> in
        res_bind (ndnGenBLSSignature_interest api bls signingKey i) (\<lambda>sigValue.
          Inr (interest_sealed api (i\<lparr>i_sigValue := sigValue\<rparr>)))))"

definition ndnBLSSign_interest ::
  "('c, 'z) packet_api_scheme \<Rightarrow> ('sk, 'pk, 'sig, 'y) bls_api_scheme \<Rightarrow> 'sk \<Rightarrow> 'c interest \<Rightarrow>
   'c name \<Rightarrow> 'c interest res" where
  "ndnBLSSign_interest api bls signingKey i keyLocatorName =
     ndnBLSSign_interest_info api bls signingKey i (bls_sig_info keyLocatorName)"

text \<open>The certificate name ends in a random 64-bit number, an argument here.\<close>

definition genSelfSignedCertificate ::
  "('c, 'z) packet_api_scheme \<Rightarrow> ('sk, 'pk, 'sig, 'y) bls_api_scheme \<Rightarrow> nat \<Rightarrow> 'c name \<Rightarrow> 'pk \<Rightarrow> 'sk \<Rightarrow>
   nat \<times> nat \<Rightarrow> 'c data res" where
  "genSelfSignedCertificate api bls random keyName pubKey signingKey period =
     (let certName = keyName @ [comp_of_string api ''self'', comp_of_string api (digits_of random)];
          newCert = (new_data certName)
            \<lparr>d_contentType := ContentType_Key,
             d_content := Blk TLV_Content (blsPublicKeySerialize bls encodingBuf_size pubKey)\<rparr>;
          signatureInfo = (bls_sig_info keyName)\<lparr>si_validity := Some period\<rparr>
      in ndnBLSSign_data_info api bls signingKey newCert signatureInfo)"

definition ndnBLSVerify_data ::
  "('c, 'z) packet_api_scheme \<Rightarrow> ('sk, 'pk, 'sig, 'y) bls_api_scheme \<Rightarrow> 'pk \<Rightarrow> 'c data \<Rightarrow> bool res" where
  "ndnBLSVerify_data api bls pubKey d =
     (let sig = blsSignatureDeserialize bls (sig_uninit bls) (d_sigValue d) in
      res_bind (data_ranges api d) (\<lambda>discontiguousBuf.
        Inr (blsVerify bls sig pubKey (foldl (\<lambda>buf piece. buf @ piece) [] discontiguousBuf) = 1)))"

definition ndnBLSAggregatePublicKey ::
  "('sk, 'pk, 'sig, 'y) bls_api_scheme \<Rightarrow> 'pk list \<Rightarrow> 'pk res" where
  "ndnBLSAggregatePublicKey bls pubKeys = (case pubKeys of
     [] \<Rightarrow> Inl (Undefined ''pubKeys[0] of an empty vector'')
   | k # ks \<Rightarrow> Inr (foldl (blsPublicKeyAdd bls) k ks))"

definition ndnBLSVerify_data_keys ::
  "('c, 'z) packet_api_scheme \<Rightarrow> ('sk, 'pk, 'sig, 'y) bls_api_scheme \<Rightarrow> 'pk list \<Rightarrow> 'c data \<Rightarrow> bool res" where
  "ndnBLSVerify_data_keys api bls pubKeys d = (case pubKeys of
     [] \<Rightarrow> Inl (Undefined ''pubKeys[0] of an empty vector'')
   | k # ks \<Rightarrow> ndnBLSVerify_data api bls (foldl (blsPublicKeyAdd bls) k ks) d)"

definition ndnBLSVerify_interest ::
  "('c, 'z) packet_api_scheme \<Rightarrow> ('sk, 'pk, 'sig, 'y) bls_api_scheme \<Rightarrow> 'pk \<Rightarrow> 'c interest \<Rightarrow> bool res" where
  "ndnBLSVerify_interest api bls pubKey i =
     (if i_sigInfo i = None then Inr False
      else (let sig = blsSignatureDeserialize bls (sig_uninit bls) (i_sigValue i) in
        res_bind (interest_ranges api i) (\<lambda>discontiguousBuf.
          Inr (blsVerify bls sig pubKey (foldl (\<lambda>buf piece. buf @ piece) [] discontiguousBuf) = 1))))"

definition ndnBLSVerify_interest_keys ::
  "('c, 'z) packet_api_scheme \<Rightarrow> ('sk, 'pk, 'sig, 'y) bls_api_scheme \<Rightarrow> 'pk list \<Rightarrow> 'c interest \<Rightarrow> bool res" where
  "ndnBLSVerify_interest_keys api bls pubKeys i =
     res_bind (ndnBLSAggregatePublicKey bls pubKeys) (\<lambda>aggKey. ndnBLSVerify_interest api bls aggKey i)"

text \<open>
  Aggregating serialised signatures: \<^verbatim>\<open>tempSig\<close> is declared outside the loop, so every
  deserialisation starts from the previous element's value.
\<close>

definition ndnBLSAggregateSignature_bufs ::
  "('sk, 'pk, 'sig, 'y) bls_api_scheme \<Rightarrow> bytes list \<Rightarrow> bytes res" where
  "ndnBLSAggregateSignature_bufs bls signatures = (case signatures of
     [] \<Rightarrow> Inl (Undefined ''signatures[0] of an empty vector'')
   | s # ss \<Rightarrow>
       (let aggSig = blsSignatureDeserialize bls (sig_uninit bls) s;
            (aggSig, tempSig) = foldl (\<lambda>(agg, temp) buf.
                let temp = blsSignatureDeserialize bls temp buf in (blsSignatureAdd bls agg temp, temp))
              (aggSig, sig_uninit bls) ss
        in Inr (blsSignatureSerialize bls encodingBuf_size aggSig)))"

definition ndnBLSAggregateSignature ::
  "('sk, 'pk, 'sig, 'y) bls_api_scheme \<Rightarrow> 'sig list \<Rightarrow> 'sig res" where
  "ndnBLSAggregateSignature bls signatures = (case signatures of
     [] \<Rightarrow> Inl (Undefined ''signatures[0] of an empty vector'')
   | s # ss \<Rightarrow> Inr (foldl (blsSignatureAdd bls) s ss))"

section \<open>Correctness\<close>

lemma foldl_append_concat: "foldl (\<lambda>buf piece. buf @ piece) acc rs = acc @ concat rs"
  by (induction rs arbitrary: acc) auto

lemma foldl_pk_sks:
  assumes "bls_laws bls skAdd"
  shows "foldl (blsPublicKeyAdd bls) (blsGetPublicKey bls k) (map (blsGetPublicKey bls) ks) =
    blsGetPublicKey bls (foldl skAdd k ks)"
  by (induction ks arbitrary: k) (simp_all add: pk_skAdd [OF assms])

lemma foldl_sig_sks:
  assumes "bls_laws bls skAdd"
  shows "foldl (blsSignatureAdd bls) (blsSign bls k m) (map (\<lambda>k. blsSign bls k m) ks) =
    blsSign bls (foldl skAdd k ks) m"
  by (induction ks arbitrary: k) (simp_all add: sign_skAdd [OF assms])

lemma aggregate_bufs_fold:
  assumes "bls_laws bls skAdd"
  shows "fst (foldl (\<lambda>(agg, temp) buf.
      let temp = blsSignatureDeserialize bls temp buf in (blsSignatureAdd bls agg temp, temp))
    (a, t) (map (blsSignatureSerialize bls encodingBuf_size) ss)) = foldl (blsSignatureAdd bls) a ss"
  by (induction ss arbitrary: a t) (simp_all add: deserialize_serialize [OF assms] Let_def)

text \<open>
  The two aggregation functions agree. Aggregating the serialised signatures gives the
  serialisation of the aggregate of the signatures, whatever garbage the uninitialised
  structures held.
\<close>

theorem aggregate_bufs_eq:
  assumes "bls_laws bls skAdd"
  shows "ndnBLSAggregateSignature_bufs bls (map (blsSignatureSerialize bls encodingBuf_size) ss) =
    res_bind (ndnBLSAggregateSignature bls ss) (\<lambda>s. Inr (blsSignatureSerialize bls encodingBuf_size s))"
proof (cases ss)
  case Nil
  then show ?thesis by (simp add: ndnBLSAggregateSignature_bufs_def ndnBLSAggregateSignature_def)
next
  case (Cons s rest)
  then show ?thesis
    using aggregate_bufs_fold [OF assms, of s "sig_uninit bls" rest]
    by (simp add: ndnBLSAggregateSignature_bufs_def ndnBLSAggregateSignature_def
        deserialize_serialize [OF assms] split_beta)
qed

lemma aggregate_bufs_sks:
  assumes "bls_laws bls skAdd"
  shows "ndnBLSAggregateSignature_bufs bls
      (map (\<lambda>k. blsSignatureSerialize bls encodingBuf_size (blsSign bls k m)) (k # ks)) =
    Inr (blsSignatureSerialize bls encodingBuf_size (blsSign bls (foldl skAdd k ks) m))"
  using aggregate_bufs_fold [OF assms, of "blsSign bls k m" "sig_uninit bls" "map (\<lambda>k. blsSign bls k m) ks"]
  by (simp add: ndnBLSAggregateSignature_bufs_def deserialize_serialize [OF assms] split_beta
      foldl_sig_sks [OF assms] o_def)

lemma verify_data_signed:
  assumes "bls_laws bls skAdd" and "packet_laws api" and "d_sigInfo d \<noteq> None"
    and "data_unsigned api d = Inr m"
  shows "ndnBLSVerify_data api bls (blsGetPublicKey bls k)
    (d\<lparr>d_sigValue := blsSignatureSerialize bls encodingBuf_size (blsSign bls k m)\<rparr>) = Inr True"
proof -
  let ?d = "d\<lparr>d_sigValue := blsSignatureSerialize bls encodingBuf_size (blsSign bls k m)\<rparr>"
  have "d_sigInfo ?d \<noteq> None" using assms(3) by simp
  then obtain rs where rs: "data_ranges api ?d = Inr rs" "data_unsigned api ?d = Inr (concat rs)"
    using data_ranges_unsigned [OF assms(2)] by blast
  then have "concat rs = m"
    using assms(4) by (simp add: data_unsigned_sigValue [OF assms(2)])
  with rs(1) show ?thesis
    by (simp add: ndnBLSVerify_data_def foldl_append_concat deserialize_serialize [OF assms(1)]
        verify_sign [OF assms(1)])
qed

lemma sign_data_ok:
  assumes "bls_laws bls skAdd" and "packet_laws api"
  shows "\<exists>v. ndnBLSSign_data api bls k d n = Inr (d\<lparr>d_sigInfo := Some (bls_sig_info n), d_sigValue := v\<rparr>) \<and>
    ndnBLSVerify_data api bls (blsGetPublicKey bls k)
      (d\<lparr>d_sigInfo := Some (bls_sig_info n), d_sigValue := v\<rparr>) = Inr True"
proof -
  let ?d = "d\<lparr>d_sigInfo := Some (bls_sig_info n)\<rparr>"
  obtain m where m: "data_unsigned api ?d = Inr m"
    using data_ranges_unsigned [OF assms(2), of ?d] by auto
  let ?v = "blsSignatureSerialize bls encodingBuf_size (blsSign bls k m)"
  have "ndnBLSVerify_data api bls (blsGetPublicKey bls k) (?d\<lparr>d_sigValue := ?v\<rparr>) = Inr True"
    by (rule verify_data_signed [OF assms _ m]) simp
  moreover have "si_type (bls_sig_info n) = SignatureSha256WithBls" by (simp add: bls_sig_info_def)
  ultimately show ?thesis
    using m
    by (intro exI [of _ ?v]) (simp add: ndnBLSSign_data_def ndnBLSSign_data_info_def ndnGenBLSSignature_data_def)
qed

text \<open>
  What is signed verifies. A self-signed certificate and an ordinary packet alike: signing
  succeeds, touches only the signature fields, names the key, and the result verifies under the
  signer's public key.
\<close>

theorem ndnBLSSign_data_verifies:
  assumes "bls_laws bls skAdd" and "packet_laws api"
  shows "(\<exists>d'. ndnBLSSign_data api bls k d n = Inr d' \<and>
      d_name d' = d_name d \<and> d_content d' = d_content d \<and> key_locator_name (d_sigInfo d') = Inr n \<and>
      ndnBLSVerify_data api bls (blsGetPublicKey bls k) d' = Inr True) \<and>
    (\<exists>cert. genSelfSignedCertificate api bls random n (blsGetPublicKey bls k) k period = Inr cert \<and>
      is_prefix_of n (d_name cert) \<and> d_contentType cert = ContentType_Key \<and>
      blk_value (d_content cert) = blsPublicKeySerialize bls encodingBuf_size (blsGetPublicKey bls k) \<and>
      ndnBLSVerify_data api bls (blsGetPublicKey bls k) cert = Inr True)"
proof
  obtain v where "ndnBLSSign_data api bls k d n = Inr (d\<lparr>d_sigInfo := Some (bls_sig_info n), d_sigValue := v\<rparr>)"
    "ndnBLSVerify_data api bls (blsGetPublicKey bls k)
      (d\<lparr>d_sigInfo := Some (bls_sig_info n), d_sigValue := v\<rparr>) = Inr True"
    using sign_data_ok [OF assms] by blast
  then show "\<exists>d'. ndnBLSSign_data api bls k d n = Inr d' \<and>
      d_name d' = d_name d \<and> d_content d' = d_content d \<and> key_locator_name (d_sigInfo d') = Inr n \<and>
      ndnBLSVerify_data api bls (blsGetPublicKey bls k) d' = Inr True"
    by (intro exI conjI) (assumption | simp add: key_locator_name_def bls_sig_info_def)+
next
  let ?c = "(new_data (n @ [comp_of_string api ''self'', comp_of_string api (digits_of random)]))
    \<lparr>d_contentType := ContentType_Key,
     d_content := Blk TLV_Content (blsPublicKeySerialize bls encodingBuf_size (blsGetPublicKey bls k)),
     d_sigInfo := Some ((bls_sig_info n)\<lparr>si_validity := Some period\<rparr>)\<rparr>"
  obtain m where m: "data_unsigned api ?c = Inr m"
    using data_ranges_unsigned [OF assms(2), of ?c] by auto
  let ?v = "blsSignatureSerialize bls encodingBuf_size (blsSign bls k m)"
  have "ndnBLSVerify_data api bls (blsGetPublicKey bls k) (?c\<lparr>d_sigValue := ?v\<rparr>) = Inr True"
    by (rule verify_data_signed [OF assms _ m]) simp
  moreover have "genSelfSignedCertificate api bls random n (blsGetPublicKey bls k) k period = Inr (?c\<lparr>d_sigValue := ?v\<rparr>)"
    using m by (simp add: genSelfSignedCertificate_def Let_def ndnBLSSign_data_info_def bls_sig_info_def
        ndnGenBLSSignature_data_def)
  ultimately show "\<exists>cert. genSelfSignedCertificate api bls random n (blsGetPublicKey bls k) k period = Inr cert \<and>
      is_prefix_of n (d_name cert) \<and> d_contentType cert = ContentType_Key \<and>
      blk_value (d_content cert) = blsPublicKeySerialize bls encodingBuf_size (blsGetPublicKey bls k) \<and>
      ndnBLSVerify_data api bls (blsGetPublicKey bls k) cert = Inr True"
    by (intro exI conjI) (assumption | simp add: new_data_def)+
qed

text \<open>
  The same for Interests. Signing and sealing an Interest succeeds and the sealed Interest
  verifies under the signer's public key.
\<close>

theorem ndnBLSSign_interest_verifies:
  assumes "bls_laws bls skAdd" and "packet_laws api" and "si_type info = SignatureSha256WithBls"
  shows "\<exists>i'. ndnBLSSign_interest_info api bls k i info = Inr i' \<and>
    ndnBLSVerify_interest api bls (blsGetPublicKey bls k) i' = Inr True"
proof -
  let ?i = "i\<lparr>i_sigInfo := Some info\<rparr>"
  obtain rs where rs: "interest_ranges api ?i = Inr rs"
    using interest_ranges_sealed [OF assms(2), of ?i] by auto
  let ?v = "blsSignatureSerialize bls encodingBuf_size (blsSign bls k (concat rs))"
  let ?s = "interest_sealed api (?i\<lparr>i_sigValue := ?v\<rparr>)"
  obtain rs' where "interest_ranges api ?s = Inr rs'" "concat rs' = concat rs"
    using interest_ranges_sealed [OF assms(2), of ?i ?v] rs by auto
  then have "ndnBLSVerify_interest api bls (blsGetPublicKey bls k) ?s = Inr True"
    by (simp add: ndnBLSVerify_interest_def sealed_sigInfo [OF assms(2)] sealed_sigValue [OF assms(2)]
        foldl_append_concat deserialize_serialize [OF assms(1)] verify_sign [OF assms(1)])
  with rs assms(3) show ?thesis
    by (simp add: ndnBLSSign_interest_info_def ndnGenBLSSignature_interest_def foldl_append_concat)
qed

text \<open>
  C16: multi-party signatures verify. When each of the signers \<open>ks\<close> (at least one) signs the
  same packet with the same BLS signature info, every piece is produced, the aggregation of the
  pieces succeeds, and the packet carrying the aggregate verifies under the list of their
  public keys.
\<close>

theorem multi_signature_verifies:
  assumes "bls_laws bls skAdd" and "packet_laws api" and "si_type info = SignatureSha256WithBls"
    and "ks \<noteq> []"
  shows "\<exists>pieces agg.
    list_all2 (\<lambda>k piece. ndnGenBLSSignature_data_info api bls k d info = Inr piece) ks pieces \<and>
    ndnBLSAggregateSignature_bufs bls pieces = Inr agg \<and>
    ndnBLSVerify_data_keys api bls (map (blsGetPublicKey bls) ks)
      (d\<lparr>d_sigInfo := Some info, d_sigValue := agg\<rparr>) = Inr True"
proof -
  let ?d = "d\<lparr>d_sigInfo := Some info\<rparr>"
  obtain m where m: "data_unsigned api ?d = Inr m"
    using data_ranges_unsigned [OF assms(2), of ?d] by auto
  obtain k rest where ks: "ks = k # rest" using assms(4) by (cases ks) auto
  let ?piece = "\<lambda>k. blsSignatureSerialize bls encodingBuf_size (blsSign bls k m)"
  let ?agg = "?piece (foldl skAdd k rest)"
  have "list_all2 (\<lambda>k piece. ndnGenBLSSignature_data_info api bls k d info = Inr piece) ks (map ?piece ks)"
    using assms(3) m
    by (simp add: list_all2_map2 list_all2_same ndnGenBLSSignature_data_info_def ndnGenBLSSignature_data_def)
  moreover have "ndnBLSAggregateSignature_bufs bls (map ?piece ks) = Inr ?agg"
    unfolding ks by (rule aggregate_bufs_sks [OF assms(1)])
  moreover have "ndnBLSVerify_data_keys api bls (map (blsGetPublicKey bls) ks)
      (?d\<lparr>d_sigValue := ?agg\<rparr>) = Inr True"
    using verify_data_signed [OF assms(1,2) _ m, of "foldl skAdd k rest"]
    by (simp add: ks ndnBLSVerify_data_keys_def foldl_pk_sks [OF assms(1)])
  ultimately show ?thesis by auto
qed

end
