(* ===== verification/Schema_Container.thy ===== *)
theory Schema_Container
  imports Name_Set Schema Bls_Helpers
begin

text \<open>
  \<^verbatim>\<open>MultipartySchemaContainer\<close> of \<^verbatim>\<open>schema.hpp\<close> and \<^verbatim>\<open>schema.cpp\<close>: the
  trusted keys, the schemas and the set of unavailable signers; the decision
  \<^verbatim>\<open>passSchema\<close>, the selection of signers \<^verbatim>\<open>getAvailableSigners\<close>, the
  replacement of a signer that does not answer (\<^verbatim>\<open>replaceSigner\<close> with
  \<^verbatim>\<open>findANewKeyForPattern\<close> and \<^verbatim>\<open>getMatchedKeys\<close>) and the aggregation
  of public keys. \<^verbatim>\<open>m_trustedIds\<close> is a \<^verbatim>\<open>std::map\<close>, modelled by its entries in
  iteration order; \<^verbatim>\<open>m_unavailableSigners\<close> is \<^verbatim>\<open>mutable\<close> state, returned updated.

  The locale \<open>key_source\<close> is the contract between the selection code and
  \<^verbatim>\<open>getMatchedKeys\<close>: an ascending list of exactly the usable keys that match.
\<close>

section \<open>State and elementary operations\<close>

record ('c, 'pk) container =
  m_schemas :: "'c schema list"
  m_trustedIds :: "('c name \<times> 'pk) list"
  m_unavailableSigners :: "'c name list"

definition container_init :: "('c, 'pk) container" where
  "container_init = \<lparr>m_schemas = [], m_trustedIds = [], m_unavailableSigners = []\<rparr>"

definition trusted_key :: "('c, 'pk) container \<Rightarrow> 'c name \<Rightarrow> 'pk option" where
  "trusted_key c item = map_of (m_trustedIds c) item"

definition container_passSchema ::
  "('c, 'z) name_api_scheme \<Rightarrow> ('c, 'pk) container \<Rightarrow> 'c name \<Rightarrow> 'c name list \<Rightarrow> bool" where
  "container_passSchema api c packetName signers =
     (if list_ex (\<lambda>item. trusted_key c item = None) signers then False
      else (case find (\<lambda>schema. schema_match api schema packetName) (m_schemas c) of
              Some schema \<Rightarrow> passSchema api schema signers
            | None \<Rightarrow> False))"

definition resetCachedUnavailableSigners :: "('c, 'pk) container \<Rightarrow> ('c, 'pk) container" where
  "resetCachedUnavailableSigners c = c\<lparr>m_unavailableSigners := []\<rparr>"

definition getMatchedKeys ::
  "('c::linorder, 'z) name_api_scheme \<Rightarrow> ('c, 'pk) container \<Rightarrow> 'c wildcard \<Rightarrow> 'c name list" where
  "getMatchedKeys api c pattern =
     fold (\<lambda>item resultSet.
         if wc_match api pattern (fst item) \<and> sset_count (m_unavailableSigners c) (fst item) = 0
         then sset_insert (fst item) resultSet else resultSet)
       (m_trustedIds c) []"

fun aggregate_loop ::
  "('pk \<Rightarrow> 'pk \<Rightarrow> 'pk) \<Rightarrow> ('c, 'pk) container \<Rightarrow> 'c name list \<Rightarrow> 'pk \<times> bool \<Rightarrow> 'pk res" where
  "aggregate_loop add c [] (aggKey, init) = Inr aggKey"
| "aggregate_loop add c (item # rest) (aggKey, init) = (case trusted_key c item of
     Some pk \<Rightarrow> (if \<not> init then aggregate_loop add c rest (pk, True)
                 else aggregate_loop add c rest (add aggKey pk, init))
   | None \<Rightarrow> Inl (Throws ''Schema container does not have sufficient keys. Missing key''))"

definition aggregateKey ::
  "('sk, 'pk, 'sig, 'y) bls_api_scheme \<Rightarrow> ('c, 'pk) container \<Rightarrow> 'c name list \<Rightarrow> 'pk res" where
  "aggregateKey bls c signers = aggregate_loop (blsPublicKeyAdd bls) c signers (pk_uninit bls, False)"

section \<open>Selecting signers\<close>

fun collect_required ::
  "('c::linorder, 'z) name_api_scheme \<Rightarrow> ('c, 'pk) container \<Rightarrow> 'c wildcard list \<Rightarrow> 'c name list \<Rightarrow>
   'c name list res" where
  "collect_required api c [] resultSet = Inr resultSet"
| "collect_required api c (pattern # ps) resultSet =
     (let matchedKeys = getMatchedKeys api c pattern in
      if length matchedKeys < m_times pattern
      then Inl (Throws (''Schema container does not have sufficient keys. Missing key(s) for '' @
             name_uri api (m_name pattern)))
      else collect_required api c ps
             (fold (\<lambda>i rs. sset_insert (matchedKeys ! i) rs) [0..<m_times pattern] resultSet))"

text \<open>The inner loop over \<open>i < min(matchedKeys.size(), times)\<close>, left as soon as the count is reached.\<close>

fun take_optional :: "nat \<Rightarrow> 'n::linorder list \<Rightarrow> 'n list \<times> nat \<Rightarrow> 'n list \<times> nat" where
  "take_optional minOpt [] (resultSet, cnt) = (resultSet, cnt)"
| "take_optional minOpt (k # ks) (resultSet, cnt) =
     (let resultSet = sset_insert k resultSet; cnt = cnt + 1 in
      if cnt \<ge> minOpt then (resultSet, cnt) else take_optional minOpt ks (resultSet, cnt))"

fun collect_optional ::
  "('c::linorder, 'z) name_api_scheme \<Rightarrow> ('c, 'pk) container \<Rightarrow> nat \<Rightarrow> 'c wildcard list \<Rightarrow>
   'c name list \<times> nat \<Rightarrow> 'c name list \<times> nat" where
  "collect_optional api c minOpt [] (resultSet, cnt) = (resultSet, cnt)"
| "collect_optional api c minOpt (pattern # ps) (resultSet, cnt) =
     (let matchedKeys = getMatchedKeys api c pattern;
          (resultSet, cnt) = take_optional minOpt
             (take (min (length matchedKeys) (m_times pattern)) matchedKeys) (resultSet, cnt)
      in if cnt \<ge> minOpt then (resultSet, cnt)
         else collect_optional api c minOpt ps (resultSet, cnt))"

definition getAvailableSigners ::
  "('c::linorder, 'z) name_api_scheme \<Rightarrow> ('c, 'pk) container \<Rightarrow> 'c schema \<Rightarrow> 'c name list res" where
  "getAvailableSigners api c schema =
     res_bind (collect_required api c (m_signers schema) []) (\<lambda>resultSet.
       (let (resultSet, cnt) =
              collect_optional api c (m_minOptionalSigners schema) (m_optionalSigners schema) (resultSet, 0)
        in if cnt < m_minOptionalSigners schema
           then Inl (Throws ''Schema container does not have sufficient keys. Missing optional keys'')
           else Inr resultSet))"

section \<open>Replacing a signer\<close>

definition findANewKeyForPattern ::
  "('c::linorder, 'z) name_api_scheme \<Rightarrow> ('c, 'pk) container \<Rightarrow> 'c name list \<Rightarrow> 'c wildcard \<Rightarrow>
   bool \<times> 'c name" where
  "findANewKeyForPattern api c existingSigners pattern =
     (if count_matching api pattern existingSigners \<ge> m_times pattern then (True, [])
      else (case find (\<lambda>matchedKey. sset_count existingSigners matchedKey = 0) (getMatchedKeys api c pattern) of
              Some matchedKey \<Rightarrow> (True, matchedKey)
            | None \<Rightarrow> (False, [])))"

text \<open>\<open>None\<close> is the early return of the empty list.\<close>

fun replace_required ::
  "('c::linorder, 'z) name_api_scheme \<Rightarrow> ('c, 'pk) container \<Rightarrow> 'c name \<Rightarrow> 'c wildcard list \<Rightarrow>
   'c name list \<times> 'c name list \<Rightarrow> ('c name list \<times> 'c name list) option" where
  "replace_required api c unavailableKey [] (newResultSet, diffSet) = Some (newResultSet, diffSet)"
| "replace_required api c unavailableKey (pattern # ps) (newResultSet, diffSet) =
     (if wc_match api pattern unavailableKey
      then (case findANewKeyForPattern api c newResultSet pattern of (findReplacement, replacementName) \<Rightarrow>
        (if findReplacement
         then (if replacementName \<noteq> []
               then replace_required api c unavailableKey ps
                      (sset_insert replacementName newResultSet, sset_insert replacementName diffSet)
               else replace_required api c unavailableKey ps (newResultSet, diffSet))
         else None))
      else replace_required api c unavailableKey ps (newResultSet, diffSet))"

fun replace_optional ::
  "('c::linorder, 'z) name_api_scheme \<Rightarrow> ('c, 'pk) container \<Rightarrow> 'c wildcard list \<Rightarrow>
   'c name list \<times> 'c name list \<Rightarrow> 'c name list \<times> 'c name list" where
  "replace_optional api c [] (newResultSet, diffSet) = (newResultSet, diffSet)"
| "replace_optional api c (pattern # ps) (newResultSet, diffSet) =
     (case findANewKeyForPattern api c newResultSet pattern of (findReplacement, replacementName) \<Rightarrow>
       (if findReplacement \<and> replacementName = []
        then replace_optional api c ps (newResultSet, diffSet)
        else if findReplacement \<and> replacementName \<noteq> []
        then (sset_insert replacementName newResultSet, sset_insert replacementName diffSet)
        else replace_optional api c ps (newResultSet, diffSet)))"

definition replaceSigner ::
  "('c::linorder, 'z) name_api_scheme \<Rightarrow> ('c, 'pk) container \<Rightarrow> 'c name list \<Rightarrow> 'c name \<Rightarrow> 'c schema \<Rightarrow>
   ('c, 'pk) container \<times> 'c name list \<times> 'c name list" where
  "replaceSigner api c signers unavailableKey schema =
     (let c = c\<lparr>m_unavailableSigners := sset_insert unavailableKey (m_unavailableSigners c)\<rparr>;
          newResultSet = sset_erase unavailableKey (sset_of_list signers)
      in case replace_required api c unavailableKey (m_signers schema) (newResultSet, []) of
           None \<Rightarrow> (c, [], [])
         | Some st \<Rightarrow> (c, replace_optional api c (m_optionalSigners schema) st))"

section \<open>The contract of the key source\<close>

definition usable :: "('c, 'pk) container \<Rightarrow> 'c name \<Rightarrow> bool" where
  "usable c n \<longleftrightarrow> trusted_key c n \<noteq> None \<and> n \<notin> set (m_unavailableSigners c)"

locale key_source =
  fixes keys :: "'p \<Rightarrow> 'n::linorder list"
    and matches :: "'p \<Rightarrow> 'n \<Rightarrow> bool"
    and usable_key :: "'n \<Rightarrow> bool"
  assumes keys_ok: "sset_ok (keys p)"
    and set_keys: "set (keys p) = {n. usable_key n \<and> matches p n}"
begin

lemma distinct_keys: "distinct (keys p)"
  using keys_ok [of p] by (simp add: sset_ok_def)

lemma count_le_keys:
  assumes "distinct ys" and "\<forall>y \<in> set ys. usable_key y"
  shows "count_if (matches p) ys \<le> length (keys p)"
proof -
  have "count_if (matches p) ys = card {y \<in> set ys. matches p y}"
    using assms(1) by (rule count_if_distinct)
  also have "\<dots> \<le> card (set (keys p))"
  proof (rule card_mono)
    show "{y \<in> set ys. matches p y} \<subseteq> set (keys p)" using assms(2) by (auto simp: set_keys)
  qed simp
  also have "\<dots> \<le> length (keys p)" by (rule card_length)
  finally show ?thesis .
qed

lemma taken_count:
  assumes "distinct rs" and "set (take k (keys p)) \<subseteq> set rs" and "k \<le> length (keys p)"
  shows "k \<le> count_if (matches p) rs"
proof -
  have "distinct (take k (keys p))" using distinct_keys by (rule distinct_take)
  then have "count_if (matches p) (take k (keys p)) \<le> count_if (matches p) rs"
    using assms(2) by (rule count_if_mono)
  moreover have "count_if (matches p) (take k (keys p)) = length (take k (keys p))"
  proof (rule count_if_all)
    fix x assume "x \<in> set (take k (keys p))"
    then have "x \<in> set (keys p)" by (rule in_set_takeD)
    then show "matches p x" by (simp add: set_keys)
  qed
  ultimately show ?thesis using assms(3) by simp
qed

lemma find_new_Some:
  assumes "find (\<lambda>k. k \<notin> set existing) (keys p) = Some k"
  shows "usable_key k \<and> matches p k \<and> k \<notin> set existing"
proof -
  from assms have "k \<in> set (keys p)" "k \<notin> set existing"
    by (auto simp: find_Some_iff)
  then show ?thesis by (simp add: set_keys)
qed

lemma find_new_None:
  "find (\<lambda>k. k \<notin> set existing) (keys p) = None \<longleftrightarrow> (\<forall>n. usable_key n \<and> matches p n \<longrightarrow> n \<in> set existing)"
  by (simp add: find_None_iff set_keys) blast

end

lemma getMatchedKeys_fold:
  "sset_ok rs \<Longrightarrow>
   sset_ok (fold (\<lambda>item rs. if P item then sset_insert (fst item) rs else rs) xs rs) \<and>
   set (fold (\<lambda>item rs. if P item then sset_insert (fst item) rs else rs) xs rs) =
     set rs \<union> fst ` {x \<in> set xs. P x}"
proof (induction xs arbitrary: rs)
  case Nil
  then show ?case by simp
next
  case (Cons x xs)
  then show ?case
    by (cases "P x") (auto simp: nset.invar_ins nset.elems_ins)
qed

lemma trusted_key_None: "trusted_key c n = None \<longleftrightarrow> n \<notin> fst ` set (m_trustedIds c)"
  by (simp add: trusted_key_def map_of_eq_None_iff)

interpretation matched: key_source "getMatchedKeys api c" "wc_match api" "usable c"
  for api :: "('c::linorder, 'z) name_api_scheme" and c :: "('c, 'pk) container"
proof unfold_locales
  fix p :: "'c wildcard"
  let ?P = "\<lambda>item. wc_match api p (fst item) \<and> sset_count (m_unavailableSigners c) (fst item) = 0"
  have "sset_ok ([] :: 'c name list)" by (rule nset.invar_emp)
  note f = getMatchedKeys_fold [OF this, of ?P "m_trustedIds c"]
  show "sset_ok (getMatchedKeys api c p)"
    using f by (simp add: getMatchedKeys_def)
  show "set (getMatchedKeys api c p) = {n. usable c n \<and> wc_match api p n}"
    using f by (auto simp: getMatchedKeys_def usable_def trusted_key_None nset.cnt_0_iff)
qed

section \<open>Correctness of the selection\<close>

lemma map_nth_upt: "n \<le> length xs \<Longrightarrow> map ((!) xs) [0..<n] = take n xs"
  by (rule nth_equalityI) auto

lemma fold_index: "n \<le> length xs \<Longrightarrow> fold (\<lambda>i. f (xs ! i)) [0..<n] rs = fold f (take n xs) rs"
  by (simp add: map_nth_upt [symmetric] fold_map o_def)

definition from_patterns ::
  "('c::linorder, 'z) name_api_scheme \<Rightarrow> ('c, 'pk) container \<Rightarrow> 'c wildcard list \<Rightarrow> 'c name set" where
  "from_patterns api c ps = {n. usable c n \<and> (\<exists>p \<in> set ps. wc_match api p n)}"

lemma from_patterns_simps [simp]:
  "from_patterns api c [] = {}"
  "from_patterns api c (p # ps) = set (getMatchedKeys api c p) \<union> from_patterns api c ps"
  by (auto simp: from_patterns_def matched.set_keys)

lemma collect_required_Inr:
  assumes "collect_required api c ps rs0 = Inr rs" and "sset_ok rs0"
  shows "sset_ok rs \<and> set rs0 \<subseteq> set rs \<and> set rs \<subseteq> set rs0 \<union> from_patterns api c ps \<and>
    (\<forall>p \<in> set ps. m_times p \<le> length (getMatchedKeys api c p) \<and>
      set (take (m_times p) (getMatchedKeys api c p)) \<subseteq> set rs)"
  using assms
proof (induction ps arbitrary: rs0)
  case Nil
  then show ?case by simp
next
  case (Cons p ps)
  let ?mk = "getMatchedKeys api c p"
  let ?rs1 = "fold sset_insert (take (m_times p) ?mk) rs0"
  have len: "m_times p \<le> length ?mk" and rest: "collect_required api c ps ?rs1 = Inr rs"
    using Cons.prems(1) by (auto simp: Let_def fold_index split: if_splits)
  have ok: "sset_ok ?rs1" and set1: "set ?rs1 = set (take (m_times p) ?mk) \<union> set rs0"
    using Cons.prems(2) by (simp_all add: nset.invar_fold_ins nset.elems_fold_ins)
  show ?case
    using Cons.IH [OF rest ok] set1 len set_take_subset [of "m_times p" ?mk] by auto
qed

lemma collect_required_Inl:
  assumes "collect_required api c ps rs0 = Inl e"
  shows "\<exists>p \<in> set ps. length (getMatchedKeys api c p) < m_times p"
  using assms by (induction ps arbitrary: rs0) (auto simp: Let_def split: if_splits)

lemma take_optional_result:
  "\<exists>j \<le> length ks. take_optional mn ks (rs, n) = (fold sset_insert (take j ks) rs, n + j) \<and>
     (mn \<le> n + j \<or> j = length ks)"
proof (induction ks arbitrary: rs n)
  case Nil
  then show ?case by simp
next
  case (Cons k ks)
  show ?case
  proof (cases "mn \<le> n + 1")
    case True
    then show ?thesis by (intro exI [of _ 1]) simp
  next
    case False
    obtain j where "j \<le> length ks"
      "take_optional mn ks (sset_insert k rs, n + 1) = (fold sset_insert (take j ks) (sset_insert k rs), n + 1 + j)"
      "mn \<le> n + 1 + j \<or> j = length ks"
      using Cons.IH by blast
    with False show ?thesis by (intro exI [of _ "Suc j"]) auto
  qed
qed

lemma collect_optional_result:
  assumes "collect_optional api c mn ps (rs0, n) = (rs, n')" and "sset_ok rs0"
  shows "sset_ok rs \<and> set rs0 \<subseteq> set rs \<and> set rs \<subseteq> set rs0 \<union> from_patterns api c ps \<and>
    n' \<le> n + optional_total api ps rs \<and>
    (mn \<le> n' \<or> n' = n + (\<Sum>p\<leftarrow>ps. min (length (getMatchedKeys api c p)) (m_times p)))"
  using assms
proof (induction ps arbitrary: rs0 n)
  case Nil
  then show ?case by simp
next
  case (Cons p ps)
  let ?mk = "getMatchedKeys api c p"
  let ?m = "min (length ?mk) (m_times p)"
  obtain j where j: "j \<le> length (take ?m ?mk)"
    "take_optional mn (take ?m ?mk) (rs0, n) = (fold sset_insert (take j (take ?m ?mk)) rs0, n + j)"
    "mn \<le> n + j \<or> j = length (take ?m ?mk)"
    using take_optional_result by blast
  define rs1 where "rs1 = fold sset_insert (take j ?mk) rs0"
  have jm: "j \<le> ?m" and tk: "take j (take ?m ?mk) = take j ?mk" using j(1) by (auto simp: min_def)
  have ok: "sset_ok rs1" and set1: "set rs1 = set (take j ?mk) \<union> set rs0"
    using Cons.prems(2) by (simp_all add: rs1_def nset.invar_fold_ins nset.elems_fold_ins)
  have taken: "take_optional mn (take ?m ?mk) (rs0, n) = (rs1, n + j)"
    using j(2) unfolding tk rs1_def .
  have step: "(if mn \<le> n + j then (rs1, n + j) else collect_optional api c mn ps (rs1, n + j)) = (rs, n')"
    using Cons.prems(1) by (simp add: Let_def taken)
  have dist: "distinct rs1" using ok by (simp add: sset_ok_def)
  have cnt1: "j \<le> min (count_if (wc_match api p) rs1) (m_times p)"
    using matched.taken_count [OF dist, of j api c p] jm set1 by simp
  have sub: "set (take j ?mk) \<subseteq> set ?mk" by (rule set_take_subset)
  show ?case
  proof (cases "mn \<le> n + j")
    case True
    with step have "rs = rs1" "n' = n + j" by simp_all
    then show ?thesis using True ok set1 cnt1 sub by (auto simp: le_add1)
  next
    case False
    with step have rec: "collect_optional api c mn ps (rs1, n + j) = (rs, n')" by simp
    note IH = Cons.IH [OF rec ok]
    have "count_if (wc_match api p) rs1 \<le> count_if (wc_match api p) rs"
      using dist IH by (intro count_if_mono) auto
    with cnt1 have "j \<le> min (count_if (wc_match api p) rs) (m_times p)" by simp
    moreover have "j = ?m" using False j(3) by simp
    ultimately show ?thesis using IH set1 sub by auto
  qed
qed

lemma getAvailableSigners_InrE:
  assumes "getAvailableSigners api c schema = Inr rs"
  obtains rs1 n' where "collect_required api c (m_signers schema) [] = Inr rs1"
    and "collect_optional api c (m_minOptionalSigners schema) (m_optionalSigners schema) (rs1, 0) = (rs, n')"
    and "m_minOptionalSigners schema \<le> n'"
proof -
  obtain rs1 where req: "collect_required api c (m_signers schema) [] = Inr rs1"
    using assms by (auto simp: getAvailableSigners_def res_bind_Inr_iff)
  obtain rs2 n' where opt: "collect_optional api c (m_minOptionalSigners schema)
      (m_optionalSigners schema) (rs1, 0) = (rs2, n')"
    by (metis surj_pair)
  have "rs2 = rs" "m_minOptionalSigners schema \<le> n'"
    using assms by (auto simp: getAvailableSigners_def req opt split: if_splits)
  with req opt show ?thesis by (intro that) auto
qed

lemma selection_sound:
  assumes "getAvailableSigners api c schema = Inr rs"
  shows "sset_ok rs" and "passSchema api schema rs"
    and "set rs \<subseteq> from_patterns api c (m_signers schema) \<union> from_patterns api c (m_optionalSigners schema)"
proof -
  obtain rs1 n' where req: "collect_required api c (m_signers schema) [] = Inr rs1"
    and opt: "collect_optional api c (m_minOptionalSigners schema) (m_optionalSigners schema) (rs1, 0) = (rs, n')"
    and enough: "m_minOptionalSigners schema \<le> n'"
    using assms by (rule getAvailableSigners_InrE)
  note R = collect_required_Inr [OF req nset.invar_emp]
  have "sset_ok rs1" using R by blast
  note O = collect_optional_result [OF opt this]
  show "sset_ok rs" using O by blast
  then have dist: "distinct rs" by (simp add: sset_ok_def)
  have "m_times p \<le> count_if (wc_match api p) rs" if "p \<in> set (m_signers schema)" for p
    using that R O by (intro matched.taken_count [OF dist, where c = c]) auto
  then show "passSchema api schema rs" using O enough by (auto simp: passSchema_iff required_met_def)
  show "set rs \<subseteq> from_patterns api c (m_signers schema) \<union> from_patterns api c (m_optionalSigners schema)"
    using R O by auto
qed

text \<open>
  C19: the selected signers satisfy the schema they were selected for, required patterns and
  optional minimum alike, and only keys the container trusts and does not hold for unavailable
  are selected, each matching a pattern of the schema, in ascending order, without repetitions.
\<close>

theorem getAvailableSigners_sound:
  assumes "getAvailableSigners api c schema = Inr rs"
  shows "passSchema api schema rs \<and> sorted rs \<and> distinct rs \<and>
    (\<forall>n \<in> set rs. trusted_key c n \<noteq> None \<and> n \<notin> set (m_unavailableSigners c) \<and>
      (\<exists>p \<in> set (m_signers schema) \<union> set (m_optionalSigners schema). wc_match api p n))"
  using selection_sound [OF assms] by (auto simp: from_patterns_def usable_def sset_ok_def)

text \<open>
  C20: the selection is complete. It fails only when no list of distinct, trusted and available
  keys whatsoever satisfies the schema; so it succeeds exactly when such a list exists.
\<close>

theorem getAvailableSigners_iff:
  "(\<exists>rs. getAvailableSigners api c schema = Inr rs) \<longleftrightarrow>
   (\<exists>ys. distinct ys \<and> (\<forall>y \<in> set ys. usable c y) \<and> passSchema api schema ys)"
proof
  assume "\<exists>rs. getAvailableSigners api c schema = Inr rs"
  then obtain rs where rs: "getAvailableSigners api c schema = Inr rs" by blast
  note S = selection_sound [OF this]
  have "distinct rs" "\<forall>y \<in> set rs. usable c y"
    using S(1,3) by (auto simp: sset_ok_def from_patterns_def)
  with S(2) show "\<exists>ys. distinct ys \<and> (\<forall>y \<in> set ys. usable c y) \<and> passSchema api schema ys" by blast
next
  assume "\<exists>ys. distinct ys \<and> (\<forall>y \<in> set ys. usable c y) \<and> passSchema api schema ys"
  then obtain ys where ys: "distinct ys" "\<forall>y \<in> set ys. usable c y" "passSchema api schema ys" by blast
  have le: "count_if (wc_match api p) ys \<le> length (getMatchedKeys api c p)" for p
    using ys(1,2) by (rule matched.count_le_keys)
  have "m_times p \<le> length (getMatchedKeys api c p)" if "p \<in> set (m_signers schema)" for p
    using ys(3) that le [of p] by (auto simp: passSchema_iff required_met_def intro: order_trans)
  then obtain rs1 where req: "collect_required api c (m_signers schema) [] = Inr rs1"
    by (metis collect_required_Inl linorder_not_le sum.exhaust)
  have ok: "sset_ok rs1" using collect_required_Inr [OF req nset.invar_emp] by blast
  obtain rs n' where opt: "collect_optional api c (m_minOptionalSigners schema) (m_optionalSigners schema) (rs1, 0) = (rs, n')"
    by (metis surj_pair)
  have "optional_total api (m_optionalSigners schema) ys \<le>
      (\<Sum>p\<leftarrow>m_optionalSigners schema. min (length (getMatchedKeys api c p)) (m_times p))"
    unfolding optional_total_def
  proof (rule sum_list_map_le)
    fix p show "min (count_if (wc_match api p) ys) (m_times p) \<le> min (length (getMatchedKeys api c p)) (m_times p)"
      using le [of p] by simp
  qed
  then have "m_minOptionalSigners schema \<le> n'"
    using ys(3) collect_optional_result [OF opt ok] by (auto simp: passSchema_iff)
  with req opt show "\<exists>rs. getAvailableSigners api c schema = Inr rs"
    by (simp add: getAvailableSigners_def)
qed

section \<open>Correctness of the replacement\<close>

definition mark_unavailable :: "'c::linorder name \<Rightarrow> ('c, 'pk) container \<Rightarrow> ('c, 'pk) container" where
  "mark_unavailable u c = c\<lparr>m_unavailableSigners := sset_insert u (m_unavailableSigners c)\<rparr>"

lemma set_sset_insert [simp]: "set (sset_insert x s) = insert x (set s)"
  by (auto simp: sset_insert_def set_insort_key)

lemma set_sset_erase [simp]: "set (sset_erase x s) = set s - {x}"
  by (auto simp: sset_erase_def)

lemma trusted_mark [simp]: "trusted_key (mark_unavailable u c) n = trusted_key c n"
  by (simp add: trusted_key_def mark_unavailable_def)

lemma usable_mark: "usable (mark_unavailable u c) n \<longleftrightarrow> usable c n \<and> n \<noteq> u"
  by (auto simp: usable_def mark_unavailable_def trusted_key_def)

text \<open>Every usable key that matches is already in the set: there is nothing left to add.\<close>

definition exhausted ::
  "('c, 'z) name_api_scheme \<Rightarrow> ('c, 'pk) container \<Rightarrow> 'c wildcard \<Rightarrow> 'c name list \<Rightarrow> bool" where
  "exhausted api c p rs \<longleftrightarrow> (\<forall>n. usable c n \<and> wc_match api p n \<longrightarrow> n \<in> set rs)"

lemma findANewKey_cases:
  obtains (enough) "m_times p \<le> count_if (wc_match api p) ex"
      "findANewKeyForPattern api c ex p = (True, [])"
  | (new) r where "count_if (wc_match api p) ex < m_times p" "usable c r" "wc_match api p r" "r \<notin> set ex"
      "findANewKeyForPattern api c ex p = (True, r)"
  | (none) "count_if (wc_match api p) ex < m_times p" "exhausted api c p ex"
      "findANewKeyForPattern api c ex p = (False, [])"
proof -
  let ?f = "find (\<lambda>k. k \<notin> set ex) (getMatchedKeys api c p)"
  have eq: "findANewKeyForPattern api c ex p =
      (if m_times p \<le> count_if (wc_match api p) ex then (True, [])
       else case ?f of Some k \<Rightarrow> (True, k) | None \<Rightarrow> (False, []))"
    by (simp add: findANewKeyForPattern_def count_matching_eq nset.cnt_0_iff)
  show ?thesis
  proof (cases "m_times p \<le> count_if (wc_match api p) ex")
    case True
    with eq show ?thesis by (intro enough) auto
  next
    case False
    show ?thesis
    proof (cases ?f)
      case None
      with False eq show ?thesis
        by (intro none) (auto simp: exhausted_def matched.find_new_None)
    next
      case (Some r)
      with False eq matched.find_new_Some [OF Some] show ?thesis by (intro new) auto
    qed
  qed
qed

text \<open>What the result set and the difference set have in common with the start.\<close>

definition replacing :: "('c::linorder, 'pk) container \<Rightarrow> 'c name set \<Rightarrow> 'c name list \<Rightarrow> 'c name list \<Rightarrow> bool" where
  "replacing c base rs diff \<longleftrightarrow> sset_ok rs \<and> sset_ok diff \<and> set rs = base \<union> set diff \<and>
     set diff \<inter> base = {} \<and> (\<forall>d \<in> set diff. usable c d)"

lemma replacing_start: "sset_ok rs \<Longrightarrow> replacing c (set rs) rs []"
  by (simp add: replacing_def nset.invar_emp)

lemma replacing_insert:
  "replacing c base rs diff \<Longrightarrow> usable c r \<Longrightarrow> r \<notin> set rs \<Longrightarrow>
   replacing c base (sset_insert r rs) (sset_insert r diff)"
  by (auto simp: replacing_def nset.invar_ins)

lemma replacing_distinct: "replacing c base rs diff \<Longrightarrow> distinct rs"
  by (simp add: replacing_def sset_ok_def)

lemma count_if_insert_new:
  "sset_ok rs \<Longrightarrow> r \<notin> set rs \<Longrightarrow> P r \<Longrightarrow> count_if P (sset_insert r rs) = Suc (count_if P rs)"
  using nset.count_ins [of rs P r] by simp

lemma replacing_mono_count:
  assumes "replacing c base rs diff" and "set rs \<subseteq> set rs'"
  shows "count_if P rs \<le> count_if P rs'"
  using replacing_distinct [OF assms(1)] assms(2) by (rule count_if_mono)

lemma replace_required_Some:
  assumes "replace_required api c u ps (rs, diff) = Some (rs', diff')" and "replacing c base rs diff"
    and "\<not> usable c []"
  shows "replacing c base rs' diff' \<and> set rs \<subseteq> set rs' \<and>
    (\<forall>p \<in> set ps. wc_match api p u \<longrightarrow> m_times p \<le> Suc (count_if (wc_match api p) rs) \<longrightarrow>
       m_times p \<le> count_if (wc_match api p) rs')"
  using assms(1,2)
proof (induction ps arbitrary: rs diff)
  case Nil
  then show ?case by simp
next
  case (Cons p ps)
  show ?case
  proof (cases "wc_match api p u")
    case False
    with Cons show ?thesis by auto
  next
    case match: True
    show ?thesis
    proof (cases rule: findANewKey_cases [of p api rs c])
      case enough
      with match Cons.prems have rec: "replace_required api c u ps (rs, diff) = Some (rs', diff')" by simp
      note IH = Cons.IH [OF rec Cons.prems(2)]
      then have "count_if (wc_match api p) rs \<le> count_if (wc_match api p) rs'"
        using Cons.prems(2) replacing_mono_count by blast
      with IH enough(1) show ?thesis by auto
    next
      case (new r)
      let ?rs = "sset_insert r rs"
      have "r \<noteq> []" using new(2) assms(3) by auto
      with match new Cons.prems
      have rec: "replace_required api c u ps (?rs, sset_insert r diff) = Some (rs', diff')" by simp
      have st: "replacing c base ?rs (sset_insert r diff)"
        using Cons.prems(2) new by (intro replacing_insert)
      note IH = Cons.IH [OF rec st]
      have "Suc (count_if (wc_match api p) rs) = count_if (wc_match api p) ?rs"
        using Cons.prems(2) new by (simp add: count_if_insert_new replacing_def)
      also have "\<dots> \<le> count_if (wc_match api p) rs'"
        using st IH replacing_mono_count by blast
      finally have p: "Suc (count_if (wc_match api p) rs) \<le> count_if (wc_match api p) rs'" .
      have grow: "count_if (wc_match api q) rs \<le> count_if (wc_match api q) ?rs" for q
        using Cons.prems(2) by (rule replacing_mono_count) auto
      have "m_times q \<le> count_if (wc_match api q) rs'"
        if "q \<in> set ps" "wc_match api q u" "m_times q \<le> Suc (count_if (wc_match api q) rs)" for q
        using IH that grow [of q] by (meson Suc_le_mono order_trans)
      with IH p show ?thesis by auto
    next
      case none
      with match Cons.prems show ?thesis by simp
    qed
  qed
qed

lemma replace_required_None:
  assumes "replace_required api c u ps (rs, diff) = None" and "replacing c base rs diff"
  shows "\<exists>p \<in> set ps. \<exists>rs' diff'. replacing c base rs' diff' \<and>
    count_if (wc_match api p) rs' < m_times p \<and> exhausted api c p rs'"
  using assms
proof (induction ps arbitrary: rs diff)
  case Nil
  then show ?case by simp
next
  case (Cons p ps)
  show ?case
  proof (cases rule: findANewKey_cases [of p api rs c])
    case enough
    with Cons show ?thesis by (auto split: if_splits)
  next
    case (new r)
    then have "replacing c base (sset_insert r rs) (sset_insert r diff)"
      using Cons.prems(2) by (intro replacing_insert)
    with new Cons show ?thesis by (fastforce split: if_splits)
  next
    case none
    with Cons show ?thesis by (auto split: if_splits)
  qed
qed

lemma replace_optional_result:
  assumes "replace_optional api c ps (rs, diff) = (rs', diff')" and "replacing c base rs diff"
    and "\<not> usable c []"
  shows "replacing c base rs' diff' \<and> set rs \<subseteq> set rs' \<and>
    (rs' = rs \<and> (\<forall>p \<in> set ps. m_times p \<le> count_if (wc_match api p) rs \<or> exhausted api c p rs) \<or>
     (\<exists>p \<in> set ps. \<exists>r. rs' = sset_insert r rs \<and> r \<notin> set rs \<and> wc_match api p r \<and>
        count_if (wc_match api p) rs < m_times p))"
  using assms(1,2)
proof (induction ps)
  case Nil
  then show ?case by simp
next
  case (Cons p ps)
  show ?case
  proof (cases rule: findANewKey_cases [of p api rs c])
    case enough
    with Cons.prems have "replace_optional api c ps (rs, diff) = (rs', diff')" by simp
    from Cons.IH [OF this Cons.prems(2)] enough(1) show ?thesis by auto
  next
    case (new r)
    then have "r \<noteq> []" using assms(3) by auto
    with new Cons.prems have "rs' = sset_insert r rs" "diff' = sset_insert r diff" by auto
    with new Cons.prems(2) show ?thesis by (auto intro: replacing_insert)
  next
    case none
    with Cons.prems have "replace_optional api c ps (rs, diff) = (rs', diff')" by simp
    from Cons.IH [OF this Cons.prems(2)] none(2) show ?thesis by auto
  qed
qed

lemma replaceSigner_unfold:
  "replaceSigner api c signers u schema =
    (case replace_required api (mark_unavailable u c) u (m_signers schema)
       (sset_erase u (sset_of_list signers), []) of
       None \<Rightarrow> (mark_unavailable u c, [], [])
     | Some st \<Rightarrow> (mark_unavailable u c,
         replace_optional api (mark_unavailable u c) (m_optionalSigners schema) st))"
  by (simp add: replaceSigner_def mark_unavailable_def Let_def split: option.split)

lemma replacing_signers:
  "replacing c (set signers - {u}) (sset_erase u (sset_of_list signers)) []"
  using replacing_start [of "sset_erase u (sset_of_list signers)" c]
  by (simp add: nset.invar_era)

lemma replaceSigner_cases:
  assumes "replaceSigner api c signers u schema = (c', new, diff)"
  obtains (failed) "c' = mark_unavailable u c" "new = []" "diff = []"
      "replace_required api c' u (m_signers schema) (sset_erase u (sset_of_list signers), []) = None"
  | (found) rs1 diff1 where "c' = mark_unavailable u c"
      "replace_required api c' u (m_signers schema) (sset_erase u (sset_of_list signers), []) = Some (rs1, diff1)"
      "replace_optional api c' (m_optionalSigners schema) (rs1, diff1) = (new, diff)"
  using assms unfolding replaceSigner_unfold by (auto split: option.splits)

lemma replaceSigner_replacing:
  assumes "replaceSigner api c signers u schema = (c', new, diff)" and "trusted_key c [] = None"
  shows "c' = mark_unavailable u c \<and> (new = [] \<and> diff = [] \<or> replacing c' (set signers - {u}) new diff)"
  using assms(1)
proof (cases rule: replaceSigner_cases)
  case (found rs1 diff1)
  have ne: "\<not> usable c' []" using assms(2) found(1) by (simp add: usable_def)
  have "replacing c' (set signers - {u}) rs1 diff1"
    using replace_required_Some [OF found(2) replacing_signers ne] by blast
  then have "replacing c' (set signers - {u}) new diff"
    using replace_optional_result [OF found(3) _ ne] by blast
  then show ?thesis using found(1) by simp
qed simp

lemma replaceSigner_sorted:
  assumes "replaceSigner api c signers u schema = (c', new, diff)" and "trusted_key c [] = None"
  shows "sset_ok new" and "sset_ok diff"
  using replaceSigner_replacing [OF assms] by (auto simp: replacing_def nset.invar_emp)

text \<open>
  What a replacement does to the signer list. The unavailable key is recorded and does not
  appear in the new list; when the new list is not empty it is the old one without that key plus
  the difference list, the added keys were not in it before, and each of them is trusted and
  not known to be unavailable.
\<close>

theorem replaceSigner_frame:
  assumes "replaceSigner api c signers u schema = (c', new, diff)"
    and "trusted_key c [] = None"
  shows "c' = mark_unavailable u c \<and> u \<notin> set new \<and> distinct new \<and> distinct diff \<and>
    (new = [] \<longrightarrow> set diff = {}) \<and>
    (new \<noteq> [] \<longrightarrow> set new = (set signers - {u}) \<union> set diff \<and> set diff \<inter> (set signers - {u}) = {} \<and>
       (\<forall>d \<in> set diff. usable c d \<and> d \<noteq> u))"
  using replaceSigner_replacing [OF assms] by (auto simp: replacing_def usable_mark sset_ok_def)

lemma optional_total_insert:
  assumes "sset_ok rs" and "r \<notin> set rs" and "p \<in> set ps" and "wc_match api p r"
    and "count_if (wc_match api p) rs < m_times p"
  shows "Suc (optional_total api ps rs) \<le> optional_total api ps (sset_insert r rs)"
  using assms(3)
proof (induction ps)
  case Nil
  then show ?case by simp
next
  case (Cons q ps)
  have grow: "count_if (wc_match api x) rs \<le> count_if (wc_match api x) (sset_insert r rs)" for x
    using assms(1) by (rule nset.count_ins_mono)
  then have rest: "optional_total api ps rs \<le> optional_total api ps (sset_insert r rs)"
    by (intro optional_total_mono)
  show ?case
  proof (cases "q = p")
    case True
    with rest assms show ?thesis by (simp add: count_if_insert_new)
  next
    case False
    with Cons have "Suc (optional_total api ps rs) \<le> optional_total api ps (sset_insert r rs)" by simp
    with grow [of q] show ?thesis by (simp add: min_def)
  qed
qed

lemma optional_total_erase:
  assumes "sset_ok rs"
  shows "optional_total api ps rs \<le>
    optional_total api ps (sset_erase u rs) + length (filter (\<lambda>p. wc_match api p u) ps)"
proof (induction ps)
  case Nil
  then show ?case by simp
next
  case (Cons p ps)
  have "count_if (wc_match api p) rs \<le>
      count_if (wc_match api p) (sset_erase u rs) + (if wc_match api p u then 1 else 0)"
    using assms by (rule nset.count_era)
  with Cons show ?case by (auto simp: min_def)
qed

lemma exhausted_bound:
  assumes "exhausted api c p rs" and "replacing c base rs diff" and "distinct ys"
    and "\<forall>y \<in> set ys. y \<in> base \<or> usable c y"
  shows "count_if (wc_match api p) ys \<le> count_if (wc_match api p) rs"
proof -
  have "{y \<in> set ys. wc_match api p y} \<subseteq> {y \<in> set rs. wc_match api p y}"
    using assms(1,2,4) by (auto simp: exhausted_def replacing_def)
  then have "card {y \<in> set ys. wc_match api p y} \<le> card {y \<in> set rs. wc_match api p y}"
    by (intro card_mono) auto
  then show ?thesis
    using assms(3) replacing_distinct [OF assms(2)] by (simp add: count_if_distinct)
qed

lemma passSchema_sset_of_list:
  assumes "distinct signers"
  shows "count_if P (sset_of_list signers) = count_if P signers"
  using assms by (simp add: count_if_distinct)

text \<open>The replacement keeps every required pattern satisfied.\<close>

lemma replace_required_met:
  assumes "replace_required api c' u (m_signers schema) (sset_erase u (sset_of_list signers), []) = Some (rs1, diff1)"
    and "\<not> usable c' []" and "distinct signers" and "required_met api (m_signers schema) signers"
  shows "replacing c' (set signers - {u}) rs1 diff1 \<and> set (sset_erase u (sset_of_list signers)) \<subseteq> set rs1 \<and>
    required_met api (m_signers schema) rs1"
proof -
  let ?rs0 = "sset_erase u (sset_of_list signers)"
  note R = replace_required_Some [OF assms(1) replacing_signers assms(2)]
  have erase: "count_if (wc_match api p) signers \<le>
      count_if (wc_match api p) ?rs0 + (if wc_match api p u then 1 else 0)" for p
    using nset.count_era [of "sset_of_list signers" "wc_match api p" u]
    by (simp add: passSchema_sset_of_list [OF assms(3)])
  have mono: "count_if (wc_match api p) ?rs0 \<le> count_if (wc_match api p) rs1" for p
    using replacing_mono_count [OF replacing_signers] R by blast
  have "m_times p \<le> count_if (wc_match api p) rs1" if p: "p \<in> set (m_signers schema)" for p
  proof (cases "wc_match api p u")
    case True
    then have "m_times p \<le> Suc (count_if (wc_match api p) ?rs0)"
      using assms(4) p erase [of p] by (auto simp: required_met_def)
    with R p True show ?thesis by blast
  next
    case False
    then show ?thesis
      using assms(4) p erase [of p] mono [of p] by (auto simp: required_met_def)
  qed
  with R show ?thesis by (simp add: required_met_def)
qed

lemma replaceSigner_required_met:
  assumes "replaceSigner api c signers u schema = (c', new, diff)" and "trusted_key c [] = None"
    and "distinct signers" and "required_met api (m_signers schema) signers" and "new \<noteq> []"
  shows "required_met api (m_signers schema) new"
  using assms(1)
proof (cases rule: replaceSigner_cases)
  case failed
  with assms(5) show ?thesis by simp
next
  case (found rs1 diff1)
  have ne: "\<not> usable c' []" using assms(2) found(1) by (simp add: usable_def)
  note R = replace_required_met [OF found(2) ne assms(3,4)]
  have "set rs1 \<subseteq> set new" using replace_optional_result [OF found(3) _ ne] R by blast
  then have "count_if (wc_match api p) rs1 \<le> count_if (wc_match api p) new" for p
    using R replacing_mono_count by blast
  with R show ?thesis by (blast intro: required_met_mono)
qed

text \<open>
  C23: replacing a required signer. If the list before satisfied the schema and the key that
  went away matches no optional pattern, then a non-empty new list satisfies the whole schema.
\<close>

theorem replaceSigner_required_passes:
  assumes "replaceSigner api c signers u schema = (c', new, diff)"
    and "trusted_key c [] = None" and "distinct signers" and "passSchema api schema signers"
    and "\<forall>p \<in> set (m_optionalSigners schema). \<not> wc_match api p u" and "new \<noteq> []"
  shows "passSchema api schema new"
  using assms(1)
proof (cases rule: replaceSigner_cases)
  case failed
  with assms(6) show ?thesis by simp
next
  case (found rs1 diff1)
  have ne: "\<not> usable c' []" using assms(2) found(1) by (simp add: usable_def)
  have old: "required_met api (m_signers schema) signers"
    "m_minOptionalSigners schema \<le> optional_total api (m_optionalSigners schema) signers"
    using assms(4) by (simp_all add: passSchema_iff)
  note R = replace_required_met [OF found(2) ne assms(3) old(1)]
  note O = replace_optional_result [OF found(3) _ ne]
  let ?rs0 = "sset_erase u (sset_of_list signers)"
  have grow: "count_if (wc_match api p) rs1 \<le> count_if (wc_match api p) new" for p
    using R O replacing_mono_count by blast
  have "optional_total api (m_optionalSigners schema) signers \<le>
      optional_total api (m_optionalSigners schema) ?rs0"
    using optional_total_erase [of "sset_of_list signers" api "m_optionalSigners schema" u] assms(5)
    by (simp add: optional_total_def passSchema_sset_of_list [OF assms(3)] filter_empty_conv)
  also have "\<dots> \<le> optional_total api (m_optionalSigners schema) new"
  proof (rule optional_total_mono)
    fix p
    have "count_if (wc_match api p) ?rs0 \<le> count_if (wc_match api p) rs1"
      using replacing_mono_count [OF replacing_signers] R by blast
    with grow show "count_if (wc_match api p) ?rs0 \<le> count_if (wc_match api p) new"
      using order_trans by blast
  qed
  finally have "m_minOptionalSigners schema \<le> optional_total api (m_optionalSigners schema) new"
    using old(2) by simp
  moreover have "required_met api (m_signers schema) new"
    using R grow by (blast intro: required_met_mono)
  ultimately show ?thesis by (simp add: passSchema_iff)
qed

text \<open>
  C22: the replacement is as good as any. If the list before satisfied the schema and the key
  that went away matches at most one optional pattern, then either the new list satisfies the
  schema, or no list of distinct keys, taken from the remaining signers and the usable keys,
  does.
\<close>

theorem replaceSigner_complete:
  assumes "replaceSigner api c signers u schema = (c', new, diff)"
    and "trusted_key c [] = None" and "distinct signers" and "passSchema api schema signers"
    and "length (filter (\<lambda>p. wc_match api p u) (m_optionalSigners schema)) \<le> 1"
  shows "passSchema api schema new \<or>
    \<not> (\<exists>ys. distinct ys \<and> (\<forall>y \<in> set ys. y \<noteq> u \<and> (y \<in> set signers \<or> usable c y)) \<and>
      passSchema api schema ys)"
proof (cases "\<exists>ys. distinct ys \<and> (\<forall>y \<in> set ys. y \<noteq> u \<and> (y \<in> set signers \<or> usable c y)) \<and>
      passSchema api schema ys")
  case False
  then show ?thesis ..
next
  case True
  then obtain ys where ys: "distinct ys" "passSchema api schema ys"
    "\<forall>y \<in> set ys. y \<noteq> u \<and> (y \<in> set signers \<or> usable c y)" by blast
  have old: "required_met api (m_signers schema) signers"
    "m_minOptionalSigners schema \<le> optional_total api (m_optionalSigners schema) signers"
    using assms(4) by (simp_all add: passSchema_iff)
  from assms(1) have "passSchema api schema new"
  proof (cases rule: replaceSigner_cases)
    case failed
    obtain p rs' diff' where p: "p \<in> set (m_signers schema)" "replacing c' (set signers - {u}) rs' diff'"
      "count_if (wc_match api p) rs' < m_times p" "exhausted api c' p rs'"
      using replace_required_None [OF failed(4) replacing_signers] by blast
    have "\<forall>y \<in> set ys. y \<in> set signers - {u} \<or> usable c' y"
      using ys(3) failed(1) by (auto simp: usable_mark)
    with p ys(1) have "count_if (wc_match api p) ys < m_times p"
      using exhausted_bound [OF p(4,2)] by (meson order_le_less_trans)
    with p(1) ys(2) have False by (auto simp: passSchema_iff required_met_def dest: bspec)
    then show ?thesis ..
  next
    case (found rs1 diff1)
    have ne: "\<not> usable c' []" using assms(2) found(1) by (simp add: usable_def)
    let ?rs0 = "sset_erase u (sset_of_list signers)" and ?os = "m_optionalSigners schema"
    note R = replace_required_met [OF found(2) ne assms(3) old(1)]
    have R1: "replacing c' (set signers - {u}) rs1 diff1" using R by blast
    note O = replace_optional_result [OF found(3) R1 ne]
    have grow: "count_if (wc_match api p) rs1 \<le> count_if (wc_match api p) new" for p
      using R O replacing_mono_count by blast
    have req: "required_met api (m_signers schema) new"
      using R grow by (blast intro: required_met_mono)
    have "optional_total api ?os signers \<le> Suc (optional_total api ?os ?rs0)"
      using optional_total_erase [of "sset_of_list signers" api ?os u] assms(5)
      by (simp add: optional_total_def passSchema_sset_of_list [OF assms(3)])
    also have "optional_total api ?os ?rs0 \<le> optional_total api ?os rs1"
      by (rule optional_total_mono) (use replacing_mono_count [OF replacing_signers] R in blast)
    finally have low: "m_minOptionalSigners schema \<le> Suc (optional_total api ?os rs1)"
      using old(2) by simp
    from O consider
        (same) "new = rs1" "\<forall>p \<in> set ?os. m_times p \<le> count_if (wc_match api p) rs1 \<or> exhausted api c' p rs1"
      | (added) p r where "p \<in> set ?os" "new = sset_insert r rs1" "r \<notin> set rs1" "wc_match api p r"
          "count_if (wc_match api p) rs1 < m_times p"
      by blast
    then have "m_minOptionalSigners schema \<le> optional_total api ?os new"
    proof cases
      case added
      have "sset_ok rs1" using R1 by (simp add: replacing_def)
      then have "Suc (optional_total api ?os rs1) \<le> optional_total api ?os new"
        unfolding added(2) using added by (intro optional_total_insert)
      with low show ?thesis by simp
    next
      case same
      have within: "\<forall>y \<in> set ys. y \<in> set signers - {u} \<or> usable c' y"
        using ys(3) found(1) by (auto simp: usable_mark)
      have "min (count_if (wc_match api p) ys) (m_times p) \<le> min (count_if (wc_match api p) rs1) (m_times p)"
        if "p \<in> set ?os" for p
        using same(2) that exhausted_bound [OF _ R1 ys(1) within, of api p] by auto
      then have "optional_total api ?os ys \<le> optional_total api ?os rs1"
        unfolding optional_total_def by (rule sum_list_map_le)
      with ys(2) same(1) show ?thesis by (simp add: passSchema_iff)
    qed
    with req show ?thesis by (simp add: passSchema_iff)
  qed
  then show ?thesis ..
qed

definition usable_keys :: "('c, 'pk) container \<Rightarrow> 'c name set" where
  "usable_keys c = {n \<in> fst ` set (m_trustedIds c). n \<notin> set (m_unavailableSigners c)}"

text \<open>
  C24: replacing cannot go on for ever. Each replacement of a key that was still usable leaves
  one usable key less, so at most as many replacements of usable keys are possible as there are
  trusted keys.
\<close>

theorem replaceSigner_decreases:
  assumes "replaceSigner api c signers u schema = (c', new, diff)" and "usable c u"
  shows "usable_keys c' = usable_keys c - {u} \<and> card (usable_keys c') < card (usable_keys c)"
proof -
  have c': "c' = mark_unavailable u c"
    using assms(1) by (cases rule: replaceSigner_cases) auto
  have eq: "usable_keys c' = usable_keys c - {u}"
    by (auto simp: c' usable_keys_def mark_unavailable_def)
  have u: "u \<in> usable_keys c"
    using assms(2) trusted_key_None [of c u] by (auto simp: usable_def usable_keys_def)
  have "finite (usable_keys c)" by (simp add: usable_keys_def)
  with u have "card (usable_keys c') < card (usable_keys c)"
    unfolding eq by (intro psubset_card_mono) auto
  with eq show ?thesis by simp
qed

section \<open>The policy decision and the aggregated key\<close>

text \<open>
  C26: initiator and verifier agree. What \<^verbatim>\<open>getAvailableSigners\<close> selects for the first
  schema that matches a packet name is accepted by the container's \<^verbatim>\<open>passSchema\<close> for that
  packet name.
\<close>

theorem selected_signers_pass:
  assumes "getAvailableSigners api c schema = Inr signers"
    and "find (\<lambda>s. schema_match api s packetName) (m_schemas c) = Some schema"
  shows "container_passSchema api c packetName signers"
  using selection_sound [OF assms(1)] assms(2)
  by (auto simp: container_passSchema_def list_ex_iff from_patterns_def usable_def)

text \<open>
  Only the first rule counts. When the first schema of the list that matches the packet
  name refuses the signers, the container refuses them, whatever the other schemas say. The
  schema documentation says that any one rule suffices.
\<close>

theorem container_first_rule_only:
  assumes "m_schemas c = schema # rest" and "schema_match api schema packetName"
    and "\<not> passSchema api schema signers"
  shows "\<not> container_passSchema api c packetName signers"
  using assms by (simp add: container_passSchema_def)

text \<open>
  The selection is not minimal. With an optional minimum of 0, the loop over the optional
  patterns still takes the first key of the first pattern: the result contains a key that the
  schema does not need, although \<^verbatim>\<open>schema.hpp\<close> promises the minimum set.
\<close>

theorem getAvailableSigners_takes_unneeded:
  assumes "getAvailableSigners api c (schema\<lparr>m_optionalSigners := []\<rparr>) = Inr required"
    and "m_minOptionalSigners schema = 0"
    and "m_optionalSigners schema = p # ps" and "0 < m_times p"
    and "getMatchedKeys api c p = k # ks" and "k \<notin> set required"
  shows "getAvailableSigners api c schema = Inr (sset_insert k required) \<and>
    k \<in> set (sset_insert k required) \<and> passSchema api schema required"
proof -
  have req: "collect_required api c (m_signers schema) [] = Inr required"
    using assms(1,2) by (auto simp: getAvailableSigners_def res_bind_Inr_iff)
  obtain n where n: "m_times p = Suc n" using assms(4) by (cases "m_times p") auto
  have "getAvailableSigners api c schema = Inr (sset_insert k required)"
    using assms(2,3,5) by (simp add: getAvailableSigners_def req n Let_def)
  moreover have "passSchema api (schema\<lparr>m_optionalSigners := []\<rparr>) required"
    using selection_sound(2) [OF assms(1)] .
  then have "passSchema api schema required"
    using assms(2) by (simp add: passSchema_iff)
  ultimately show ?thesis by simp
qed

text \<open>
  A replacement list may fail the schema. With no required pattern and one optional pattern
  of which one key is needed, when the key that matched it goes away and no other usable key
  matches, the code returns the remaining signer, and not the empty list that stands for
  failure, although the list no longer satisfies the schema.
\<close>

theorem replaceSigner_keeps_failing_list:
  assumes "m_signers schema = []" and "m_optionalSigners schema = [p]" and "m_times p = Suc 0"
    and "m_minOptionalSigners schema = Suc 0"
    and "wc_match api p u" and "\<not> wc_match api p v" and "u \<noteq> v"
    and "\<forall>n. usable c n \<and> wc_match api p n \<longrightarrow> n = u"
  shows "replaceSigner api c [u, v] u schema = (mark_unavailable u c, [v], []) \<and>
    passSchema api schema [u, v] \<and> \<not> passSchema api schema [v]"
proof -
  have "set (getMatchedKeys api (mark_unavailable u c) p) = {}"
    using assms(8) by (auto simp: matched.set_keys usable_mark)
  then have none: "getMatchedKeys api (mark_unavailable u c) p = []" by simp
  have rs: "sset_erase u (sset_of_list [u, v]) = [v]"
    using assms(7) by (auto simp: sset_erase_def sset_of_list_def sset_insert_def)
  show ?thesis
    using assms by (simp add: replaceSigner_unfold rs none findANewKeyForPattern_def count_matching_eq
        passSchema_iff required_met_def)
qed

lemma aggregate_loop_init:
  assumes "\<forall>n \<in> set signers. trusted_key c n = Some (f n)"
  shows "aggregate_loop add c signers (agg, True) = Inr (foldl add agg (map f signers))"
  using assms by (induction signers arbitrary: agg) auto

lemma aggregateKey_trusted:
  assumes "\<forall>n \<in> set signers. trusted_key c n = Some (f n)"
  shows "aggregateKey bls c signers = (case signers of
    [] \<Rightarrow> Inr (pk_uninit bls) | n # ns \<Rightarrow> Inr (foldl (blsPublicKeyAdd bls) (f n) (map f ns)))"
  using assms by (auto simp: aggregateKey_def aggregate_loop_init split: list.split)

lemma aggregate_loop_missing:
  assumes "n \<in> set signers" and "trusted_key c n = None"
  shows "aggregate_loop add c signers st =
    Inl (Throws ''Schema container does not have sufficient keys. Missing key'')"
  using assms
proof (induction signers arbitrary: st)
  case Nil
  then show ?case by simp
next
  case (Cons m signers)
  obtain agg init where "st = (agg, init)" by force
  then show ?case
    using Cons by (cases "trusted_key c m") auto
qed

text \<open>
  The aggregated key. For trusted signers (at least one) it is what aggregating the list of
  their public keys gives; when a signer is not trusted the function throws.
\<close>

theorem aggregateKey_eq:
  "aggregateKey bls c signers =
    (if \<exists>n \<in> set signers. trusted_key c n = None
     then Inl (Throws ''Schema container does not have sufficient keys. Missing key'')
     else if signers = [] then Inr (pk_uninit bls)
     else ndnBLSAggregatePublicKey bls (map (\<lambda>n. the (trusted_key c n)) signers))"
proof (cases "\<exists>n \<in> set signers. trusted_key c n = None")
  case True
  then show ?thesis by (auto simp: aggregateKey_def aggregate_loop_missing)
next
  case False
  then have "\<forall>n \<in> set signers. trusted_key c n = Some (the (trusted_key c n))" by auto
  from aggregateKey_trusted [OF this, of bls] False show ?thesis
    by (auto simp: ndnBLSAggregatePublicKey_def split: list.split)
qed

end
