(* ===== verification/Ndn_Instance.thy ===== *)
theory Ndn_Instance
  imports Ndn_Api
begin

text \<open>
  Concrete functions for the interface of \<open>Ndn_Api\<close>, used by the witnesses of properties
  that assume its laws: components are a type and a text with the library's canonical order
  (type, then length, then value), elements and packets are written with a self-delimiting
  binary code and parsed back by executable functions. \<open>name_laws_demo\<close>,
  \<open>tlv_laws_demo\<close> and \<open>packet_laws_demo\<close> show that all the laws hold together.
\<close>

section \<open>Name components\<close>

datatype gcomp = GComp (gc_type: nat) (gc_text: string)

instantiation gcomp :: linorder
begin

definition less_eq_gcomp :: "gcomp \<Rightarrow> gcomp \<Rightarrow> bool" where
  "less_eq_gcomp a b \<longleftrightarrow> gc_type a < gc_type b \<or> gc_type a = gc_type b \<and>
     (length (gc_text a) < length (gc_text b) \<or>
      length (gc_text a) = length (gc_text b) \<and> gc_text a \<le> gc_text b)"

definition less_gcomp :: "gcomp \<Rightarrow> gcomp \<Rightarrow> bool" where
  "less_gcomp a b \<longleftrightarrow> a \<le> b \<and> \<not> b \<le> (a :: gcomp)"

instance
proof
  fix a b c :: gcomp
  show "a < b \<longleftrightarrow> a \<le> b \<and> \<not> b \<le> a" by (rule less_gcomp_def)
  show "a \<le> a" by (simp add: less_eq_gcomp_def)
  show "a \<le> b \<Longrightarrow> b \<le> c \<Longrightarrow> a \<le> c" by (auto simp: less_eq_gcomp_def)
  show "a \<le> b \<Longrightarrow> b \<le> a \<Longrightarrow> a = b" by (cases a; cases b) (auto simp: less_eq_gcomp_def)
  show "a \<le> b \<or> b \<le> a" by (auto simp: less_eq_gcomp_def)
qed

end

section \<open>A self-delimiting code\<close>

text \<open>
  A coder and its decoder; \<open>codes enc dec\<close> says that decoding what was encoded, with
  anything behind it, returns the value and the rest.
\<close>

type_synonym 'a decoder = "bytes \<Rightarrow> ('a \<times> bytes) option"

definition codes :: "('a \<Rightarrow> bytes) \<Rightarrow> 'a decoder \<Rightarrow> bool" where
  "codes enc dec \<longleftrightarrow> (\<forall>x r. dec (enc x @ r) = Some (x, r))"

lemma codesD: "codes enc dec \<Longrightarrow> dec (enc x @ r) = Some (x, r)"
  by (simp add: codes_def)

fun enc_nat :: "nat \<Rightarrow> bytes" where
  "enc_nat n = (if n = 0 then [0] else (if even n then 1 else 2) # enc_nat (n div 2))"

declare enc_nat.simps [simp del]

fun dec_nat :: "nat decoder" where
  "dec_nat [] = None"
| "dec_nat (b # bs) = (if b = 0 then Some (0, bs)
     else map_option (\<lambda>(n, r). (2 * n + (if b = 1 then 0 else 1), r)) (dec_nat bs))"

lemma codes_nat: "codes enc_nat dec_nat"
proof -
  have "dec_nat (enc_nat n @ r) = Some (n, r)" for n r
    by (induction n rule: enc_nat.induct) (subst enc_nat.simps, auto elim: oddE)
  then show ?thesis by (simp add: codes_def)
qed

definition dec_map :: "('a \<Rightarrow> 'b) \<Rightarrow> 'a decoder \<Rightarrow> 'b decoder" where
  "dec_map f d bs = map_option (\<lambda>(x, r). (f x, r)) (d bs)"

lemma codes_map: "codes enc dec \<Longrightarrow> (\<And>x. f (g x) = x) \<Longrightarrow> codes (enc \<circ> g) (dec_map f dec)"
  by (simp add: codes_def dec_map_def)

definition enc_pair :: "('a \<Rightarrow> bytes) \<Rightarrow> ('b \<Rightarrow> bytes) \<Rightarrow> 'a \<times> 'b \<Rightarrow> bytes" where
  "enc_pair f g p = f (fst p) @ g (snd p)"

definition dec_pair :: "'a decoder \<Rightarrow> 'b decoder \<Rightarrow> ('a \<times> 'b) decoder" where
  "dec_pair d e bs = (case d bs of None \<Rightarrow> None
     | Some (x, r) \<Rightarrow> map_option (\<lambda>(y, r). ((x, y), r)) (e r))"

lemma codes_pair: "codes f d \<Longrightarrow> codes g e \<Longrightarrow> codes (enc_pair f g) (dec_pair d e)"
  by (simp add: codes_def enc_pair_def dec_pair_def)

primrec dec_times :: "nat \<Rightarrow> 'a decoder \<Rightarrow> 'a list decoder" where
  "dec_times 0 d bs = Some ([], bs)"
| "dec_times (Suc n) d bs = (case d bs of None \<Rightarrow> None
     | Some (x, r) \<Rightarrow> map_option (\<lambda>(xs, r). (x # xs, r)) (dec_times n d r))"

definition enc_list :: "('a \<Rightarrow> bytes) \<Rightarrow> 'a list \<Rightarrow> bytes" where
  "enc_list f xs = enc_nat (length xs) @ concat (map f xs)"

definition dec_list :: "'a decoder \<Rightarrow> 'a list decoder" where
  "dec_list d bs = (case dec_nat bs of None \<Rightarrow> None | Some (n, r) \<Rightarrow> dec_times n d r)"

lemma dec_times_all:
  "(\<And>x r. x \<in> set xs \<Longrightarrow> d (f x @ r) = Some (x, r)) \<Longrightarrow>
   dec_times (length xs) d (concat (map f xs) @ r) = Some (xs, r)"
  by (induction xs) auto

lemma codes_list: "codes f d \<Longrightarrow> codes (enc_list f) (dec_list d)"
  using codesD [OF codes_nat]
  by (simp add: codes_def enc_list_def dec_list_def dec_times_all)

definition enc_opt :: "('a \<Rightarrow> bytes) \<Rightarrow> 'a option \<Rightarrow> bytes" where
  "enc_opt f x = (case x of None \<Rightarrow> [0] | Some y \<Rightarrow> 1 # f y)"

definition dec_opt :: "'a decoder \<Rightarrow> 'a option decoder" where
  "dec_opt d bs = (case bs of [] \<Rightarrow> None
     | b # r \<Rightarrow> (if b = 0 then Some (None, r) else map_option (\<lambda>(x, r). (Some x, r)) (d r)))"

lemma codes_opt: "codes f d \<Longrightarrow> codes (enc_opt f) (dec_opt d)"
  by (simp add: codes_def enc_opt_def dec_opt_def split: option.split)

definition enc_byte :: "byte \<Rightarrow> bytes" where
  "enc_byte b = [b]"

definition dec_byte :: "byte decoder" where
  "dec_byte bs = (case bs of [] \<Rightarrow> None | b # r \<Rightarrow> Some (b, r))"

lemma codes_byte: "codes enc_byte dec_byte"
  by (simp add: codes_def enc_byte_def dec_byte_def)

definition byte_of_char :: "char \<Rightarrow> byte" where
  "byte_of_char c = of_nat (of_char c)"

definition char_of_byte :: "byte \<Rightarrow> char" where
  "char_of_byte b = char_of (unat b)"

lemma char_of_byte_of_char [simp]: "char_of_byte (byte_of_char c) = c"
proof -
  have "(of_char c :: nat) < 256" by (rule nat_of_char_less_256)
  then show ?thesis by (simp add: byte_of_char_def char_of_byte_def unat_of_nat)
qed

lemma byte_of_char_of_byte [simp]: "byte_of_char (char_of_byte b) = b"
proof -
  have "unat b < 256" using unsigned_less [of b, where ?'a = nat] by simp
  then have "(of_char (char_of (unat b) :: char) :: nat) = unat b" by simp
  then show ?thesis by (simp add: byte_of_char_def char_of_byte_def)
qed

abbreviation "enc_string \<equiv> enc_list (enc_byte \<circ> byte_of_char)"
abbreviation "dec_string \<equiv> dec_list (dec_map char_of_byte dec_byte)"

lemma codes_string: "codes enc_string dec_string"
  by (intro codes_list codes_map codes_byte) simp

abbreviation "enc_bytes \<equiv> enc_list enc_byte"
abbreviation "dec_bytes \<equiv> dec_list dec_byte"

lemma codes_bytes: "codes enc_bytes dec_bytes"
  by (intro codes_list codes_byte)

text \<open>What a decoder makes of a whole buffer, as a result.\<close>

definition run_decoder :: "'a decoder \<Rightarrow> bytes \<Rightarrow> 'a res" where
  "run_decoder d bs = (case d bs of None \<Rightarrow> Inl (Throws ''malformed'') | Some (x, r) \<Rightarrow> Inr x)"

lemma run_decoder_enc: "codes enc dec \<Longrightarrow> run_decoder dec (enc x) = Inr x"
  using codesD [of enc dec x "[]"] by (simp add: run_decoder_def)

section \<open>Codes of the packet data\<close>

abbreviation "enc_comp \<equiv> enc_pair enc_nat enc_string \<circ> (\<lambda>c. (gc_type c, gc_text c))"
abbreviation "dec_comp \<equiv> dec_map (\<lambda>(t, s). GComp t s) (dec_pair dec_nat dec_string)"

abbreviation "enc_name \<equiv> enc_list enc_comp"
abbreviation "dec_name \<equiv> dec_list dec_comp"

abbreviation "enc_block \<equiv> enc_pair enc_nat enc_bytes \<circ> (\<lambda>b. (blk_type b, blk_value b))"
abbreviation "dec_block \<equiv> dec_map (\<lambda>(t, v). Blk t v) (dec_pair dec_nat dec_bytes)"

lemma codes_name: "codes enc_name dec_name"
  by (intro codes_list codes_map codes_pair codes_nat codes_string) simp

lemma codes_block: "codes enc_block dec_block"
  by (intro codes_map codes_pair codes_nat codes_bytes) simp

definition kl_repr :: "gcomp key_locator \<Rightarrow> nat \<times> gcomp name \<times> bytes" where
  "kl_repr k = (case k of KL_Empty \<Rightarrow> (0, [], []) | KL_Name n \<Rightarrow> (1, n, []) | KL_Digest d \<Rightarrow> (2, [], d))"

definition kl_abs :: "nat \<times> gcomp name \<times> bytes \<Rightarrow> gcomp key_locator" where
  "kl_abs = (\<lambda>(t, n, d). if t = 0 then KL_Empty else if t = 1 then KL_Name n else KL_Digest d)"

lemma kl_abs_repr [simp]: "kl_abs (kl_repr k) = k"
  by (cases k) (simp_all add: kl_abs_def kl_repr_def)

abbreviation "enc_kl \<equiv> enc_pair enc_nat (enc_pair enc_name enc_bytes) \<circ> kl_repr"
abbreviation "dec_kl \<equiv> dec_map kl_abs (dec_pair dec_nat (dec_pair dec_name dec_bytes))"

abbreviation "enc_si \<equiv> enc_pair enc_nat (enc_pair enc_kl (enc_opt (enc_pair enc_nat enc_nat))) \<circ>
  (\<lambda>s. (si_type s, si_keyLocator s, si_validity s))"
abbreviation "dec_si \<equiv> dec_map (\<lambda>(t, k, v). \<lparr>si_type = t, si_keyLocator = k, si_validity = v\<rparr>)
  (dec_pair dec_nat (dec_pair dec_kl (dec_opt (dec_pair dec_nat dec_nat))))"

lemma codes_si: "codes enc_si dec_si"
  by (intro codes_map codes_pair codes_opt codes_nat codes_name codes_bytes) simp_all

abbreviation "enc_data \<equiv>
  enc_pair (enc_pair enc_name (enc_pair enc_nat (enc_pair enc_nat (enc_pair enc_block (enc_opt enc_si)))))
    enc_bytes \<circ>
  (\<lambda>d. ((d_name d, d_contentType d, d_freshness d, d_content d, d_sigInfo d), d_sigValue d))"
abbreviation "dec_data \<equiv>
  dec_map (\<lambda>((n, t, f, c, i), v). \<lparr>d_name = n, d_contentType = t, d_freshness = f, d_content = c,
     d_sigInfo = i, d_sigValue = v\<rparr>)
   (dec_pair (dec_pair dec_name (dec_pair dec_nat (dec_pair dec_nat (dec_pair dec_block (dec_opt dec_si)))))
     dec_bytes)"

lemma codes_data: "codes enc_data dec_data"
  by (intro codes_map codes_pair codes_opt codes_nat codes_name codes_block codes_si codes_bytes) simp

section \<open>The instance\<close>

definition demo_ranges :: "gcomp data \<Rightarrow> bytes list res" where
  "demo_ranges d = (if d_sigInfo d = None then Inl (Throws ''no SignatureInfo'')
     else Inr [enc_name (d_name d), enc_nat (d_contentType d), enc_nat (d_freshness d),
       enc_block (d_content d), enc_opt enc_si (d_sigInfo d)])"

definition demo_interest_ranges :: "gcomp interest \<Rightarrow> bytes list res" where
  "demo_interest_ranges i = (if i_sigInfo i = None then Inl (Throws ''no SignatureInfo'')
     else Inr [enc_name (filter (\<lambda>c. gc_type c \<noteq> 2) (i_name i)), enc_block (i_appParams i),
       enc_opt enc_si (i_sigInfo i)])"

definition demo_uri :: "gcomp \<Rightarrow> string" where
  "demo_uri c = (if gc_type c = 8 then gc_text c else digits_of (gc_type c) @ ''='' @ gc_text c)"

definition demo :: "gcomp packet_api" where
  "demo = \<lparr>nameComponentMax = 65535, comp_type = gc_type, comp_string = gc_text,
     comp_of_type = (\<lambda>t. GComp t []), comp_of_string = GComp 8,
     comp_of_number = (\<lambda>n. GComp 8 (digits_of n)),
     comp_of_version = (\<lambda>n. GComp 54 (digits_of n)),
     comp_of_timestamp = (\<lambda>n. GComp 56 (digits_of n)),
     name_uri = (\<lambda>n. if n = [] then ''/'' else concat (map (\<lambda>c. CHR ''/'' # demo_uri c) n)),
     tlv_invalid = 2 ^ 32 - 1,
     tlv_encode = enc_list enc_block,
     tlv_parse = run_decoder (dec_list dec_block),
     tlv_get = (\<lambda>es t. case find (\<lambda>e. blk_type e = t) es of
       Some b \<Rightarrow> Inr b | None \<Rightarrow> Inl (Throws ''no such element'')),
     str_block = (\<lambda>t s. Blk t (map byte_of_char s)),
     read_string = (\<lambda>b. map char_of_byte (blk_value b)),
     nn_block = (\<lambda>t n. Blk t (enc_nat n)),
     read_nn = (\<lambda>b. run_decoder dec_nat (blk_value b)),
     nested_block = (\<lambda>t b. Blk t (enc_block b)),
     block_from_value = (\<lambda>b. run_decoder dec_block (blk_value b)),
     block_of_bytes = (\<lambda>bs. res_bind (run_decoder (dec_list dec_block) bs)
       (\<lambda>es. case es of [] \<Rightarrow> Inl (Throws ''empty'') | b # _ \<Rightarrow> Inr b)),
     name_wire = (\<lambda>n. Blk 7 (enc_name n)),
     name_of_block = (\<lambda>b. if blk_type b = 7 then run_decoder dec_name (blk_value b)
       else Inl (Throws ''unexpected type'')),
     content_of = (\<lambda>b. if blk_type b = TLV_Content then b else Blk TLV_Content (enc_list enc_block [b])),
     data_wire = (\<lambda>d. Blk 6 (enc_data d)),
     data_of_block = (\<lambda>b. if blk_type b = 6 then run_decoder dec_data (blk_value b)
       else Inl (Throws ''unexpected type'')),
     data_unsigned = (\<lambda>d. res_bind (demo_ranges d) (\<lambda>rs. Inr (concat rs))),
     data_ranges = demo_ranges,
     interest_ranges = demo_interest_ranges,
     interest_sealed = (\<lambda>i. i\<lparr>i_name := i_name i @ [GComp 2 ''digest'']\<rparr>),
     interest_digest_valid = (\<lambda>i. list_ex (\<lambda>c. gc_type c = 2) (i_name i))\<rparr>"

lemma demo_simps [simp]:
  "nameComponentMax demo = 65535" "comp_type demo = gc_type" "comp_string demo = gc_text"
  "comp_of_type demo t = GComp t []" "comp_of_string demo = GComp 8"
  "comp_of_number demo n = GComp 8 (digits_of n)" "comp_of_version demo n = GComp 54 (digits_of n)"
  "comp_of_timestamp demo n = GComp 56 (digits_of n)"
  "name_uri demo nm = (if nm = [] then ''/'' else concat (map (\<lambda>c. CHR ''/'' # demo_uri c) nm))"
  "interest_sealed demo i = i\<lparr>i_name := i_name i @ [GComp 2 ''digest'']\<rparr>"
  "interest_digest_valid demo i = list_ex (\<lambda>c. gc_type c = 2) (i_name i)"
  by (simp_all add: demo_def)

lemma name_laws_demo: "name_laws demo"
  by (simp add: name_laws_def)

lemma tlv_laws_demo: "tlv_laws demo"
proof -
  have list: "run_decoder (dec_list dec_block) (enc_list enc_block es) = Inr es" for es
    by (intro run_decoder_enc codes_list codes_block)
  have nat: "run_decoder dec_nat (enc_nat n) = Inr n" for n
    by (intro run_decoder_enc codes_nat)
  have blk: "run_decoder dec_block (enc_block b) = Inr b" for b
    by (intro run_decoder_enc codes_block)
  have nm: "run_decoder dec_name (enc_name n) = Inr n" for n
    by (intro run_decoder_enc codes_name)
  show ?thesis
    unfolding tlv_laws_def using list nat blk nm by (simp add: demo_def o_def)
qed

lemma packet_laws_demo: "packet_laws demo"
proof -
  have d: "run_decoder dec_data (enc_data d) = Inr d" for d
    by (intro run_decoder_enc codes_data)
  have list: "run_decoder (dec_list dec_block) (enc_list enc_block es) = Inr es" for es
    by (intro run_decoder_enc codes_list codes_block)
  show ?thesis
    unfolding packet_laws_def using d list
    by (simp add: demo_def block_with_def demo_ranges_def demo_interest_ranges_def)
qed

end
