(* ===== verification/Library_Instances.thy ===== *)
theory Library_Instances
  imports Schema Bls_Helpers Ndn_Instance
begin

text \<open>
  Concrete functions for the other two libraries the model is parameterised by: a property
  tree with a text form that reads back (\<open>ptree_laws_demo\<close>), and a signature scheme whose
  keys, signatures and their sums are numbers paired with the message
  (\<open>bls_laws_demo\<close>). Only the witnesses use them.
\<close>

section \<open>A property tree\<close>

datatype ptree = PT (pt_text: string) (pt_kids: "(string \<times> ptree) list")

lemma ptree_kid_size: "x \<in> set ch \<Longrightarrow> size (snd x) \<le> size_list (size_prod (\<lambda>_. 0) size) ch"
  by (induction ch) auto

lemma ptree_kid_term [termination_simp]:
  "x \<in> set ch \<Longrightarrow> size (snd x) < Suc (size_list (\<lambda>x. Suc (size (snd x))) ch)"
  by (induction ch) auto

fun ser :: "ptree \<Rightarrow> bytes" where
  "ser (PT d ch) = enc_string d @ enc_nat (length ch) @ concat (map (\<lambda>p. enc_string (fst p) @ ser (snd p)) ch)"

primrec deser :: "nat \<Rightarrow> ptree decoder" where
  "deser 0 bs = None"
| "deser (Suc k) bs = (case dec_string bs of None \<Rightarrow> None
     | Some (d, r) \<Rightarrow> map_option (\<lambda>(ch, r). (PT d ch, r)) (dec_list (dec_pair dec_string (deser k)) r))"

lemma deser_ser: "size t < k \<Longrightarrow> deser k (ser t @ r) = Some (t, r)"
proof (induction t arbitrary: k r rule: ser.induct)
  case (1 d ch)
  then obtain n where k: "k = Suc n" by (cases k) auto
  have step: "dec_pair dec_string (deser n) ((enc_string (fst p) @ ser (snd p)) @ r) = Some (p, r)"
    if "p \<in> set ch" for p r
  proof -
    have "size (snd p) < n"
      using ptree_kid_size [OF that] "1.prems" k by simp
    then have "deser n (ser (snd p) @ r) = Some (snd p, r)" using "1.IH" [OF that] by blast
    then show ?thesis using codesD [OF codes_string] by (simp add: dec_pair_def)
  qed
  have "dec_times (length ch) (dec_pair dec_string (deser n))
      (concat (map (\<lambda>p. enc_string (fst p) @ ser (snd p)) ch) @ r) = Some (ch, r)"
    using step by (rule dec_times_all)
  then show ?case
    using codesD [OF codes_string] codesD [OF codes_nat] by (simp add: k dec_list_def)
qed

fun upd_kid :: "string \<Rightarrow> string \<Rightarrow> (string \<times> ptree) list \<Rightarrow> (string \<times> ptree) list" where
  "upd_kid k v [] = [(k, PT v [])]"
| "upd_kid k v ((k', t) # ch) = (if k' = k then (k, PT v (pt_kids t)) # ch else (k', t) # upd_kid k v ch)"

definition demo_put :: "ptree \<Rightarrow> string \<Rightarrow> string \<Rightarrow> ptree" where
  "demo_put t k v = (if k = [] then PT v (pt_kids t) else PT (pt_text t) (upd_kid k v (pt_kids t)))"

definition demo_write :: "ptree \<Rightarrow> string" where
  "demo_write t = map char_of_byte (enc_nat (Suc (size t)) @ ser t)"

definition demo_read :: "string \<Rightarrow> ptree res" where
  "demo_read s = (case dec_nat (map byte_of_char s) of None \<Rightarrow> Inl (Throws ''malformed'')
     | Some (k, r) \<Rightarrow> run_decoder (deser k) r)"

definition demo_pt :: "ptree ptree_api" where
  "demo_pt = \<lparr>pt_nonempty = (\<lambda>t. pt_kids t \<noteq> []),
     pt_get = (\<lambda>t k d. case map_of (pt_kids t) k of Some c \<Rightarrow> pt_text c | None \<Rightarrow> d),
     pt_get_int = (\<lambda>t k d. case map_of (pt_kids t) k of
        Some c \<Rightarrow> (case stoi (pt_text c) of Inr i \<Rightarrow> i | Inl _ \<Rightarrow> d) | None \<Rightarrow> d),
     pt_child = (\<lambda>t k. map_of (pt_kids t) k),
     pt_children = pt_kids, pt_data = pt_text, pt_new = PT [] [],
     pt_put = demo_put, pt_put_num = (\<lambda>t k n. demo_put t k (digits_of n)),
     pt_add_child = (\<lambda>t k c. PT (pt_text t) (pt_kids t @ [(k, c)])),
     pt_push_back = (\<lambda>t k c. PT (pt_text t) (pt_kids t @ [(k, c)])),
     read_json_file = (\<lambda>_. Inl (Throws ''no such file'')), read_json_text = demo_read,
     read_info_file = (\<lambda>_. Inl (Throws ''no such file'')), read_info_text = demo_read,
     write_info = demo_write\<rparr>"

lemma demo_read_write: "demo_read (demo_write t) = Inr t"
proof -
  have "deser (Suc (size t)) (ser t @ []) = Some (t, [])" by (rule deser_ser) simp
  then show ?thesis
    using codesD [OF codes_nat, of "Suc (size t)" "ser t"]
    by (simp add: demo_read_def demo_write_def run_decoder_def o_def)
qed

lemma upd_kid_lookup: "map_of (upd_kid k v ch) k' =
    (if k' = k then Some (PT v (case map_of ch k of Some t \<Rightarrow> pt_kids t | None \<Rightarrow> [])) else map_of ch k')"
  by (induction ch) auto

lemma upd_kid_ne: "upd_kid k v ch \<noteq> []"
  by (cases "(k, v, ch)" rule: upd_kid.cases) auto

lemma config_key_ne: "k \<in> config_keys \<Longrightarrow> k \<noteq> []"
  by (auto simp: config_keys_def config_defs)

lemma ptree_laws_demo: "ptree_laws demo_pt"
  unfolding ptree_laws_def
  by (auto simp: demo_pt_def demo_put_def upd_kid_lookup upd_kid_ne map_of_append map_add_def stoi_digits_of
      dest: config_key_ne split: option.split)

section \<open>A signature scheme\<close>

text \<open>
  A signature is the sum of the keys that made it and the message, and is well-formed only when
  the two summands of an addition were made for the same message.
\<close>

definition demo_bls :: "(nat, nat, nat \<times> bytes) bls_api" where
  "demo_bls = \<lparr>blsInit = 0, blsGetPublicKey = (\<lambda>k. k), blsSign = (\<lambda>k m. (k, m)),
     blsVerify = (\<lambda>s pk m. if s = (pk, m) then 1 else 0),
     blsPublicKeyAdd = (+),
     blsSignatureAdd = (\<lambda>s t. (fst s + fst t, if snd s = snd t then snd s else [])),
     blsSignatureSerialize = (\<lambda>_. enc_pair enc_nat enc_bytes),
     blsSignatureDeserialize = (\<lambda>old bs. case run_decoder (dec_pair dec_nat dec_bytes) bs of
        Inr s \<Rightarrow> s | Inl _ \<Rightarrow> old),
     blsPublicKeySerialize = (\<lambda>_. enc_nat), sig_uninit = (0, []), pk_uninit = 0\<rparr>"

lemma bls_laws_demo: "bls_laws demo_bls (+)"
  using run_decoder_enc [OF codes_pair [OF codes_nat codes_bytes]]
  by (simp add: bls_laws_def demo_bls_def)

end
