(* ===== verification/Witnesses.thy ===== *)
theory Witnesses
  imports Schema_Container Library_Instances
begin

text \<open>
  For each property with hypotheses, a concrete input that satisfies them: the property is
  applied there, with the functions of \<open>Ndn_Instance\<close> and \<open>Library_Instances\<close> for the
  libraries. The section names follow the components.
\<close>

section \<open>A small policy\<close>

definition pat :: "string \<Rightarrow> nat \<Rightarrow> gcomp wildcard" where
  "pat s n = \<lparr>m_name = [GComp 8 s, GComp 65534 []], m_times = n\<rparr>"

definition key :: "string \<Rightarrow> string \<Rightarrow> gcomp name" where
  "key s k = [GComp 8 s, GComp 8 k]"

definition demo_schema :: "gcomp schema" where
  "demo_schema = \<lparr>m_pktName = pat ''data'' 1, m_ruleId = ''rule1'', m_signers = [pat ''a'' 2],
     m_optionalSigners = [pat ''b'' 1, pat ''c'' 1], m_minOptionalSigners = 1\<rparr>"

definition demo_container :: "(gcomp, nat) container" where
  "demo_container = \<lparr>m_schemas = [demo_schema],
     m_trustedIds = [(key ''a'' ''1'', 1), (key ''a'' ''2'', 2), (key ''a'' ''3'', 3), (key ''b'' ''1'', 4), (key ''c'' ''1'', 5)],
     m_unavailableSigners = []\<rparr>"

lemma key_eq [simp]: "key s k = key t l \<longleftrightarrow> s = t \<and> k = l"
  by (simp add: key_def)

lemma key_ne [simp]: "key s k \<noteq> []" "[] \<noteq> key s k"
  by (simp_all add: key_def)

lemma match_pat [simp]: "wc_match demo (pat s n) (key t k) \<longleftrightarrow> s = t"
  by (simp add: wc_match_list_all2 comp_matches_def WILDCARD_NAME_TYPE_def pat_def key_def)

lemma times_pat [simp]: "m_times (pat s n) = n" "(pat s n)\<lparr>m_times := k\<rparr> = pat s k"
  by (simp_all add: pat_def)

lemma key_less [simp]: "key s k \<le> key t l \<longleftrightarrow> GComp 8 s < GComp 8 t \<or> s = t \<and> GComp 8 k \<le> GComp 8 l"
  by (auto simp: key_def le_less)

lemmas policy_eval = demo_schema_def demo_container_def getAvailableSigners_def getMatchedKeys_def
  sset_insert_def sset_count_def sset_erase_def sset_of_list_def less_eq_gcomp_def less_gcomp_def Let_def
  numeral_2_eq_2

lemma demo_selection: "getAvailableSigners demo demo_container demo_schema =
    Inr [key ''a'' ''1'', key ''a'' ''2'', key ''b'' ''1'']"
  by (simp add: policy_eval)

lemma demo_replacement: "replaceSigner demo demo_container
      [key ''a'' ''1'', key ''a'' ''2'', key ''b'' ''1''] (key ''a'' ''1'') demo_schema =
    (demo_container\<lparr>m_unavailableSigners := [key ''a'' ''1'']\<rparr>,
     [key ''a'' ''2'', key ''a'' ''3'', key ''b'' ''1'', key ''c'' ''1''], [key ''a'' ''3'', key ''c'' ''1''])"
  by (simp add: policy_eval replaceSigner_def findANewKeyForPattern_def count_matching_eq)

lemma demo_passes: "passSchema demo demo_schema [key ''a'' ''1'', key ''a'' ''2'', key ''b'' ''1'']"
  by (simp add: passSchema_iff demo_schema_def required_met_def)

lemma demo_no_empty_name: "trusted_key demo_container [] = None"
  by (simp add: trusted_key_def demo_container_def)

section \<open>Patterns and schemas\<close>

theorem WildCardName_of_render_witness:
  "WildCardName_of_string demo (render_pattern (Some 3) [''a'', ''*'']) =
    Inr \<lparr>m_name = [GComp 8 ''a'', GComp 65534 []], m_times = 3\<rparr>"
  using WildCardName_of_render [of "[''a'', ''*'']" demo "Some 3"]
  by (simp add: pattern_component_def WILDCARD_NAME_TYPE_def)

theorem passSchema_distinct_iff_witness:
  "2 \<le> card {n \<in> {key ''a'' ''1'', key ''a'' ''2'', key ''b'' ''1''}. wc_match demo (pat ''a'' 2) n}"
  using passSchema_distinct_iff [of "[key ''a'' ''1'', key ''a'' ''2'', key ''b'' ''1'']" demo demo_schema]
    demo_passes
  by (simp add: demo_schema_def)

theorem passSchema_superset_witness:
  "passSchema demo demo_schema [key ''c'' ''1'', key ''b'' ''1'', key ''a'' ''2'', key ''a'' ''1'', key ''a'' ''1'']"
  using passSchema_superset [OF demo_passes, of "[key ''c'' ''1'', key ''b'' ''1'', key ''a'' ''2'', key ''a'' ''1'', key ''a'' ''1'']"]
  by simp

theorem passSchema_counts_repetitions_witness:
  "passSchema demo \<lparr>m_pktName = pat ''data'' 1, m_ruleId = ''r'', m_signers = [pat ''a'' 3],
     m_optionalSigners = [], m_minOptionalSigners = 0\<rparr> [key ''a'' ''1'', key ''a'' ''1'', key ''a'' ''1'']"
  using passSchema_counts_repetitions [of demo "pat ''a'' 1" "key ''a'' ''1''" "pat ''data'' 1" "''r''" 3]
  by (simp add: numeral_3_eq_3)

lemma demo_uri_join:
  "us \<noteq> [] \<Longrightarrow> concat (map (\<lambda>c. CHR ''/'' # demo_uri c) (map (GComp 8) us)) = CHR ''/'' # join_slash us"
  by (induction us rule: join_slash.induct) (simp_all add: demo_uri_def)

lemma uri_laws_demo: "uri_laws demo"
proof -
  have "\<exists>u. name_uri demo n = CHR ''/'' # u" for n by (cases n) auto
  then show ?thesis unfolding uri_laws_def using demo_uri_join by simp
qed

lemma demo_reloadable:
  assumes "m_ruleId s \<noteq> []" and "m_minOptionalSigners s < 2 ^ 31"
  shows "reloadable demo demo_pt s"
proof -
  have "read_info_text demo_pt (toString demo demo_pt s) = Inr (toSection demo demo_pt s)"
    using demo_read_write by (simp add: demo_pt_def toString_def)
  moreover have "\<exists>w. read_info_file demo_pt (toString demo demo_pt s) = Inl (Throws w)"
    by (simp add: demo_pt_def)
  ultimately show ?thesis
    unfolding reloadable_def using ptree_laws_demo uri_laws_demo assms by blast
qed

definition plain_schema :: "gcomp schema" where
  "plain_schema = \<lparr>m_pktName = \<lparr>m_name = key ''a'' ''b'', m_times = 1\<rparr>, m_ruleId = ''rule1'',
     m_signers = [\<lparr>m_name = key ''c'' ''1'', m_times = 1\<rparr>],
     m_optionalSigners = [\<lparr>m_name = key ''d'' ''1'', m_times = 1\<rparr>], m_minOptionalSigners = 1\<rparr>"

lemma plain_key:
  assumes "plain_text s" and "plain_text k"
  shows "plain_name demo (key s k)"
  unfolding plain_name_def using assms by (intro exI [of _ "[s, k]"]) (simp add: key_def)

text \<open>The second schema asks for two signers under a name; it is read back with one.\<close>

theorem fromINFO_toString_roundtrip_witness:
  "fromINFO demo demo_pt (toString demo demo_pt plain_schema) = Inr plain_schema \<and>
   fromINFO demo demo_pt (toString demo demo_pt (plain_schema\<lparr>m_signers := [\<lparr>m_name = key ''c'' ''1'', m_times = 2\<rparr>]\<rparr>)) =
     Inr plain_schema"
proof -
  let ?two = "plain_schema\<lparr>m_signers := [\<lparr>m_name = key ''c'' ''1'', m_times = 2\<rparr>]\<rparr>"
  have texts: "plain_text ''a''" "plain_text ''b''" "plain_text ''c''" "plain_text ''d''" "plain_text ''1''"
    by (simp_all add: plain_text_def unreserved_def)
  have ok: "reloadable demo demo_pt plain_schema" "reloadable demo demo_pt ?two"
    by (rule demo_reloadable; simp add: plain_schema_def)+
  have plain: "\<forall>p \<in> schema_patterns plain_schema. plain_name demo (m_name p)"
    "\<forall>p \<in> schema_patterns ?two. plain_name demo (m_name p)"
    using texts by (simp_all add: schema_patterns_def plain_schema_def plain_key)
  have "\<forall>p \<in> schema_patterns plain_schema. m_times p = 1"
    by (simp add: schema_patterns_def plain_schema_def)
  moreover have "single_schema ?two = plain_schema"
    by (simp add: single_schema_def plain_schema_def single_def)
  ultimately show ?thesis
    using fromINFO_toString_roundtrip [OF ok(1) plain(1)] fromINFO_toString_roundtrip [OF ok(2) plain(2)] by metis
qed

theorem fromINFO_toString_drops_times_witness:
  "\<exists>s'. fromINFO demo demo_pt (toString demo demo_pt demo_schema) = Inr s' \<and>
    list_all (\<lambda>p. m_times p = 1) (m_signers s') \<and> length (m_signers s') = 1 \<and>
    list_ex (\<lambda>p. m_times p = 2) (m_signers demo_schema)"
  using fromINFO_toString_drops_times [of demo demo_pt demo_schema, OF demo_reloadable]
  by (auto simp: demo_schema_def list_all_iff)

text \<open>The wildcard component is printed as its type and an empty value.\<close>

theorem toString_loses_wildcards_witness:
  "\<exists>s'. fromINFO demo demo_pt (toString demo demo_pt demo_schema) = Inr s' \<and>
     schema_match demo demo_schema (key ''data'' ''7'') \<and> \<not> schema_match demo s' (key ''data'' ''7'')"
proof -
  have d: "digits_of 65534 = ''65534''" by (simp add: digits_of.simps) code_simp
  have uri: "name_uri demo (m_name (m_pktName demo_schema)) = CHR ''/'' # join_slash [''data'', ''65534='']"
    by (simp add: demo_schema_def pat_def demo_uri_def d)
  obtain s' where "fromINFO demo demo_pt (toString demo demo_pt demo_schema) = Inr s'"
    "\<forall>n. schema_match demo s' n \<longleftrightarrow> map (comp_string demo) n = [''data'', ''65534='']"
    using toString_loses_wildcards [OF demo_reloadable name_laws_demo uri] by (auto simp: demo_schema_def)
  moreover have "schema_match demo demo_schema (key ''data'' ''7'')"
    by (simp add: schema_match_def demo_schema_def)
  ultimately show ?thesis by (auto simp: key_def)
qed

section \<open>Signatures\<close>

lemma demo_info: "si_type (bls_sig_info (key ''i'' ''1'')) = SignatureSha256WithBls"
  by (simp add: bls_sig_info_def)

theorem aggregate_bufs_eq_witness:
  "ndnBLSAggregateSignature_bufs demo_bls
     (map (blsSignatureSerialize demo_bls encodingBuf_size) [(1, [7]), (2, [7])]) =
   Inr (blsSignatureSerialize demo_bls encodingBuf_size (3, [7]))"
  using aggregate_bufs_eq [OF bls_laws_demo, of "[(1, [7]), (2, [7])]"]
  by (simp add: ndnBLSAggregateSignature_def demo_bls_def)

theorem ndnBLSSign_data_verifies_witness:
  "\<exists>d'. ndnBLSSign_data demo demo_bls 5 (new_data (key ''d'' ''1'')) (key ''i'' ''1'') = Inr d' \<and>
    d_name d' = key ''d'' ''1'' \<and> ndnBLSVerify_data demo demo_bls 5 d' = Inr True"
proof -
  have "blsGetPublicKey demo_bls 5 = 5" by (simp add: demo_bls_def)
  moreover obtain d' where "ndnBLSSign_data demo demo_bls 5 (new_data (key ''d'' ''1'')) (key ''i'' ''1'') = Inr d'"
    "d_name d' = d_name (new_data (key ''d'' ''1''))" "ndnBLSVerify_data demo demo_bls (blsGetPublicKey demo_bls 5) d' = Inr True"
    using ndnBLSSign_data_verifies [OF bls_laws_demo packet_laws_demo] by blast
  ultimately show ?thesis by (auto simp: new_data_def)
qed

theorem ndnBLSSign_interest_verifies_witness:
  "\<exists>i'. ndnBLSSign_interest_info demo demo_bls 5 (new_interest (key ''d'' ''1'')) (bls_sig_info (key ''i'' ''1'')) = Inr i' \<and>
    ndnBLSVerify_interest demo demo_bls (blsGetPublicKey demo_bls 5) i' = Inr True"
  by (rule ndnBLSSign_interest_verifies [OF bls_laws_demo packet_laws_demo demo_info])

theorem multi_signature_verifies_witness:
  "\<exists>agg. ndnBLSVerify_data_keys demo demo_bls [1, 2, 3]
     ((new_data (key ''d'' ''1''))\<lparr>d_sigInfo := Some (bls_sig_info (key ''i'' ''1'')), d_sigValue := agg\<rparr>) = Inr True"
  using multi_signature_verifies [OF bls_laws_demo packet_laws_demo demo_info, of "[1, 2, 3]" "new_data (key ''d'' ''1'')"]
  by (auto simp: demo_bls_def)

section \<open>Selection and replacement\<close>

abbreviation "demo_signers \<equiv> [key ''a'' ''1'', key ''a'' ''2'', key ''b'' ''1'']"

lemma demo_usable: "usable demo_container n \<longleftrightarrow>
    n \<in> {key ''a'' ''1'', key ''a'' ''2'', key ''a'' ''3'', key ''b'' ''1'', key ''c'' ''1''}"
  by (auto simp: usable_def trusted_key_None demo_container_def)

theorem getAvailableSigners_sound_witness:
  "passSchema demo demo_schema demo_signers \<and> sorted demo_signers"
  using getAvailableSigners_sound [OF demo_selection] by blast

theorem getAvailableSigners_iff_witness:
  "\<exists>rs. getAvailableSigners demo demo_container demo_schema = Inr rs"
proof -
  have "distinct demo_signers \<and> (\<forall>y \<in> set demo_signers. usable demo_container y) \<and>
      passSchema demo demo_schema demo_signers"
    using demo_passes by (simp add: demo_usable)
  then show ?thesis using getAvailableSigners_iff [of demo demo_container demo_schema] by blast
qed

lemma demo_optional_a: "\<forall>p \<in> set (m_optionalSigners demo_schema). \<not> wc_match demo p (key ''a'' ''1'')"
  by (simp add: demo_schema_def)

theorem replaceSigner_required_passes_witness:
  "passSchema demo demo_schema [key ''a'' ''2'', key ''a'' ''3'', key ''b'' ''1'', key ''c'' ''1'']"
  using replaceSigner_required_passes [OF demo_replacement demo_no_empty_name _ demo_passes demo_optional_a]
  by simp

theorem replaceSigner_complete_witness:
  "\<exists>c' new diff. replaceSigner demo demo_container demo_signers (key ''a'' ''1'') demo_schema = (c', new, diff) \<and>
     passSchema demo demo_schema new"
proof -
  have "length (filter (\<lambda>p. wc_match demo p (key ''a'' ''1'')) (m_optionalSigners demo_schema)) \<le> 1"
    by (simp add: demo_schema_def)
  note R = replaceSigner_complete [OF demo_replacement demo_no_empty_name _ demo_passes this]
  let ?new = "[key ''a'' ''2'', key ''a'' ''3'', key ''b'' ''1'', key ''c'' ''1'']"
  have "distinct ?new \<and> (\<forall>y \<in> set ?new. y \<noteq> key ''a'' ''1'' \<and> (y \<in> set demo_signers \<or> usable demo_container y)) \<and>
      passSchema demo demo_schema ?new"
    by (simp add: demo_usable passSchema_iff demo_schema_def required_met_def)
  then have "passSchema demo demo_schema ?new" using R by blast
  then show ?thesis using demo_replacement by blast
qed

theorem replaceSigner_decreases_witness:
  "card (usable_keys (demo_container\<lparr>m_unavailableSigners := [key ''a'' ''1'']\<rparr>)) < card (usable_keys demo_container)"
  by (rule conjunct2 [OF replaceSigner_decreases [OF demo_replacement]]) (simp add: demo_usable)

theorem selected_signers_pass_witness:
  "container_passSchema demo demo_container (key ''data'' ''7'') demo_signers"
  by (rule selected_signers_pass [OF demo_selection]) (simp add: demo_container_def demo_schema_def schema_match_def)

text \<open>Two rules for the same packets; the signers satisfy the second and not the first.\<close>

theorem container_first_rule_only_witness:
  "\<exists>second. m_schemas (demo_container\<lparr>m_schemas := [demo_schema, second]\<rparr>) = [demo_schema, second] \<and>
     schema_match demo second (key ''data'' ''7'') \<and> passSchema demo second [key ''b'' ''1''] \<and>
     \<not> container_passSchema demo (demo_container\<lparr>m_schemas := [demo_schema, second]\<rparr>) (key ''data'' ''7'') [key ''b'' ''1'']"
proof (intro exI conjI)
  let ?second = "demo_schema\<lparr>m_signers := []\<rparr>"
  show "m_schemas (demo_container\<lparr>m_schemas := [demo_schema, ?second]\<rparr>) = [demo_schema, ?second]" by simp
  show "schema_match demo ?second (key ''data'' ''7'')" by (simp add: schema_match_def demo_schema_def)
  show "passSchema demo ?second [key ''b'' ''1'']"
    by (simp add: passSchema_iff demo_schema_def required_met_def)
  show "\<not> container_passSchema demo (demo_container\<lparr>m_schemas := [demo_schema, ?second]\<rparr>) (key ''data'' ''7'') [key ''b'' ''1'']"
    by (rule container_first_rule_only [where schema = demo_schema and rest = "[?second]"])
      (simp_all add: schema_match_def demo_schema_def passSchema_iff required_met_def)
qed

abbreviation "lax_schema \<equiv> demo_schema\<lparr>m_minOptionalSigners := 0\<rparr>"

theorem getAvailableSigners_takes_unneeded_witness:
  "getAvailableSigners demo demo_container lax_schema = Inr demo_signers \<and>
   passSchema demo lax_schema [key ''a'' ''1'', key ''a'' ''2'']"
proof -
  have 1: "getAvailableSigners demo demo_container (lax_schema\<lparr>m_optionalSigners := []\<rparr>) =
      Inr [key ''a'' ''1'', key ''a'' ''2'']"
    and 2: "getMatchedKeys demo demo_container (pat ''b'' 1) = [key ''b'' ''1'']"
    by (simp_all add: policy_eval)
  have 3: "m_optionalSigners lax_schema = pat ''b'' 1 # [pat ''c'' 1]" by (simp add: demo_schema_def)
  show ?thesis
    using getAvailableSigners_takes_unneeded [OF 1 _ 3 _ 2] by (simp add: policy_eval)
qed

theorem replaceSigner_keeps_failing_list_witness:
  "\<exists>c'. replaceSigner demo demo_container [key ''c'' ''1'', key ''b'' ''1''] (key ''c'' ''1'')
       (demo_schema\<lparr>m_signers := [], m_optionalSigners := [pat ''c'' 1]\<rparr>) = (c', [key ''b'' ''1''], [])"
proof -
  let ?s = "demo_schema\<lparr>m_signers := [], m_optionalSigners := [pat ''c'' 1]\<rparr>"
  have "\<forall>n. usable demo_container n \<and> wc_match demo (pat ''c'' 1) n \<longrightarrow> n = key ''c'' ''1''"
    by (auto simp: demo_usable)
  then show ?thesis
    using replaceSigner_keeps_failing_list [of ?s "pat ''c'' 1" demo "key ''c'' ''1''" "key ''b'' ''1''" demo_container]
    by (simp add: demo_schema_def)
qed

theorem aggregateKey_eq_witness:
  "aggregateKey demo_bls demo_container demo_signers = Inr 7"
  using aggregateKey_eq [of demo_bls demo_container demo_signers]
  by (simp add: trusted_key_def demo_container_def ndnBLSAggregatePublicKey_def demo_bls_def)

end
