(* ===== verification/Crypto_Helpers.thy ===== *)
theory Crypto_Helpers
  imports Ndn_Api
begin

unbundle bit_operations_syntax

text \<open>
  \<^verbatim>\<open>crypto-helpers.cpp\<close>: the ECDH state, HMAC, HKDF, AES-GCM and the TLV block that
  carries an encrypted payload. OpenSSL is the parameter record \<open>ossl_api\<close>, its result
  codes included, because the code tests some of them and ignores others; what its
  documentation promises is \<open>ossl_laws\<close>. Bytes of the random generator are a function from
  their index. A read beyond the end of a TLV value is \<open>Undefined\<close>.
\<close>

section \<open>The library\<close>

record 'priv ossl_api =
  evp_keygen :: "nat \<Rightarrow> int \<times> 'priv"
  evp_get1_ec_key :: "'priv \<Rightarrow> bool"
  point2oct_len :: "'priv \<Rightarrow> nat"
  point2oct :: "'priv \<Rightarrow> nat \<Rightarrow> bytes \<times> nat"
  evp_derive_len :: "'priv \<Rightarrow> bytes \<Rightarrow> nat"
  evp_derive :: "'priv \<Rightarrow> bytes \<Rightarrow> nat \<Rightarrow> bytes \<times> int"
  ossl_HMAC :: "bytes \<Rightarrow> bytes \<Rightarrow> bytes option"
  hkdf_derive :: "bytes \<Rightarrow> bytes \<Rightarrow> bytes \<Rightarrow> nat \<Rightarrow> bytes \<times> int"
  gcm_encrypt :: "bytes \<Rightarrow> bytes \<Rightarrow> bytes \<Rightarrow> bytes \<Rightarrow> bytes \<times> bytes \<times> int"
  gcm_decrypt :: "bytes \<Rightarrow> bytes \<Rightarrow> bytes \<Rightarrow> bytes \<Rightarrow> bytes \<Rightarrow> bytes \<times> int"
  base64_stream :: "bytes \<Rightarrow> bool \<Rightarrow> string"

text \<open>
  The laws: generated keys can be exported and two of them derive the same secret from each
  other's public key; HKDF fills its output; AES-GCM keeps the length, makes a tag of 16 bytes
  and decrypts what it encrypted under a key of 16 and a vector of 12 bytes.
\<close>

definition ossl_pub :: "('priv, 'y) ossl_api_scheme \<Rightarrow> 'priv \<Rightarrow> bytes" where
  "ossl_pub ossl k = fst (point2oct ossl k (point2oct_len ossl k))"

definition ossl_secret :: "('priv, 'y) ossl_api_scheme \<Rightarrow> 'priv \<Rightarrow> bytes \<Rightarrow> bytes" where
  "ossl_secret ossl k peer = fst (evp_derive ossl k peer (evp_derive_len ossl k peer))"

definition ossl_laws :: "('priv, 'y) ossl_api_scheme \<Rightarrow> bool" where
  "ossl_laws ossl \<longleftrightarrow>
     (\<forall>r. 0 < fst (evp_keygen ossl r)) \<and>
     (\<forall>k. evp_get1_ec_key ossl k) \<and>
     (\<forall>k. snd (point2oct ossl k (point2oct_len ossl k)) \<noteq> 0) \<and>
     (\<forall>k peer. 0 < snd (evp_derive ossl k (ossl_pub ossl peer) (evp_derive_len ossl k (ossl_pub ossl peer)))) \<and>
     (\<forall>a b. ossl_secret ossl a (ossl_pub ossl b) = ossl_secret ossl b (ossl_pub ossl a)) \<and>
     (\<forall>s salt info n. length (fst (hkdf_derive ossl s salt info n)) = n \<and>
        0 < snd (hkdf_derive ossl s salt info n)) \<and>
     (\<forall>key iv aad pt ct tag rc. length key = 16 \<longrightarrow> length iv = 12 \<longrightarrow>
        gcm_encrypt ossl key iv aad pt = (ct, tag, rc) \<longrightarrow>
        0 < rc \<and> length ct = length pt \<and> length tag = 16 \<and> gcm_decrypt ossl key iv aad tag ct = (pt, 1))"

lemma ossl_lawsD:
  assumes "ossl_laws ossl"
  shows ossl_keygen: "0 < fst (evp_keygen ossl r)"
    and ossl_ec_key: "evp_get1_ec_key ossl k"
    and ossl_point: "snd (point2oct ossl k (point2oct_len ossl k)) \<noteq> 0"
    and ossl_derive:
      "0 < snd (evp_derive ossl k (ossl_pub ossl peer) (evp_derive_len ossl k (ossl_pub ossl peer)))"
    and ossl_secret_sym: "ossl_secret ossl a (ossl_pub ossl b) = ossl_secret ossl b (ossl_pub ossl a)"
    and ossl_hkdf_length: "length (fst (hkdf_derive ossl s salt info n)) = n"
    and ossl_hkdf_ok: "0 < snd (hkdf_derive ossl s salt info n)"
    and ossl_gcm: "length key = 16 \<Longrightarrow> length iv = 12 \<Longrightarrow> gcm_encrypt ossl key iv aad pt = (ct, tag, rc) \<Longrightarrow>
      0 < rc \<and> length ct = length pt \<and> length tag = 16 \<and> gcm_decrypt ossl key iv aad tag ct = (pt, 1)"
  using assms unfolding ossl_laws_def by blast+

section \<open>The functions\<close>

record 'priv ecdh_state =
  m_privkey :: 'priv
  m_pubKey :: bytes
  m_secret :: bytes

definition ECDHState_new :: "('priv, 'y) ossl_api_scheme \<Rightarrow> nat \<Rightarrow> 'priv ecdh_state res" where
  "ECDHState_new ossl randomness = (case evp_keygen ossl randomness of (resultCode, key) \<Rightarrow>
     (if resultCode \<le> 0 then Inl (Throws ''Error in initiating ECDH'')
      else Inr \<lparr>m_privkey = key, m_pubKey = [], m_secret = []\<rparr>))"

definition getSelfPubKey ::
  "('priv, 'y) ossl_api_scheme \<Rightarrow> 'priv ecdh_state \<Rightarrow> ('priv ecdh_state \<times> bytes) res" where
  "getSelfPubKey ossl st =
     (if \<not> evp_get1_ec_key ossl (m_privkey st)
      then Inl (Throws ''Could not get key when calling EVP_PKEY_get1_EC_KEY()'')
      else (case point2oct ossl (m_privkey st) (point2oct_len ossl (m_privkey st)) of (buf, written) \<Rightarrow>
        (if written = 0 then Inl (Throws ''Could not convert EC_POINTS to octet string'')
         else Inr (st\<lparr>m_pubKey := buf\<rparr>, buf))))"

text \<open>The private key is not tested for null here, and only the result code 0 is an error.\<close>

definition deriveSecret ::
  "('priv, 'y) ossl_api_scheme \<Rightarrow> 'priv ecdh_state \<Rightarrow> bytes \<Rightarrow> ('priv ecdh_state \<times> bytes) res" where
  "deriveSecret ossl st peerKey =
     (if \<not> evp_get1_ec_key ossl (m_privkey st) then Inl (Undefined ''EC_KEY_get0_group of a null key'')
      else (case evp_derive ossl (m_privkey st) peerKey (evp_derive_len ossl (m_privkey st) peerKey) of
        (secret, resultCode) \<Rightarrow>
          (if resultCode = 0 then Inl (Throws ''Error when calling ECDH'')
           else Inr (st\<lparr>m_secret := secret\<rparr>, secret))))"

definition hmacSha256 :: "('priv, 'y) ossl_api_scheme \<Rightarrow> bytes \<Rightarrow> bytes \<Rightarrow> bytes res" where
  "hmacSha256 ossl d key = (case ossl_HMAC ossl d key of
     None \<Rightarrow> Inl (Throws ''Error computing HMAC when calling HMAC()'') | Some r \<Rightarrow> Inr r)"

definition hkdf :: "('priv, 'y) ossl_api_scheme \<Rightarrow> bytes \<Rightarrow> bytes \<Rightarrow> nat \<Rightarrow> bytes \<Rightarrow> bytes res" where
  "hkdf ossl secret salt outputLen info = (case hkdf_derive ossl secret salt info outputLen of
     (out, resultCode) \<Rightarrow>
       (if resultCode = 0 then Inl (Throws ''Error when calling HKDF'') else Inr out))"

definition aesGcm128Encrypt ::
  "('priv, 'y) ossl_api_scheme \<Rightarrow> bytes \<Rightarrow> bytes \<Rightarrow> bytes \<Rightarrow> bytes \<Rightarrow> (bytes \<times> bytes) res" where
  "aesGcm128Encrypt ossl plaintext associated key iv =
     (case gcm_encrypt ossl key iv associated plaintext of (ciphertext, tag, resultCode) \<Rightarrow>
       (if resultCode = 0 then Inl (Throws ''Error in encryption plaintext with AES GCM'')
        else Inr (ciphertext, tag)))"

definition aesGcm128Decrypt ::
  "('priv, 'y) ossl_api_scheme \<Rightarrow> bytes \<Rightarrow> bytes \<Rightarrow> bytes \<Rightarrow> bytes \<Rightarrow> bytes \<Rightarrow> bytes res" where
  "aesGcm128Decrypt ossl ciphertext associated tag key iv =
     (case gcm_decrypt ossl key iv associated tag ciphertext of (plaintext, resultCode) \<Rightarrow>
       (if resultCode = 0 then Inl (Throws ''Error in decrypting ciphertext with AES GCM'')
        else Inr plaintext))"

text \<open>Four bytes in network order; an index past the end of the vector is undefined.\<close>

definition loadBigU32 :: "bytes \<Rightarrow> nat \<Rightarrow> 32 word res" where
  "loadBigU32 iv pos =
     (if length iv \<le> pos + 3 then Inl (Undefined ''iv[pos + 3]'')
      else Inr (push_bit 24 (ucast (iv ! pos)) OR push_bit 16 (ucast (iv ! (pos + 1))) OR
                push_bit 8 (ucast (iv ! (pos + 2))) OR ucast (iv ! (pos + 3))))"

definition tlv_EcdhPub :: nat where "tlv_EcdhPub = 145"
definition tlv_Salt :: nat where "tlv_Salt = 149"
definition tlv_InitializationVector :: nat where "tlv_InitializationVector = 157"
definition tlv_EncryptedPayload :: nat where "tlv_EncryptedPayload = 159"
definition tlv_AuthenticationTag :: nat where "tlv_AuthenticationTag = 175"

lemmas crypto_tlvs = tlv_EcdhPub_def tlv_Salt_def tlv_InitializationVector_def
  tlv_EncryptedPayload_def tlv_AuthenticationTag_def

text \<open>
  The elements pushed into the block; the acknowledgement of the signer pushes more of them
  behind these before it encodes the block again.
\<close>

definition encodeElements ::
  "('priv, 'y) ossl_api_scheme \<Rightarrow> (nat \<Rightarrow> byte) \<Rightarrow> bytes \<Rightarrow> bytes \<Rightarrow> bytes \<Rightarrow> block list res" where
  "encodeElements ossl rnd key payload associatedData =
     (let encryptionIv = map rnd [0..<8] @ replicate 4 0 in
      res_bind (aesGcm128Encrypt ossl payload associatedData key encryptionIv) (\<lambda>(encryptedPayload, tag).
        Inr [Blk tlv_InitializationVector encryptionIv, Blk tlv_AuthenticationTag tag,
             Blk tlv_EncryptedPayload encryptedPayload]))"

definition encodeBlockWithAesGcm128 ::
  "('c, 'z) tlv_api_scheme \<Rightarrow> ('priv, 'y) ossl_api_scheme \<Rightarrow> (nat \<Rightarrow> byte) \<Rightarrow> nat \<Rightarrow> bytes \<Rightarrow> bytes \<Rightarrow>
   bytes \<Rightarrow> block res" where
  "encodeBlockWithAesGcm128 api ossl rnd tlvType key payload associatedData =
     res_bind (encodeElements ossl rnd key payload associatedData) (\<lambda>es. Inr (block_with api tlvType es))"

text \<open>
  Twelve bytes are read from the vector and sixteen from the tag, whatever their sizes. The
  result buffer has the size of the encrypted payload.
\<close>

definition decodeBlockWithAesGcm128 ::
  "('c, 'z) tlv_api_scheme \<Rightarrow> ('priv, 'y) ossl_api_scheme \<Rightarrow> block \<Rightarrow> bytes \<Rightarrow> bytes \<Rightarrow> bytes res" where
  "decodeBlockWithAesGcm128 api ossl b key associatedData =
     res_bind (block_parse api b) (\<lambda>es.
     res_bind (tlv_get api es tlv_EncryptedPayload) (\<lambda>encryptedPayloadBlock.
     res_bind (tlv_get api es tlv_InitializationVector) (\<lambda>ivBlock.
       if length (blk_value ivBlock) < 12 then Inl (Undefined ''read past the initialization vector'')
       else res_bind (tlv_get api es tlv_AuthenticationTag) (\<lambda>tagBlock.
         if length (blk_value tagBlock) < 16 then Inl (Undefined ''read past the authentication tag'')
         else res_bind (aesGcm128Decrypt ossl (blk_value encryptedPayloadBlock) associatedData
                (take 16 (blk_value tagBlock)) key (take 12 (blk_value ivBlock))) (\<lambda>plaintext.
           if length plaintext \<noteq> length (blk_value encryptedPayloadBlock)
           then Inl (Throws ''Decrypted payload is of an unexpected size'')
           else Inr plaintext)))))"

definition base64EncodeFromBytes :: "('priv, 'y) ossl_api_scheme \<Rightarrow> bytes \<Rightarrow> bool \<Rightarrow> string" where
  "base64EncodeFromBytes ossl d needBreak = base64_stream ossl d needBreak"

text \<open>
  The keys of one request: 48 bytes of HKDF output, the first 16 for AES, the other 32, in
  base64, for the HMAC. Signer and initiator both contain this code.
\<close>

definition session_keys :: "('priv, 'y) ossl_api_scheme \<Rightarrow> bytes \<Rightarrow> bytes \<Rightarrow> (bytes \<times> string) res" where
  "session_keys ossl dhSecret salt =
     res_bind (hkdf ossl dhSecret salt 48 []) (\<lambda>aesAndHmac.
       Inr (take 16 aesAndHmac, base64EncodeFromBytes ossl (drop 16 aesAndHmac) False))"

section \<open>Correctness\<close>

lemma session_keys_ok:
  assumes "ossl_laws ossl"
  obtains aes hmac where "session_keys ossl secret salt = Inr (aes, hmac)" and "length aes = 16"
proof -
  obtain out rc where h: "hkdf_derive ossl secret salt [] 48 = (out, rc)" by (metis surj_pair)
  with ossl_hkdf_length [OF assms, of secret salt "[]" 48] ossl_hkdf_ok [OF assms, of secret salt "[]" 48] that
  show ?thesis by (simp add: session_keys_def hkdf_def)
qed

lemma getSelfPubKey_ok:
  assumes "ossl_laws ossl"
  shows "getSelfPubKey ossl st =
    Inr (st\<lparr>m_pubKey := ossl_pub ossl (m_privkey st)\<rparr>, ossl_pub ossl (m_privkey st))"
  using ossl_point [OF assms, of "m_privkey st"]
  by (auto simp: getSelfPubKey_def ossl_ec_key [OF assms] ossl_pub_def split: prod.split)

lemma deriveSecret_ok:
  assumes "ossl_laws ossl"
  shows "deriveSecret ossl st (ossl_pub ossl k) =
    Inr (st\<lparr>m_secret := ossl_secret ossl (m_privkey st) (ossl_pub ossl k)\<rparr>, ossl_secret ossl (m_privkey st) (ossl_pub ossl k))"
  using ossl_derive [OF assms, of "m_privkey st" k]
  by (auto simp: deriveSecret_def ossl_ec_key [OF assms] ossl_secret_def split: prod.split)

text \<open>
  Both ends of a key exchange derive the same secret. Two freshly generated states export
  their public keys, and each derives from the other's key the same bytes, without an error.
\<close>

theorem ecdh_agreement:
  assumes "ossl_laws ossl" and "ECDHState_new ossl r = Inr a" and "ECDHState_new ossl s = Inr b"
  shows "\<exists>a' b' pa pb secret a'' b''. getSelfPubKey ossl a = Inr (a', pa) \<and> getSelfPubKey ossl b = Inr (b', pb) \<and>
    deriveSecret ossl a' pb = Inr (a'', secret) \<and> deriveSecret ossl b' pa = Inr (b'', secret) \<and>
    m_secret a'' = secret \<and> m_secret b'' = secret"
  using getSelfPubKey_ok [OF assms(1), of a] getSelfPubKey_ok [OF assms(1), of b]
    deriveSecret_ok [OF assms(1)] ossl_secret_sym [OF assms(1), of "m_privkey a" "m_privkey b"] by simp

lemma encodeElements_ok:
  assumes "ossl_laws ossl" and "length key = 16"
  obtains ct tag where
    "encodeElements ossl rnd key payload ad = Inr [Blk tlv_InitializationVector (map rnd [0..<8] @ replicate 4 0),
       Blk tlv_AuthenticationTag tag, Blk tlv_EncryptedPayload ct]"
    and "length tag = 16" "length ct = length payload"
    and "gcm_decrypt ossl key (map rnd [0..<8] @ replicate 4 0) ad tag ct = (payload, 1)"
proof -
  let ?iv = "map rnd [0..<8] @ replicate 4 0"
  obtain ct tag rc where e: "gcm_encrypt ossl key ?iv ad payload = (ct, tag, rc)" by (metis surj_pair)
  have "length ?iv = 12" by simp
  note ossl_gcm [OF assms this e]
  with e that [of tag ct] show ?thesis by (simp add: encodeElements_def aesGcm128Encrypt_def)
qed

lemma decode_elements:
  assumes "tlv_laws api" and "ossl_laws ossl" and "length key = 16"
    and "encodeElements ossl rnd key payload ad = Inr es"
  shows "decodeBlockWithAesGcm128 api ossl (block_with api t (es @ extra)) key ad = Inr payload"
proof -
  obtain ct tag where
    es: "es = [Blk tlv_InitializationVector (map rnd [0..<8] @ replicate 4 0),
       Blk tlv_AuthenticationTag tag, Blk tlv_EncryptedPayload ct]"
    and len: "length tag = 16" "length ct = length payload"
    and dec: "gcm_decrypt ossl key (map rnd [0..<8] @ replicate 4 0) ad tag ct = (payload, 1)"
    using encodeElements_ok [OF assms(2,3), of rnd payload ad] assms(4) by (metis sum.inject(2))
  show ?thesis
    unfolding decodeBlockWithAesGcm128_def block_parse_with [OF assms(1)] es
    using len dec
    by (simp add: tlv_get_found [OF assms(1)] crypto_tlvs aesGcm128Decrypt_def)
qed

text \<open>
  C35: the encrypted block. Encoding a payload under a key of 16 bytes succeeds, gives a block of
  the requested type whose vector is 8 random bytes and 4 zeros, and decoding the block with the
  same key and associated data returns the payload.
\<close>

theorem encodeBlock_roundtrip:
  assumes "tlv_laws api" and "ossl_laws ossl" and "length key = 16"
  shows "\<exists>b es. encodeBlockWithAesGcm128 api ossl rnd t key payload ad = Inr b \<and> blk_type b = t \<and>
    block_parse api b = Inr es \<and>
    tlv_get api es tlv_InitializationVector =
      Inr (Blk tlv_InitializationVector (map rnd [0..<8] @ replicate 4 0)) \<and>
    decodeBlockWithAesGcm128 api ossl b key ad = Inr payload"
proof -
  obtain es where es: "encodeElements ossl rnd key payload ad = Inr es"
    and iv: "find (\<lambda>e. blk_type e = tlv_InitializationVector) es =
      Some (Blk tlv_InitializationVector (map rnd [0..<8] @ replicate 4 0))"
    by (rule encodeElements_ok [OF assms(2,3), of rnd payload ad]) simp
  have "decodeBlockWithAesGcm128 api ossl (block_with api t es) key ad = Inr payload"
    using decode_elements [OF assms es, of t "[]"] by simp
  then show ?thesis
    using tlv_get_found [OF assms(1) iv]
    by (simp add: encodeBlockWithAesGcm128_def es block_parse_with [OF assms(1)])
qed

text \<open>
  What a hostile block does to the decoder. A block without one of the three elements is
  refused with an exception, but one whose initialization vector has fewer than 12 bytes, or
  whose tag has fewer than 16, makes the decoder read past the end of the value.
\<close>

theorem decodeBlock_short_values:
  assumes "tlv_laws api"
  shows "\<exists>w. decodeBlockWithAesGcm128 api ossl (block_with api t [Blk tlv_EncryptedPayload p,
      Blk tlv_InitializationVector iv, Blk tlv_AuthenticationTag tag]) key ad =
    (if length iv < 12 \<or> length tag < 16 then Inl (Undefined w)
     else (case aesGcm128Decrypt ossl p ad (take 16 tag) key (take 12 iv) of Inl e \<Rightarrow> Inl e
       | Inr pt \<Rightarrow> if length pt \<noteq> length p then Inl (Throws w) else Inr pt))"
proof -
  let ?es = "[Blk tlv_EncryptedPayload p, Blk tlv_InitializationVector iv, Blk tlv_AuthenticationTag tag]"
  have get: "tlv_get api ?es tlv_EncryptedPayload = Inr (Blk tlv_EncryptedPayload p)"
    "tlv_get api ?es tlv_InitializationVector = Inr (Blk tlv_InitializationVector iv)"
    "tlv_get api ?es tlv_AuthenticationTag = Inr (Blk tlv_AuthenticationTag tag)"
    by (simp_all add: tlv_get_found [OF assms] crypto_tlvs)
  show ?thesis
    by (auto simp: decodeBlockWithAesGcm128_def block_parse_with [OF assms] get res_bind_def split: sum.split)
qed

lemma decodeBlock_missing:
  assumes "tlv_laws api" and "find (\<lambda>e. blk_type e = tlv_EncryptedPayload) es = None"
  shows "\<exists>w. decodeBlockWithAesGcm128 api ossl (block_with api t es) key ad = Inl (Throws w)"
  using tlv_get_missing [OF assms] by (auto simp: decodeBlockWithAesGcm128_def block_parse_with [OF assms(1)])

lemma nat_push_or:
  fixes x t :: nat
  assumes "t < 2 ^ n"
  shows "push_bit n x OR t = x * 2 ^ n + t"
proof -
  have "take_bit n t = t" using assms by (simp add: take_bit_nat_eq_self_iff)
  then have "\<not> bit t m" if "n \<le> m" for m
    using that by (metis bit_take_bit_iff not_le)
  then have "push_bit n x + t = push_bit n x OR t"
    by (intro disjunctive_add) (auto simp: bit_push_bit_iff_nat)
  then show ?thesis by (simp add: push_bit_eq_mult mult.commute)
qed

lemma unat_push_byte:
  assumes "n \<le> 24"
  shows "unat (push_bit n (ucast (b :: byte)) :: 32 word) = unat b * 2 ^ n"
proof -
  have "unat b < 2 ^ 8" using unsigned_less [of b, where ?'a = nat] by simp
  then have "unat b * 2 ^ n < 2 ^ 8 * 2 ^ n" by simp
  also have "\<dots> \<le> 2 ^ 32" using assms power_increasing [of "8 + n" 32 "2::nat"] by (simp add: power_add)
  finally have "unat b * 2 ^ n < 2 ^ 32" .
  moreover have "unat (ucast b :: 32 word) = unat b"
    using \<open>unat b < 2 ^ 8\<close> by (simp add: unsigned_ucast_eq take_bit_nat_eq_self_iff)
  ultimately show ?thesis
    unfolding unsigned_push_bit_eq by (simp add: push_bit_eq_mult take_bit_nat_eq_self_iff mult.commute)
qed

text \<open>
  C39: \<^verbatim>\<open>loadBigU32\<close> is the big-endian value of the four bytes at the position.
\<close>

theorem loadBigU32_value:
  assumes "pos + 3 < length iv"
  shows "\<exists>w. loadBigU32 iv pos = Inr w \<and>
    unat w = unat (iv ! pos) * 2 ^ 24 + unat (iv ! (pos + 1)) * 2 ^ 16 + unat (iv ! (pos + 2)) * 2 ^ 8 +
      unat (iv ! (pos + 3))"
proof -
  let ?b = "\<lambda>k. unat (iv ! (pos + k))"
  have lt: "?b k < 256" for k using unsigned_less [of "iv ! (pos + k)", where ?'a = nat] by simp
  let ?w = "push_bit 24 (ucast (iv ! pos)) OR push_bit 16 (ucast (iv ! (pos + 1))) OR
    push_bit 8 (ucast (iv ! (pos + 2))) OR ucast (iv ! (pos + 3)) :: 32 word"
  have "unat ?w = push_bit 24 (?b 0) OR push_bit 16 (?b 1) OR push_bit 8 (?b 2) OR ?b 3"
    using unat_push_byte [of 24 "iv ! pos"] unat_push_byte [of 16 "iv ! (pos + 1)"]
      unat_push_byte [of 8 "iv ! (pos + 2)"] unat_push_byte [of 0 "iv ! (pos + 3)"]
    by (simp add: unsigned_or_eq push_bit_eq_mult mult.commute)
  also have "push_bit 8 (?b 2) OR ?b 3 = ?b 2 * 2 ^ 8 + ?b 3"
    using lt by (intro nat_push_or) simp
  also have "push_bit 16 (?b 1) OR (?b 2 * 2 ^ 8 + ?b 3) = ?b 1 * 2 ^ 16 + (?b 2 * 2 ^ 8 + ?b 3)"
    using lt [of 2] lt [of 3] by (intro nat_push_or) simp
  also have "push_bit 24 (?b 0) OR (?b 1 * 2 ^ 16 + (?b 2 * 2 ^ 8 + ?b 3)) =
      ?b 0 * 2 ^ 24 + (?b 1 * 2 ^ 16 + (?b 2 * 2 ^ 8 + ?b 3))"
    using lt [of 1] lt [of 2] lt [of 3] by (intro nat_push_or) simp
  finally show ?thesis using assms by (simp add: loadBigU32_def)
qed

end
