(* ===== verification/Event_System.thy ===== *)
theory Event_System
  imports Mps_Prelude
begin

text \<open>
  Components that react to events of the face and the scheduler: a state, the events that can
  arrive in it, and the handler. \<open>exec\<close> is the relation of a state with the states that a
  sequence of events leads to.

  \<open>invariant_system\<close> is the contract of a property that every handled event keeps, and
  \<open>history_system\<close> that of a relation between an earlier and a later state; their lemmas
  lift the contract from one event to every execution. Signer and initiator interpret both.
  \<open>simulation\<close> is the contract of an abstraction to the states of a specification, which takes
  steps of its own (any number for an event); an execution then is an execution of the specification.
\<close>

inductive exec :: "('s \<Rightarrow> 'e \<Rightarrow> bool) \<Rightarrow> ('s \<Rightarrow> 'e \<Rightarrow> 's) \<Rightarrow> 's \<Rightarrow> 'e list \<Rightarrow> 's \<Rightarrow> bool"
  for enabled :: "'s \<Rightarrow> 'e \<Rightarrow> bool" and handle :: "'s \<Rightarrow> 'e \<Rightarrow> 's" where
  exec_nil: "exec enabled handle s [] s"
| exec_cons: "enabled s e \<Longrightarrow> exec enabled handle (handle s e) es t \<Longrightarrow> exec enabled handle s (e # es) t"

inductive_simps exec_simps [simp]:
  "exec enabled handle s [] t"
  "exec enabled handle s (e # es) t"

inductive_cases exec_consE: "exec enabled handle s (e # es) t"

lemma exec_append: "exec enabled handle s (es @ fs) u \<longleftrightarrow>
    (\<exists>t. exec enabled handle s es t \<and> exec enabled handle t fs u)"
  by (induction es arbitrary: s) auto

lemma exec_foldl: "exec enabled handle s es t \<Longrightarrow> t = foldl handle s es"
  by (induction rule: exec.induct) auto

lemma exec_restrict: "exec enabled handle s es t \<Longrightarrow> list_all P es \<Longrightarrow> exec (\<lambda>s e. enabled s e \<and> P e) handle s es t"
  by (induction rule: exec.induct) simp_all

locale invariant_system =
  fixes enabled :: "'s \<Rightarrow> 'e \<Rightarrow> bool"
    and handle :: "'s \<Rightarrow> 'e \<Rightarrow> 's"
    and inv :: "'s \<Rightarrow> bool"
  assumes preserved: "inv s \<Longrightarrow> enabled s e \<Longrightarrow> inv (handle s e)"
begin

lemma exec_inv: "exec enabled handle s es t \<Longrightarrow> inv s \<Longrightarrow> inv t"
  by (induction rule: exec.induct) (auto intro: preserved)

lemma exec_inv_prefix:
  assumes "exec enabled handle s (es @ fs) u" and "inv s"
  shows "\<exists>t. exec enabled handle s es t \<and> inv t \<and> exec enabled handle t fs u"
  using assms exec_inv unfolding exec_append by blast

end

locale history_system = invariant_system +
  fixes rel :: "'s \<Rightarrow> 's \<Rightarrow> bool"
  assumes rel_refl: "rel s s"
    and rel_trans: "rel s t \<Longrightarrow> rel t u \<Longrightarrow> rel s u"
    and rel_step: "inv s \<Longrightarrow> enabled s e \<Longrightarrow> rel s (handle s e)"
begin

lemma exec_rel: "exec enabled handle s es t \<Longrightarrow> inv s \<Longrightarrow> rel s t"
proof (induction rule: exec.induct)
  case (exec_nil s)
  show ?case by (rule rel_refl)
next
  case (exec_cons s e es t)
  then have "rel s (handle s e)" and "inv (handle s e)" by (auto intro: rel_step preserved)
  with exec_cons.IH show ?case using rel_trans by blast
qed

end

locale simulation = invariant_system +
  fixes abs :: "'s \<Rightarrow> 'a" and astep :: "'a \<Rightarrow> 'a \<Rightarrow> bool"
  assumes simulated: "inv s \<Longrightarrow> enabled s e \<Longrightarrow> rtranclp astep (abs s) (abs (handle s e))"
begin

lemma exec_simulated: "exec enabled handle s es t \<Longrightarrow> inv s \<Longrightarrow> rtranclp astep (abs s) (abs t)"
proof (induction rule: exec.induct)
  case (exec_nil s)
  show ?case by simp
next
  case (exec_cons s e es t)
  then have "rtranclp astep (abs s) (abs (handle s e))" and "inv (handle s e)" by (auto intro: simulated preserved)
  with exec_cons.IH show ?case using rtranclp_trans by fast
qed

end

end
