(* ===== verification/Signer.thy ===== *)
theory Signer
  imports Bls_Helpers Crypto_Helpers Event_System
begin

text \<open>
  \<^verbatim>\<open>BLSSigner\<close> of \<^verbatim>\<open>signer.cpp\<close>: the packets it makes and parses, the state it
  keeps for a signing request, and its handlers. A handler returns the new state, what it sends
  (in order) and, when an exception leaves it, the fault: the state changes and the packets
  before the exception stand. The requests are a list; a continuation of the code, which
  captures the shared state of its request, names the request by its position.
\<close>

section \<open>The key chain\<close>

text \<open>
  \<^verbatim>\<open>KeyChain::sign\<close> with an HMAC key or with a key name, the interest signer, and
  \<^verbatim>\<open>security::verifySignature\<close>. The laws: signing sets the signature fields only, and an
  HMAC signature verifies under the same key.
\<close>

record 'c keychain_api =
  hmac_sign :: "string \<Rightarrow> 'c data \<Rightarrow> 'c data res"
  hmac_verify :: "string \<Rightarrow> 'c data \<Rightarrow> bool"
  key_sign_data :: "'c name \<Rightarrow> 'c data \<Rightarrow> 'c data res"
  key_sign_interest :: "'c name \<Rightarrow> 'c interest \<Rightarrow> 'c interest res"

definition keychain_laws :: "('c, 'x) keychain_api_scheme \<Rightarrow> bool" where
  "keychain_laws kc \<longleftrightarrow>
     (\<forall>key d. \<exists>si v. hmac_sign kc key d = Inr (d\<lparr>d_sigInfo := Some si, d_sigValue := v\<rparr>) \<and>
        hmac_verify kc key (d\<lparr>d_sigInfo := Some si, d_sigValue := v\<rparr>)) \<and>
     (\<forall>key d. \<exists>si v. key_sign_data kc key d = Inr (d\<lparr>d_sigInfo := Some si, d_sigValue := v\<rparr>)) \<and>
     (\<forall>key i. \<exists>si v. key_sign_interest kc key i = Inr (i\<lparr>i_sigInfo := Some si, i_sigValue := v\<rparr>))"

lemma keychain_lawsD:
  assumes "keychain_laws kc"
  shows hmac_signed: "\<exists>si v. hmac_sign kc key d = Inr (d\<lparr>d_sigInfo := Some si, d_sigValue := v\<rparr>) \<and>
      hmac_verify kc key (d\<lparr>d_sigInfo := Some si, d_sigValue := v\<rparr>)"
    and key_signed_data: "\<exists>si v. key_sign_data kc n d = Inr (d\<lparr>d_sigInfo := Some si, d_sigValue := v\<rparr>)"
    and key_signed_interest: "\<exists>si v. key_sign_interest kc n i = Inr (i\<lparr>i_sigInfo := Some si, i_sigValue := v\<rparr>)"
  using assms unfolding keychain_laws_def by blast+

section \<open>Constants and state\<close>

datatype ReplyCode = Processing | OK | BadRequest | Unauthorized | NotFound | FailedDependency
  | InternalError | Unavailable

primrec code_number :: "ReplyCode \<Rightarrow> nat" where
  "code_number Processing = 102"
| "code_number OK = 200"
| "code_number BadRequest = 400"
| "code_number Unauthorized = 401"
| "code_number NotFound = 404"
| "code_number FailedDependency = 424"
| "code_number InternalError = 500"
| "code_number Unavailable = 503"

definition code_text :: "ReplyCode \<Rightarrow> string" where
  "code_text code = digits_of (code_number code)"

lemma code_texts: "code_text Processing = ''102''" "code_text OK = ''200''"
  "code_text BadRequest = ''400''" "code_text Unauthorized = ''401''" "code_text NotFound = ''404''"
  "code_text FailedDependency = ''424''" "code_text InternalError = ''500''" "code_text Unavailable = ''503''"
  by code_simp+

definition TIMEOUT :: nat where "TIMEOUT = 4000"
definition ESTIMATE_PROCESS_TIME :: nat where "ESTIMATE_PROCESS_TIME = 1000"

definition tlv_Status :: nat where "tlv_Status = 203"
definition tlv_ParameterDataName :: nat where "tlv_ParameterDataName = 205"
definition tlv_ResultAfter :: nat where "tlv_ResultAfter = 209"
definition tlv_ResultName :: nat where "tlv_ResultName = 211"
definition tlv_BLSSigValue :: nat where "tlv_BLSSigValue = 213"

lemmas protocol_tlvs = tlv_Status_def tlv_ParameterDataName_def tlv_ResultAfter_def tlv_ResultName_def
  tlv_BLSSigValue_def crypto_tlvs

record 'priv sign_request =
  m_ecdh :: "'priv ecdh_state"
  m_aesKey :: bytes
  m_code :: ReplyCode
  m_signatureValue :: bytes
  m_version :: nat
  m_resultPrefixHandle :: bool
  m_hmacKey :: string

text \<open>The signer object: the callbacks, the key pair and the names.\<close>

record ('c, 'sk, 'pk) bls_signer =
  m_verifyToBeSignedCallback :: "'c data \<Rightarrow> bool"
  m_verifySignRequestCallback :: "'c interest \<Rightarrow> bool"
  m_sk :: 'sk
  m_pk :: 'pk
  m_keyName :: "'c name"
  m_prefix :: "'c name"

datatype 'c signer_output = PutData "'c data" | FetchParameter "'c interest" | RegisterFilter "'c name"

text \<open>A request in progress: its result prefix, its shared state, and whether the parameter Interest is unanswered.\<close>

record ('c, 'priv) request =
  rq_resultPrefix :: "'c name"
  rq_state :: "'priv sign_request"
  rq_fetching :: bool

type_synonym ('c, 'priv) signer_step = "('c, 'priv) request list \<times> 'c signer_output list \<times> fault option"

section \<open>Parsing and making packets\<close>

definition parseSignRequestPayload ::
  "('c, 'z) tlv_api_scheme \<Rightarrow> 'c interest \<Rightarrow> ('c name \<times> bytes) res" where
  "parseSignRequestPayload api i =
     res_bind (block_parse api (i_appParams i)) (\<lambda>paramBlock.
     res_bind (tlv_get api paramBlock tlv_ParameterDataName) (\<lambda>nameBlock.
     res_bind (res_bind (block_from_value api nameBlock) (name_of_block api)) (\<lambda>parameterDataName.
     res_bind (tlv_get api paramBlock tlv_EcdhPub) (\<lambda>ecdhBlock.
       Inr (parameterDataName, blk_value ecdhBlock)))))"

text \<open>
  The arguments behind the status code are defaulted in the code and read only for
  \<^verbatim>\<open>Processing\<close>. For every other code the status text is that of \<^verbatim>\<open>Processing\<close>
  all the same.
\<close>

definition result_name :: "('c, 'z) name_api_scheme \<Rightarrow> 'c name \<Rightarrow> nat \<Rightarrow> 'c name" where
  "result_name api selfPrefix requestId =
     selfPrefix @ [comp_of_string api ''mps'', comp_of_string api ''result'', comp_of_number api requestId]"

definition generateSignRequestAck ::
  "('c, 'z) packet_api_scheme \<Rightarrow> ('priv, 'y) ossl_api_scheme \<Rightarrow> (nat \<Rightarrow> byte) \<Rightarrow> 'c name \<Rightarrow> 'c name \<Rightarrow>
   ReplyCode \<Rightarrow> nat \<Rightarrow> bytes \<Rightarrow> bytes \<Rightarrow> bytes \<Rightarrow> 'c data res" where
  "generateSignRequestAck api ossl rnd interestName selfPrefix code requestId salt selfPub aesKey =
     (let ack = new_data interestName in
      if code \<noteq> Processing
      then (let contentBlock = block_with api TLV_Content [str_block api tlv_Status (code_text Processing)]
            in Inr (ack\<lparr>d_content := content_of api contentBlock, d_freshness := TIMEOUT\<rparr>))
      else (let newResultName = result_name api selfPrefix requestId @ [comp_of_version api 0];
                unencryptedBlock = [nn_block api tlv_ResultAfter ESTIMATE_PROCESS_TIME,
                  nested_block api tlv_ResultName (name_wire api newResultName)]
            in res_bind (encodeElements ossl rnd aesKey (tlv_encode api unencryptedBlock) []) (\<lambda>encrypted.
              (let encryptedBlock = block_with api TLV_Content
                   (encrypted @ [str_block api tlv_Status (code_text Processing),
                                 Blk tlv_Salt (take 32 salt), Blk tlv_EcdhPub selfPub])
               in Inr (ack\<lparr>d_content := content_of api encryptedBlock, d_freshness := TIMEOUT\<rparr>)))))"

text \<open>The state is changed before the encryption, which may throw.\<close>

definition generateResultData ::
  "('c, 'z) packet_api_scheme \<Rightarrow> ('priv, 'y) ossl_api_scheme \<Rightarrow> (nat \<Rightarrow> byte) \<Rightarrow> 'c name \<Rightarrow> 'c name \<Rightarrow>
   'priv sign_request \<Rightarrow> 'priv sign_request \<times> 'c data res" where
  "generateResultData api ossl rnd interestName resultPrefix st =
     (let result = new_data interestName;
          status = str_block api tlv_Status (code_text (m_code st));
          (st', unencryptedBlock) =
            (if m_code st = Processing
             then (let version = (m_version st + 1) mod 2 ^ 64 in
                   (st\<lparr>m_version := version\<rparr>,
                    [status, nn_block api tlv_ResultAfter ESTIMATE_PROCESS_TIME,
                     nested_block api tlv_ResultName
                       (name_wire api (resultPrefix @ [comp_of_version api version]))]))
             else if m_code st = OK
             then (st\<lparr>m_resultPrefixHandle := False\<rparr>, [status, Blk tlv_BLSSigValue (m_signatureValue st)])
             else (st\<lparr>m_resultPrefixHandle := False\<rparr>, [status]))
      in (st', res_bind (encodeBlockWithAesGcm128 api ossl rnd TLV_Content (m_aesKey st')
                 (tlv_encode api unencryptedBlock) []) (\<lambda>encryptedBlock.
               Inr (result\<lparr>d_content := content_of api encryptedBlock, d_freshness := TIMEOUT\<rparr>))))"

definition parseParameterData ::
  "('c, 'z) packet_api_scheme \<Rightarrow> ('priv, 'y) ossl_api_scheme \<Rightarrow> 'c data \<Rightarrow> 'priv sign_request \<Rightarrow> 'c data res" where
  "parseParameterData api ossl d st =
     res_bind (block_parse api (d_content d)) (\<lambda>_.
     res_bind (decodeBlockWithAesGcm128 api ossl (d_content d) (m_aesKey st) []) (\<lambda>buf.
     res_bind (block_of_bytes api buf) (data_of_block api)))"

section \<open>The handlers\<close>

text \<open>The key pair comes from the random generator, the default key name from the clock.\<close>

definition BLSSigner_new ::
  "('c, 'z) name_api_scheme \<Rightarrow> ('sk, 'pk, 'sig, 'y) bls_api_scheme \<Rightarrow> bool \<Rightarrow> 'sk \<Rightarrow> nat \<Rightarrow> 'c name \<Rightarrow>
   'c name \<Rightarrow> ('c data \<Rightarrow> bool) \<Rightarrow> ('c interest \<Rightarrow> bool) \<Rightarrow>
   (('c, 'sk, 'pk) bls_signer \<times> 'c signer_output list) res" where
  "BLSSigner_new api bls has_initialized sk timestamp prefix keyName verifyToBeSigned verifySignRequest =
     res_bind (ndnBLSInit bls has_initialized) (\<lambda>_.
       Inr (\<lparr>m_verifyToBeSignedCallback = verifyToBeSigned, m_verifySignRequestCallback = verifySignRequest,
             m_sk = sk, m_pk = blsGetPublicKey bls sk,
             m_keyName = (if keyName = []
               then prefix @ [comp_of_string api ''KEY'', comp_of_timestamp api timestamp] else keyName),
             m_prefix = prefix\<rparr>,
            [RegisterFilter (prefix @ [comp_of_string api ''mps'', comp_of_string api ''sign''])]))"

text \<open>What one request draws from the random generator.\<close>

record request_random =
  rr_ecdh :: nat
  rr_salt :: "nat \<Rightarrow> byte"
  rr_requestId :: nat
  rr_iv :: "nat \<Rightarrow> byte"

definition reject_request ::
  "('c, 'z) packet_api_scheme \<Rightarrow> ('sk, 'pk, 'sig, 'y) bls_api_scheme \<Rightarrow> ('priv, 'o) ossl_api_scheme \<Rightarrow>
   ('c, 'sk, 'pk) bls_signer \<Rightarrow> 'c interest \<Rightarrow> ('c, 'priv) request list \<Rightarrow> ('c, 'priv) signer_step" where
  "reject_request api bls ossl signer i rqs =
     (case res_bind (generateSignRequestAck api ossl (\<lambda>_. 0) (i_name i) (m_prefix signer) Unauthorized 0 [] [] [])
             (\<lambda>ack. ndnBLSSign_data api bls (m_sk signer) ack (m_keyName signer)) of
        Inl e \<Rightarrow> (rqs, [], Some e)
      | Inr ack \<Rightarrow> (rqs, [PutData ack], None))"

text \<open>The state of a new request, with its salt.\<close>

definition new_request ::
  "('priv, 'o) ossl_api_scheme \<Rightarrow> request_random \<Rightarrow> bytes \<Rightarrow> ('priv sign_request \<times> bytes) res" where
  "new_request ossl rnd peerPubKey =
     res_bind (ECDHState_new ossl (rr_ecdh rnd)) (\<lambda>ecdh.
     res_bind (deriveSecret ossl ecdh peerPubKey) (\<lambda>(ecdh, dhSecret).
       (let salt = map (rr_salt rnd) [0..<32] in
        res_bind (session_keys ossl dhSecret salt) (\<lambda>(aesKey, hmacKeyStr).
          Inr (\<lparr>m_ecdh = ecdh, m_aesKey = aesKey, m_code = Processing, m_signatureValue = [],
                m_version = 0, m_resultPrefixHandle = True, m_hmacKey = hmacKeyStr\<rparr>, salt)))))"

definition onSignRequest ::
  "('c, 'z) packet_api_scheme \<Rightarrow> ('sk, 'pk, 'sig, 'y) bls_api_scheme \<Rightarrow> ('priv, 'o) ossl_api_scheme \<Rightarrow>
   ('c, 'sk, 'pk) bls_signer \<Rightarrow> request_random \<Rightarrow> 'c interest \<Rightarrow> ('c, 'priv) request list \<Rightarrow>
   ('c, 'priv) signer_step" where
  "onSignRequest api bls ossl signer rnd i rqs =
     (if \<not> m_verifySignRequestCallback signer i \<or> \<not> interest_digest_valid api i
      then reject_request api bls ossl signer i rqs
      else (case parseSignRequestPayload api i of
        Inl (Throws _) \<Rightarrow> reject_request api bls ossl signer i rqs
      | Inl (Undefined w) \<Rightarrow> (rqs, [], Some (Undefined w))
      | Inr (parameterDataName, peerPubKey) \<Rightarrow>
         (case new_request ossl rnd peerPubKey of
            Inl e \<Rightarrow> (rqs, [], Some e)
          | Inr (st, salt) \<Rightarrow>
             (let resultPrefix = result_name api (m_prefix signer) (rr_requestId rnd);
                  rq = \<lparr>rq_resultPrefix = resultPrefix, rq_state = st, rq_fetching = False\<rparr>
              in (case res_bind (getSelfPubKey ossl (m_ecdh st)) (\<lambda>(ecdh, selfPubKey).
                     res_bind (generateSignRequestAck api ossl (rr_iv rnd) (i_name i) (m_prefix signer) Processing
                         (rr_requestId rnd) salt selfPubKey (m_aesKey st)) (\<lambda>ack.
                     res_bind (ndnBLSSign_data api bls (m_sk signer) ack (m_keyName signer)) (\<lambda>ack.
                       Inr (ecdh, ack)))) of
                   Inl e \<Rightarrow> (rqs @ [rq], [RegisterFilter resultPrefix], Some e)
                 | Inr (ecdh, ack) \<Rightarrow>
                     (rqs @ [rq\<lparr>rq_state := st\<lparr>m_ecdh := ecdh\<rparr>, rq_fetching := True\<rparr>],
                      [RegisterFilter resultPrefix, PutData ack,
                       FetchParameter ((new_interest parameterDataName)\<lparr>i_canBePrefix := True,
                         i_mustBeFresh := True, i_lifetime := TIMEOUT\<rparr>)], None))))))"

text \<open>The continuation of the result prefix: an Interest that fetches the result.\<close>

definition onResultInterest ::
  "('c, 'z) packet_api_scheme \<Rightarrow> ('priv, 'o) ossl_api_scheme \<Rightarrow> ('c, 'x) keychain_api_scheme \<Rightarrow>
   ('c, 'sk, 'pk) bls_signer \<Rightarrow> (nat \<Rightarrow> byte) \<Rightarrow> 'c interest \<Rightarrow> ('c, 'priv) request \<Rightarrow>
   ('c, 'priv) request \<times> 'c signer_output list \<times> fault option" where
  "onResultInterest api ossl kc signer rnd i rq =
     (if length (i_name i) \<noteq> length (m_prefix signer) + 5 then (rq, [], None)
      else (case generateResultData api ossl rnd (i_name i) (rq_resultPrefix rq) (rq_state rq) of
        (st, r) \<Rightarrow> (case res_bind r (hmac_sign kc (m_hmacKey st)) of
           Inl e \<Rightarrow> (rq\<lparr>rq_state := st\<rparr>, [], Some e)
         | Inr result \<Rightarrow> (rq\<lparr>rq_state := st\<rparr>, [PutData result], None))))"

datatype 'c fetch_reply = FetchedData "'c data" | FetchNack | FetchTimeout

text \<open>
  The three continuations of the parameter Interest. The code is set to \<^verbatim>\<open>OK\<close> before the
  signature piece is made.
\<close>

definition set_code :: "ReplyCode \<Rightarrow> ('c, 'priv) request \<Rightarrow> ('c, 'priv) request" where
  "set_code code rq = rq\<lparr>rq_state := (rq_state rq)\<lparr>m_code := code\<rparr>\<rparr>"

fun onParameterReply ::
  "('c, 'z) packet_api_scheme \<Rightarrow> ('sk, 'pk, 'sig, 'y) bls_api_scheme \<Rightarrow> ('priv, 'o) ossl_api_scheme \<Rightarrow>
   ('c, 'x) keychain_api_scheme \<Rightarrow> ('c, 'sk, 'pk) bls_signer \<Rightarrow> 'c fetch_reply \<Rightarrow> ('c, 'priv) request \<Rightarrow>
   ('c, 'priv) request \<times> fault option" where
  "onParameterReply api bls ossl kc signer (FetchedData d) rq =
     (if \<not> hmac_verify kc (m_hmacKey (rq_state rq)) d then (rq, None)
      else (case parseParameterData api ossl d (rq_state rq) of
        Inl (Throws _) \<Rightarrow> (set_code FailedDependency rq, None)
      | Inl (Undefined w) \<Rightarrow> (rq, Some (Undefined w))
      | Inr unsignedData \<Rightarrow>
          (if \<not> m_verifyToBeSignedCallback signer unsignedData then (set_code Unauthorized rq, None)
           else (let rq = set_code OK rq in
             (case ndnGenBLSSignature_data api bls (m_sk signer) unsignedData of
                Inl e \<Rightarrow> (rq, Some e)
              | Inr sigValue \<Rightarrow> (rq\<lparr>rq_state := (rq_state rq)\<lparr>m_signatureValue := sigValue\<rparr>\<rparr>, None))))))"
| "onParameterReply api bls ossl kc signer FetchNack rq = (set_code FailedDependency rq, None)"
| "onParameterReply api bls ossl kc signer FetchTimeout rq = (set_code FailedDependency rq, None)"

section \<open>The signer as an event system\<close>

text \<open>
  The face delivers an Interest to a result prefix as long as its filter is registered, and
  answers an expressed Interest at most once. \<open>sw_sent\<close> and \<open>sw_faults\<close> record what was
  sent and the exceptions that reached the event loop.
\<close>

record ('c, 'priv) signer_world =
  sw_requests :: "('c, 'priv) request list"
  sw_sent :: "'c signer_output list"
  sw_faults :: "fault list"

definition signer_start :: "('c, 'priv) signer_world" where
  "signer_start = \<lparr>sw_requests = [], sw_sent = [], sw_faults = []\<rparr>"

datatype 'c signer_event =
    SignRequest request_random "'c interest"
  | ResultInterest nat "nat \<Rightarrow> byte" "'c interest"
  | ParameterReply nat "'c fetch_reply"

fun signer_enabled :: "('c, 'priv) signer_world \<Rightarrow> 'c signer_event \<Rightarrow> bool" where
  "signer_enabled w (SignRequest rnd i) = True"
| "signer_enabled w (ResultInterest k rnd i) =
     (k < length (sw_requests w) \<and> m_resultPrefixHandle (rq_state (sw_requests w ! k)) \<and>
      is_prefix_of (rq_resultPrefix (sw_requests w ! k)) (i_name i))"
| "signer_enabled w (ParameterReply k r) =
     (k < length (sw_requests w) \<and> rq_fetching (sw_requests w ! k))"

definition fault_list :: "fault option \<Rightarrow> fault list" where
  "fault_list f = (case f of None \<Rightarrow> [] | Some e \<Rightarrow> [e])"

fun signer_handle ::
  "('c, 'z) packet_api_scheme \<Rightarrow> ('sk, 'pk, 'sig, 'y) bls_api_scheme \<Rightarrow> ('priv, 'o) ossl_api_scheme \<Rightarrow>
   ('c, 'x) keychain_api_scheme \<Rightarrow> ('c, 'sk, 'pk) bls_signer \<Rightarrow> ('c, 'priv) signer_world \<Rightarrow>
   'c signer_event \<Rightarrow> ('c, 'priv) signer_world" where
  "signer_handle api bls ossl kc signer w (SignRequest rnd i) =
     (case onSignRequest api bls ossl signer rnd i (sw_requests w) of (rqs, outs, f) \<Rightarrow>
        \<lparr>sw_requests = rqs, sw_sent = sw_sent w @ outs, sw_faults = sw_faults w @ fault_list f\<rparr>)"
| "signer_handle api bls ossl kc signer w (ResultInterest k rnd i) =
     (case onResultInterest api ossl kc signer rnd i (sw_requests w ! k) of (rq, outs, f) \<Rightarrow>
        \<lparr>sw_requests = (sw_requests w)[k := rq], sw_sent = sw_sent w @ outs, sw_faults = sw_faults w @ fault_list f\<rparr>)"
| "signer_handle api bls ossl kc signer w (ParameterReply k r) =
     (case onParameterReply api bls ossl kc signer r (sw_requests w ! k) of (rq, f) \<Rightarrow>
        w\<lparr>sw_requests := (sw_requests w)[k := rq\<lparr>rq_fetching := False\<rparr>],
          sw_faults := sw_faults w @ fault_list f\<rparr>)"

section \<open>The invariant of a request\<close>

text \<open>
  A request still waiting for its parameters is being processed and can be asked for its result;
  its filter is only removed once the code is final; and the code \<^verbatim>\<open>OK\<close> was set for a packet
  the application approved, of which the stored value is the signature piece (or empty, when
  making the piece threw).
\<close>

definition piece_of ::
  "('c, 'z) packet_api_scheme \<Rightarrow> ('sk, 'pk, 'sig, 'y) bls_api_scheme \<Rightarrow> ('c, 'sk, 'pk) bls_signer \<Rightarrow>
   'c data \<Rightarrow> bytes" where
  "piece_of api bls signer d =
     (case ndnGenBLSSignature_data api bls (m_sk signer) d of Inr sigValue \<Rightarrow> sigValue | Inl _ \<Rightarrow> [])"

definition request_ok ::
  "('c, 'z) packet_api_scheme \<Rightarrow> ('sk, 'pk, 'sig, 'y) bls_api_scheme \<Rightarrow> ('c, 'sk, 'pk) bls_signer \<Rightarrow>
   ('c, 'priv) request \<Rightarrow> bool" where
  "request_ok api bls signer rq \<longleftrightarrow> (let st = rq_state rq in
     m_code st \<in> {Processing, OK, FailedDependency, Unauthorized} \<and>
     (rq_fetching rq \<longrightarrow> m_code st = Processing) \<and>
     (\<not> m_resultPrefixHandle st \<longrightarrow> m_code st \<noteq> Processing) \<and>
     m_version st < 2 ^ 64 \<and>
     (m_code st \<noteq> OK \<longrightarrow> m_signatureValue st = []) \<and>
     (m_code st = OK \<longrightarrow> (\<exists>d. m_verifyToBeSignedCallback signer d \<and>
        m_signatureValue st = piece_of api bls signer d)))"

definition signer_inv ::
  "('c, 'z) packet_api_scheme \<Rightarrow> ('sk, 'pk, 'sig, 'y) bls_api_scheme \<Rightarrow> ('c, 'sk, 'pk) bls_signer \<Rightarrow>
   ('c, 'priv) signer_world \<Rightarrow> bool" where
  "signer_inv api bls signer w \<longleftrightarrow> (\<forall>rq \<in> set (sw_requests w). request_ok api bls signer rq)"

text \<open>What never changes in a request, and what is settled once its parameter Interest is answered.\<close>

definition request_later :: "('c, 'priv) request \<Rightarrow> ('c, 'priv) request \<Rightarrow> bool" where
  "request_later rq rq' \<longleftrightarrow>
     rq_resultPrefix rq' = rq_resultPrefix rq \<and>
     m_aesKey (rq_state rq') = m_aesKey (rq_state rq) \<and>
     m_hmacKey (rq_state rq') = m_hmacKey (rq_state rq) \<and>
     (\<not> m_resultPrefixHandle (rq_state rq) \<longrightarrow> \<not> m_resultPrefixHandle (rq_state rq')) \<and>
     (\<not> rq_fetching rq \<longrightarrow> \<not> rq_fetching rq' \<and> m_code (rq_state rq') = m_code (rq_state rq) \<and>
        m_signatureValue (rq_state rq') = m_signatureValue (rq_state rq))"

definition signer_later :: "('c, 'priv) signer_world \<Rightarrow> ('c, 'priv) signer_world \<Rightarrow> bool" where
  "signer_later v w \<longleftrightarrow> length (sw_requests v) \<le> length (sw_requests w) \<and>
     (\<forall>k < length (sw_requests v). request_later (sw_requests v ! k) (sw_requests w ! k))"

lemma reject_requests: "fst (reject_request api bls ossl signer i rqs) = rqs"
  by (simp add: reject_request_def split: sum.split)

lemma new_request_ok:
  assumes "new_request ossl rnd peer = Inr (st, salt)"
  shows "m_code st = Processing \<and> m_resultPrefixHandle st \<and> m_version st = 0 \<and> m_signatureValue st = []"
  using assms by (auto simp: new_request_def res_bind_Inr_iff Let_def)

lemma onSignRequest_requests:
  assumes "onSignRequest api bls ossl signer rnd i rqs = (rqs', outs, f)"
  obtains (same) "rqs' = rqs" | (new) rq where "rqs' = rqs @ [rq]" "request_ok api bls signer rq"
proof -
  have "rqs' = rqs \<or> (\<exists>rq. rqs' = rqs @ [rq] \<and> request_ok api bls signer rq)"
    using assms reject_requests [of api bls ossl signer i rqs]
    by (auto simp: onSignRequest_def Let_def request_ok_def split: if_splits sum.splits fault.splits prod.splits
        dest!: new_request_ok)
  with same new show ?thesis by blast
qed

lemma generateResultData_state:
  assumes "generateResultData api ossl rnd n p st = (st', r)"
  shows "st' = (if m_code st = Processing then st\<lparr>m_version := (m_version st + 1) mod 2 ^ 64\<rparr>
    else st\<lparr>m_resultPrefixHandle := False\<rparr>)"
  using assms by (auto simp: generateResultData_def Let_def split: if_splits)

lemma onResultInterest_state:
  assumes "onResultInterest api ossl kc signer rnd i rq = (rq', outs, f)"
  shows "rq' = rq \<or> rq' = rq\<lparr>rq_state := (if m_code (rq_state rq) = Processing
    then (rq_state rq)\<lparr>m_version := (m_version (rq_state rq) + 1) mod 2 ^ 64\<rparr>
    else (rq_state rq)\<lparr>m_resultPrefixHandle := False\<rparr>)\<rparr>"
proof (cases "length (i_name i) \<noteq> length (m_prefix signer) + 5")
  case True
  with assms show ?thesis by (simp add: onResultInterest_def)
next
  case False
  obtain st r where g: "generateResultData api ossl rnd (i_name i) (rq_resultPrefix rq) (rq_state rq) = (st, r)"
    by force
  then have "rq' = rq\<lparr>rq_state := st\<rparr>"
    using assms False by (auto simp: onResultInterest_def split: sum.splits)
  with generateResultData_state [OF g] show ?thesis by simp
qed

lemma request_ok_version:
  "request_ok api bls signer rq \<Longrightarrow> v < 2 ^ 64 \<Longrightarrow>
   request_ok api bls signer (rq\<lparr>rq_state := (rq_state rq)\<lparr>m_version := v\<rparr>\<rparr>)"
  by (simp add: request_ok_def Let_def)

lemma request_ok_cancel:
  "request_ok api bls signer rq \<Longrightarrow> m_code (rq_state rq) \<noteq> Processing \<Longrightarrow>
   request_ok api bls signer (rq\<lparr>rq_state := (rq_state rq)\<lparr>m_resultPrefixHandle := False\<rparr>\<rparr>)"
  by (simp add: request_ok_def Let_def)

lemma request_ok_result:
  assumes "onResultInterest api ossl kc signer rnd i rq = (rq', outs, f)" and "request_ok api bls signer rq"
  shows "request_ok api bls signer rq' \<and> request_later rq rq'"
proof -
  have "(m_version (rq_state rq) + 1) mod 2 ^ 64 < (2 :: nat) ^ 64" by simp
  note ok = request_ok_version [OF assms(2) this] request_ok_cancel [OF assms(2)]
  from onResultInterest_state [OF assms(1)] show ?thesis
  proof
    assume "rq' = rq"
    with assms(2) show ?thesis by (simp add: request_later_def)
  next
    assume r: "rq' = rq\<lparr>rq_state := (if m_code (rq_state rq) = Processing
      then (rq_state rq)\<lparr>m_version := (m_version (rq_state rq) + 1) mod 2 ^ 64\<rparr>
      else (rq_state rq)\<lparr>m_resultPrefixHandle := False\<rparr>)\<rparr>"
    show ?thesis
      by (cases "m_code (rq_state rq) = Processing") (use ok r in \<open>simp_all add: request_later_def\<close>)
  qed
qed

lemma onParameterReply_cases:
  assumes "onParameterReply api bls ossl kc signer r rq = (rq', f)"
  obtains (same) "rq' = rq"
  | (failed) code where "code \<in> {FailedDependency, Unauthorized}" "rq' = set_code code rq"
  | (signed) d where "m_verifyToBeSignedCallback signer d"
      "rq' = (set_code OK rq)\<lparr>rq_state := (rq_state (set_code OK rq))\<lparr>m_signatureValue :=
         (case ndnGenBLSSignature_data api bls (m_sk signer) d of Inr v \<Rightarrow> v
          | Inl _ \<Rightarrow> m_signatureValue (rq_state rq))\<rparr>\<rparr>"
proof (cases r)
  case (FetchedData d)
  show ?thesis
  proof (cases "hmac_verify kc (m_hmacKey (rq_state rq)) d")
    case False
    then have "rq' = rq" using assms FetchedData by simp
    then show ?thesis by (rule same)
  next
    case True
    note A = assms [unfolded FetchedData, simplified, simplified True, simplified]
    show ?thesis
    proof (cases "parseParameterData api ossl d (rq_state rq)")
      case (Inl e)
      with A same failed show ?thesis by (cases e) auto
    next
      case (Inr u)
      show ?thesis
      proof (cases "m_verifyToBeSignedCallback signer u")
        case False
        with A Inr failed show ?thesis by auto
      next
        case True
        with A Inr signed [OF True] show ?thesis
          by (cases "ndnGenBLSSignature_data api bls (m_sk signer) u") (auto simp: Let_def set_code_def)
      qed
    qed
  qed
qed (use assms failed in auto)

lemma request_ok_parameter:
  assumes "onParameterReply api bls ossl kc signer r rq = (rq', f)" and "request_ok api bls signer rq"
    and "rq_fetching rq"
  shows "request_ok api bls signer (rq'\<lparr>rq_fetching := False\<rparr>) \<and> request_later rq (rq'\<lparr>rq_fetching := False\<rparr>)"
  using assms(1)
proof (cases rule: onParameterReply_cases)
  case same
  then show ?thesis using assms(2,3) by (auto simp: request_ok_def request_later_def Let_def)
next
  case (failed code)
  then show ?thesis using assms(2,3) by (auto simp: request_ok_def request_later_def Let_def set_code_def)
next
  case (signed d)
  have "m_signatureValue (rq_state rq) = []" "m_version (rq_state rq) < 2 ^ 64"
    using assms(2,3) by (auto simp: request_ok_def Let_def)
  then show ?thesis
    using signed(1) assms(3) unfolding signed(2)
    by (cases "ndnGenBLSSignature_data api bls (m_sk signer) d")
      (auto simp: request_ok_def request_later_def Let_def set_code_def piece_of_def intro!: exI [of _ d])
qed

lemma request_later_refl [simp]: "request_later rq rq"
  by (simp add: request_later_def)

lemma request_later_trans: "request_later a b \<Longrightarrow> request_later b c \<Longrightarrow> request_later a c"
  by (simp add: request_later_def)

lemma signer_update_ok:
  assumes "signer_inv api bls signer w" and "k < length (sw_requests w)"
    and "request_ok api bls signer rq" and "request_later (sw_requests w ! k) rq"
    and "sw_requests w' = (sw_requests w)[k := rq]"
  shows "signer_inv api bls signer w' \<and> signer_later w w'"
proof
  show "signer_inv api bls signer w'"
    using assms(1,3,5) set_update_subset_insert [of "sw_requests w" k rq] by (auto simp: signer_inv_def)
  show "signer_later w w'"
    using assms(2,4,5) by (auto simp: signer_later_def nth_list_update)
qed

lemma signer_step_ok:
  assumes "signer_inv api bls signer w" and "signer_enabled w e"
  shows "signer_inv api bls signer (signer_handle api bls ossl kc signer w e) \<and>
    signer_later w (signer_handle api bls ossl kc signer w e)"
proof (cases e)
  case (SignRequest rnd i)
  obtain rqs outs f where s: "onSignRequest api bls ossl signer rnd i (sw_requests w) = (rqs, outs, f)"
    by (metis prod_cases3)
  then show ?thesis
    by (cases rule: onSignRequest_requests)
      (use assms(1) SignRequest s in \<open>auto simp: signer_inv_def signer_later_def nth_append\<close>)
next
  case (ResultInterest k rnd i)
  obtain rq outs f where s: "onResultInterest api ossl kc signer rnd i (sw_requests w ! k) = (rq, outs, f)"
    by (metis prod_cases3)
  have k: "k < length (sw_requests w)" using assms(2) ResultInterest by simp
  then have "request_ok api bls signer (sw_requests w ! k)" using assms(1) by (simp add: signer_inv_def)
  from request_ok_result [OF s this] show ?thesis
    by (intro signer_update_ok [OF assms(1) k, of rq]) (simp_all add: ResultInterest s)
next
  case (ParameterReply k r)
  obtain rq f where s: "onParameterReply api bls ossl kc signer r (sw_requests w ! k) = (rq, f)" by force
  have k: "k < length (sw_requests w)" "rq_fetching (sw_requests w ! k)"
    using assms(2) ParameterReply by simp_all
  then have "request_ok api bls signer (sw_requests w ! k)" using assms(1) by (simp add: signer_inv_def)
  from request_ok_parameter [OF s this k(2)] show ?thesis
    by (intro signer_update_ok [OF assms(1) k(1), of "rq\<lparr>rq_fetching := False\<rparr>"])
      (simp_all add: ParameterReply s)
qed

interpretation signer_run: history_system signer_enabled "signer_handle api bls ossl kc signer"
    "signer_inv api bls signer" signer_later
  for api :: "('c, 'z) packet_api_scheme" and bls :: "('sk, 'pk, 'sig, 'y) bls_api_scheme"
    and ossl :: "('priv, 'o) ossl_api_scheme" and kc :: "('c, 'x) keychain_api_scheme"
    and signer :: "('c, 'sk, 'pk) bls_signer"
proof
  fix s t u :: "('c, 'priv) signer_world" and e :: "'c signer_event"
  show "signer_inv api bls signer s \<Longrightarrow> signer_enabled s e \<Longrightarrow>
      signer_inv api bls signer (signer_handle api bls ossl kc signer s e)"
    by (simp add: signer_step_ok)
  show "signer_inv api bls signer s \<Longrightarrow> signer_enabled s e \<Longrightarrow>
      signer_later s (signer_handle api bls ossl kc signer s e)"
    by (simp add: signer_step_ok)
  show "signer_later s s" by (simp add: signer_later_def)
  show "signer_later s t \<Longrightarrow> signer_later t u \<Longrightarrow> signer_later s u"
    by (auto simp: signer_later_def intro: request_later_trans)
qed

lemma signer_inv_start: "signer_inv api bls signer signer_start"
  by (simp add: signer_inv_def signer_start_def)

section \<open>What the signer guarantees\<close>

lemma signer_reachable:
  assumes "exec signer_enabled (signer_handle api bls ossl kc signer) signer_start es w"
  shows "signer_inv api bls signer w"
  using signer_run.exec_inv [OF assms signer_inv_start] .

lemma signer_reachable_later:
  assumes "exec signer_enabled (signer_handle api bls ossl kc signer) signer_start es w"
    and "exec signer_enabled (signer_handle api bls ossl kc signer) w fs w'"
    and "k < length (sw_requests w)"
  shows "k < length (sw_requests w') \<and> request_later (sw_requests w ! k) (sw_requests w' ! k)"
  using signer_run.exec_rel [OF assms(2) signer_reachable [OF assms(1)]] assms(3)
  by (auto simp: signer_later_def)

text \<open>
  C12: the signer signs only what the application approved. Whatever Interests and replies arrive,
  in whatever order, a signature value stored for a request is the signature piece, under the
  signer's own key, of a packet that the approval callback accepted; it is stored only with the
  code \<^verbatim>\<open>OK\<close>; the code is one of four; and the result filter of a request is removed
  only after its code is final.
\<close>

theorem signer_signs_only_approved:
  assumes "exec signer_enabled (signer_handle api bls ossl kc signer) signer_start es w"
    and "rq \<in> set (sw_requests w)"
  shows "(m_signatureValue (rq_state rq) \<noteq> [] \<longrightarrow> m_code (rq_state rq) = OK \<and>
      (\<exists>d. m_verifyToBeSignedCallback signer d \<and>
        ndnGenBLSSignature_data api bls (m_sk signer) d = Inr (m_signatureValue (rq_state rq)))) \<and>
    m_code (rq_state rq) \<in> {Processing, OK, FailedDependency, Unauthorized} \<and>
    (\<not> m_resultPrefixHandle (rq_state rq) \<longrightarrow> m_code (rq_state rq) \<noteq> Processing) \<and>
    (rq_fetching rq \<longrightarrow> m_code (rq_state rq) = Processing)"
proof -
  have ok: "request_ok api bls signer rq"
    using signer_reachable [OF assms(1)] assms(2) by (simp add: signer_inv_def)
  have "\<exists>d. m_verifyToBeSignedCallback signer d \<and>
      ndnGenBLSSignature_data api bls (m_sk signer) d = Inr (m_signatureValue (rq_state rq))"
    if sig: "m_signatureValue (rq_state rq) \<noteq> []"
  proof -
    have "\<exists>d. m_verifyToBeSignedCallback signer d \<and> m_signatureValue (rq_state rq) = piece_of api bls signer d"
      using ok sig by (auto simp: request_ok_def Let_def)
    then obtain d where d: "m_verifyToBeSignedCallback signer d"
      "m_signatureValue (rq_state rq) = piece_of api bls signer d" by blast
    with sig show ?thesis
      by (intro exI [of _ d]) (simp add: piece_of_def split: sum.splits)
  qed
  with ok show ?thesis by (auto simp: request_ok_def Let_def)
qed

text \<open>
  C28: a result is final. Once a request of a reachable state has left the code
  \<^verbatim>\<open>Processing\<close>, no further event changes its code, its signature value, its keys or its
  result prefix, and a removed result filter stays removed.
\<close>

theorem signer_result_final:
  assumes "exec signer_enabled (signer_handle api bls ossl kc signer) signer_start es w"
    and "exec signer_enabled (signer_handle api bls ossl kc signer) w fs w'"
    and "k < length (sw_requests w)" and "m_code (rq_state (sw_requests w ! k)) \<noteq> Processing"
  shows "k < length (sw_requests w') \<and> (let st = rq_state (sw_requests w ! k); st' = rq_state (sw_requests w' ! k) in
    m_code st' = m_code st \<and> m_signatureValue st' = m_signatureValue st \<and> m_aesKey st' = m_aesKey st \<and>
    m_hmacKey st' = m_hmacKey st \<and> rq_resultPrefix (sw_requests w' ! k) = rq_resultPrefix (sw_requests w ! k) \<and>
    (m_resultPrefixHandle st' \<longrightarrow> m_resultPrefixHandle st))"
proof -
  have "request_ok api bls signer (sw_requests w ! k)"
    using signer_reachable [OF assms(1)] assms(3) by (simp add: signer_inv_def)
  then have "\<not> rq_fetching (sw_requests w ! k)" using assms(4) by (auto simp: request_ok_def Let_def)
  with signer_reachable_later [OF assms(1-3)] show ?thesis by (auto simp: request_later_def Let_def)
qed

text \<open>
  A parameter packet whose HMAC does not verify is dropped without a trace, and the parameter
  Interest is not sent again: from then on the request stays in the code
  \<^verbatim>\<open>Processing\<close> for ever, whatever arrives, with no signature and its filter registered.
\<close>

theorem signer_bad_hmac_hangs:
  assumes "exec signer_enabled (signer_handle api bls ossl kc signer) signer_start es w"
    and "k < length (sw_requests w)" and "rq_fetching (sw_requests w ! k)"
    and "\<not> hmac_verify kc (m_hmacKey (rq_state (sw_requests w ! k))) d"
    and "exec signer_enabled (signer_handle api bls ossl kc signer) w (ParameterReply k (FetchedData d) # fs) w'"
  shows "m_code (rq_state (sw_requests w' ! k)) = Processing \<and>
    m_signatureValue (rq_state (sw_requests w' ! k)) = [] \<and>
    \<not> rq_fetching (sw_requests w' ! k) \<and> m_resultPrefixHandle (rq_state (sw_requests w' ! k))"
proof -
  let ?w1 = "signer_handle api bls ossl kc signer w (ParameterReply k (FetchedData d))"
  have ok: "request_ok api bls signer (sw_requests w ! k)"
    using signer_reachable [OF assms(1)] assms(2) by (simp add: signer_inv_def)
  have w1: "sw_requests ?w1 = (sw_requests w)[k := (sw_requests w ! k)\<lparr>rq_fetching := False\<rparr>]"
    using assms(4) by simp
  have "signer_enabled w (ParameterReply k (FetchedData d))" using assms(2,3) by simp
  then have inv1: "signer_inv api bls signer ?w1"
    by (rule signer_run.preserved [OF signer_reachable [OF assms(1)]])
  have rest: "exec signer_enabled (signer_handle api bls ossl kc signer) ?w1 fs w'"
    using assms(5) by (rule exec_consE)
  have "request_later ((sw_requests w ! k)\<lparr>rq_fetching := False\<rparr>) (sw_requests w' ! k)"
    and k: "k < length (sw_requests w')"
    using signer_run.exec_rel [OF rest inv1] assms(2) unfolding signer_later_def w1 by auto
  then have "m_code (rq_state (sw_requests w' ! k)) = Processing"
    "m_signatureValue (rq_state (sw_requests w' ! k)) = []" "\<not> rq_fetching (sw_requests w' ! k)"
    using ok assms(3) by (auto simp: request_later_def request_ok_def Let_def)
  moreover have "request_ok api bls signer (sw_requests w' ! k)"
    using signer_run.exec_inv [OF rest inv1] k by (simp add: signer_inv_def)
  ultimately show ?thesis by (auto simp: request_ok_def Let_def)
qed

text \<open>
  A packet without signature info. When the approved parameter packet cannot be encoded for
  signing, the code is already \<^verbatim>\<open>OK\<close> when the exception leaves the handler: the result
  will be announced as a success with an empty signature value.
\<close>

theorem signer_ok_without_signature:
  assumes "request_ok api bls signer rq" and "rq_fetching rq"
    and "hmac_verify kc (m_hmacKey (rq_state rq)) d"
    and "parseParameterData api ossl d (rq_state rq) = Inr u" and "m_verifyToBeSignedCallback signer u"
    and "data_unsigned api u = Inl (Throws e)"
  shows "\<exists>rq'. onParameterReply api bls ossl kc signer (FetchedData d) rq = (rq', Some (Throws e)) \<and>
    m_code (rq_state rq') = OK \<and> m_signatureValue (rq_state rq') = []"
  using assms by (simp add: ndnGenBLSSignature_data_def set_code_def request_ok_def Let_def)

lemma status_readable:
  assumes "tlv_laws api" and "find (\<lambda>e. blk_type e = tlv_Status) es = Some (str_block api tlv_Status s)"
  shows "\<exists>b. tlv_get api es tlv_Status = Inr b \<and> read_string api b = s"
  using tlv_get_found [OF assms] read_str_block [OF assms(1)] by blast

text \<open>The acknowledgement of a refusal.\<close>

lemma onSignRequest_refused:
  assumes "bls_laws bls skAdd" and "packet_laws api"
    and "\<not> m_verifySignRequestCallback signer i \<or> \<not> interest_digest_valid api i \<or>
      parseSignRequestPayload api i = Inl (Throws w)"
  obtains ack where "onSignRequest api bls ossl signer rnd i rqs = (rqs, [PutData ack], None)"
    and "d_name ack = i_name i"
    and "d_content ack = block_with api TLV_Content [str_block api tlv_Status (code_text Processing)]"
    and "ndnBLSVerify_data api bls (blsGetPublicKey bls (m_sk signer)) ack = Inr True"
proof -
  let ?st = "str_block api tlv_Status (code_text Processing)"
  let ?ack = "(new_data (i_name i))\<lparr>d_content := block_with api TLV_Content [?st], d_freshness := TIMEOUT\<rparr>"
  have gen: "generateSignRequestAck api ossl (\<lambda>_. 0) (i_name i) (m_prefix signer) Unauthorized 0 [] [] [] = Inr ?ack"
    by (simp add: generateSignRequestAck_def content_of_eq [OF assms(2)])
  obtain v where v: "ndnBLSSign_data api bls (m_sk signer) ?ack (m_keyName signer) =
      Inr (?ack\<lparr>d_sigInfo := Some (bls_sig_info (m_keyName signer)), d_sigValue := v\<rparr>)"
    and ver: "ndnBLSVerify_data api bls (blsGetPublicKey bls (m_sk signer))
      (?ack\<lparr>d_sigInfo := Some (bls_sig_info (m_keyName signer)), d_sigValue := v\<rparr>) = Inr True"
    using sign_data_ok [OF assms(1,2)] by blast
  have "onSignRequest api bls ossl signer rnd i rqs = reject_request api bls ossl signer i rqs"
    using assms(3) by (auto simp: onSignRequest_def)
  also have "\<dots> = (rqs, [PutData (?ack\<lparr>d_sigInfo := Some (bls_sig_info (m_keyName signer)), d_sigValue := v\<rparr>)], None)"
    by (simp add: reject_request_def gen v)
  finally have r: "onSignRequest api bls ossl signer rnd i rqs =
      (rqs, [PutData (?ack\<lparr>d_sigInfo := Some (bls_sig_info (m_keyName signer)), d_sigValue := v\<rparr>)], None)" .
  show ?thesis by (rule that [OF r _ _ ver]) (simp_all add: new_data_def)
qed

text \<open>
  C38: how a request is refused. When the request callback refuses it, its parameter digest is
  wrong, or its payload does not parse, the state is unchanged and exactly one packet is sent: an
  acknowledgement with the name of the Interest that verifies under the signer's key, and whose
  status text is the one of \<^verbatim>\<open>Processing\<close> and not the code of the refusal.
\<close>

theorem onSignRequest_refuses:
  assumes "bls_laws bls skAdd" and "tlv_laws api" and "packet_laws api"
    and "\<not> m_verifySignRequestCallback signer i \<or> \<not> interest_digest_valid api i \<or>
      parseSignRequestPayload api i = Inl (Throws w)"
  shows "\<exists>ack es b. onSignRequest api bls ossl signer rnd i rqs = (rqs, [PutData ack], None) \<and>
    d_name ack = i_name i \<and>
    ndnBLSVerify_data api bls (blsGetPublicKey bls (m_sk signer)) ack = Inr True \<and>
    block_parse api (d_content ack) = Inr es \<and> tlv_get api es tlv_Status = Inr b \<and>
    read_string api b = code_text Processing"
proof -
  let ?st = "str_block api tlv_Status (code_text Processing)"
  obtain ack where "onSignRequest api bls ossl signer rnd i rqs = (rqs, [PutData ack], None)" "d_name ack = i_name i"
    "d_content ack = block_with api TLV_Content [?st]"
    "ndnBLSVerify_data api bls (blsGetPublicKey bls (m_sk signer)) ack = Inr True"
    by (rule onSignRequest_refused [OF assms(1,3,4)])
  moreover obtain b where "tlv_get api [?st] tlv_Status = Inr b" "read_string api b = code_text Processing"
    using status_readable [OF assms(2), of "[?st]"] by (auto simp: str_block_type [OF assms(2)])
  ultimately show ?thesis
    by (intro exI conjI) (assumption | simp add: block_parse_with [OF assms(2)])+
qed

end
