(* ===== verification/Crypto_Instances.thy ===== *)
theory Crypto_Instances
  imports Library_Instances Signer
begin

text \<open>
  Concrete functions for OpenSSL and the key chain, used by the witnesses only: a key exchange
  whose secret is the sum of two numbers, a cipher that keeps the plaintext and tags it with the
  first bytes of the key, and signatures that repeat the key. \<open>ossl_laws_demo\<close> and
  \<open>keychain_laws_demo\<close> show that the laws hold together.
\<close>

section \<open>OpenSSL\<close>

definition demo_tag :: "bytes \<Rightarrow> bytes" where
  "demo_tag key = take 16 (key @ replicate 16 0)"

definition demo_ossl :: "nat ossl_api" where
  "demo_ossl = \<lparr>evp_keygen = (\<lambda>r. (1, r)), evp_get1_ec_key = (\<lambda>_. True),
     point2oct_len = (\<lambda>k. length (enc_nat k)), point2oct = (\<lambda>k n. (enc_nat k, 1)),
     evp_derive_len = (\<lambda>_ _. 32),
     evp_derive = (\<lambda>k peer n. case run_decoder dec_nat peer of Inr p \<Rightarrow> (enc_nat (k + p), 1) | Inl _ \<Rightarrow> ([], 0)),
     ossl_HMAC = (\<lambda>d key. Some (key @ d)),
     hkdf_derive = (\<lambda>s salt info n. (take n (s @ salt @ info @ replicate n 0), 1)),
     gcm_encrypt = (\<lambda>key iv aad pt. (pt, demo_tag key, 1)),
     gcm_decrypt = (\<lambda>key iv aad tag ct. if tag = demo_tag key then (ct, 1) else ([], 0)),
     base64_stream = (\<lambda>d _. map char_of_byte d)\<rparr>"

lemma ossl_laws_demo: "ossl_laws demo_ossl"
  using run_decoder_enc [OF codes_nat]
  by (auto simp: ossl_laws_def demo_ossl_def ossl_pub_def ossl_secret_def demo_tag_def add.commute min_def)

section \<open>The key chain\<close>

definition demo_keychain :: "gcomp keychain_api" where
  "demo_keychain = \<lparr>
     hmac_sign = (\<lambda>key d. Inr (d\<lparr>d_sigInfo := Some \<lparr>si_type = 4, si_keyLocator = KL_Empty, si_validity = None\<rparr>,
       d_sigValue := map byte_of_char key\<rparr>)),
     hmac_verify = (\<lambda>key d. d_sigValue d = map byte_of_char key),
     key_sign_data = (\<lambda>n d. Inr (d\<lparr>d_sigInfo := Some \<lparr>si_type = 3, si_keyLocator = KL_Name n, si_validity = None\<rparr>,
       d_sigValue := enc_name n\<rparr>)),
     key_sign_interest = (\<lambda>n i. Inr (i\<lparr>i_sigInfo := Some \<lparr>si_type = 3, si_keyLocator = KL_Name n, si_validity = None\<rparr>,
       i_sigValue := enc_name n\<rparr>))\<rparr>"

lemma keychain_laws_demo: "keychain_laws demo_keychain"
  unfolding keychain_laws_def by (auto simp: demo_keychain_def)

end
