(* ===== verification/Signer_List.thy ===== *)
theory Signer_List
  imports Ndn_Api
begin

text \<open>
  \<^verbatim>\<open>MpsSignerList\<close> of \<^verbatim>\<open>mps-signer-list.cpp\<close>: the list of the names of the
  signers (its only field \<^verbatim>\<open>m_signers\<close> is the value here), its TLV encoding of type
  200, and the comparison, which sorts copies of both lists.

  The locale \<open>wire_codec\<close> is the contract of an encoder with its decoder, as long as the
  laws of the library hold; the interpretations give it for names and for signer lists.
\<close>

section \<open>The contract of a codec\<close>

locale wire_codec =
  fixes laws :: bool
    and valid :: "'a \<Rightarrow> bool"
    and enc :: "'a \<Rightarrow> 'w"
    and dec :: "'w \<Rightarrow> 'a res"
  assumes round: "laws \<Longrightarrow> valid x \<Longrightarrow> dec (enc x) = Inr x"
begin

lemma enc_inj: "laws \<Longrightarrow> valid x \<Longrightarrow> valid y \<Longrightarrow> enc x = enc y \<longleftrightarrow> x = y"
  by (metis round sum.inject(2))

lemma round_list: "laws \<Longrightarrow> list_all valid xs \<Longrightarrow> res_map dec (map enc xs) = Inr xs"
  by (induction xs) (auto simp: round)

end

interpretation name_codec: wire_codec "tlv_laws api" "\<lambda>_. True" "name_wire api" "name_of_block api"
  for api :: "('c, 'z) tlv_api_scheme"
  by unfold_locales (rule name_of_wire)

section \<open>The operations\<close>

type_synonym 'c signer_list = "'c name list"

definition tlv_MpsSignerList :: nat where
  "tlv_MpsSignerList = 200"

definition signers_wireEncode :: "('c, 'z) tlv_api_scheme \<Rightarrow> 'c signer_list \<Rightarrow> block" where
  "signers_wireEncode api m_signers =
     block_with api tlv_MpsSignerList (map (\<lambda>item. name_wire api item) m_signers)"

text \<open>Appending to an encoder: the encoder's contents and the returned size.\<close>

definition signers_wireEncode_to ::
  "('c, 'z) tlv_api_scheme \<Rightarrow> bytes \<Rightarrow> 'c signer_list \<Rightarrow> bytes \<times> nat" where
  "signers_wireEncode_to api encoder m_signers =
     (let b = tlv_encode api [signers_wireEncode api m_signers] in (encoder @ b, length b))"

definition signers_wireDecode :: "('c, 'z) tlv_api_scheme \<Rightarrow> block \<Rightarrow> 'c signer_list res" where
  "signers_wireDecode api wire =
     (if blk_type wire \<noteq> tlv_MpsSignerList then Inl (Throws ''unexpected type, MultiPartySignerList'')
      else res_bind (block_parse api wire) (\<lambda>elements. res_map (name_of_block api) elements))"

definition signers_equal :: "'c::linorder signer_list \<Rightarrow> 'c signer_list \<Rightarrow> bool" where
  "signers_equal lhs rhs \<longleftrightarrow>
     (let nameList = sort lhs; rhsNameList = sort rhs in nameList = rhsNameList)"

definition signers_not_equal :: "'c::linorder signer_list \<Rightarrow> 'c signer_list \<Rightarrow> bool" where
  "signers_not_equal lhs rhs \<longleftrightarrow> \<not> signers_equal lhs rhs"

definition signers_print :: "('c, 'z) name_api_scheme \<Rightarrow> string \<Rightarrow> 'c signer_list \<Rightarrow> string" where
  "signers_print api os signerList =
     foldl (\<lambda>os i. os @ name_uri api i @ '', '') (os @ ''MpsSignerList [ '') signerList @ '']''"

section \<open>Correctness\<close>

interpretation signers_codec:
  wire_codec "tlv_laws api" "\<lambda>_. True" "signers_wireEncode api" "signers_wireDecode api"
  for api :: "('c, 'z) tlv_api_scheme"
proof
  fix x :: "'c signer_list"
  assume laws: "tlv_laws api"
  have "list_all (\<lambda>_. True) x" by (simp add: list_all_iff)
  from name_codec.round_list [OF laws this] show "signers_wireDecode api (signers_wireEncode api x) = Inr x"
    by (simp add: signers_wireDecode_def signers_wireEncode_def block_parse_with [OF laws])
qed

text \<open>
  Encoding then decoding a signer list returns the list, in order and with repetitions; a
  block of any other type is refused; and two lists have the same encoding only when they are
  equal.
\<close>

theorem signers_wire_roundtrip:
  assumes "tlv_laws api"
  shows "signers_wireDecode api (signers_wireEncode api xs) = Inr xs \<and>
    (blk_type b \<noteq> 200 \<longrightarrow> (\<exists>w. signers_wireDecode api b = Inl (Throws w))) \<and>
    (signers_wireEncode api xs = signers_wireEncode api ys \<longleftrightarrow> xs = ys)"
  using signers_codec.round [OF assms] signers_codec.enc_inj [OF assms]
  by (simp add: signers_wireDecode_def tlv_MpsSignerList_def)

lemma signers_equal_mset: "signers_equal us vs \<longleftrightarrow> mset us = mset vs"
proof
  assume "signers_equal us vs"
  then have "sort us = sort vs" by (simp add: signers_equal_def)
  then show "mset us = mset vs" by (metis mset_sort)
next
  assume "mset us = mset vs"
  then have "sort us = sort vs"
    by (intro properties_for_sort) simp_all
  then show "signers_equal us vs" by (simp add: signers_equal_def)
qed

text \<open>
  The comparison is equality up to reordering, repetitions included. It is finer than the
  equality of the sets of names that its documentation promises: a list that repeats a name
  differs from the list that has it once.
\<close>

theorem signers_equal_iff_mset:
  fixes xs ys :: "'c::linorder signer_list"
  shows "(signers_equal xs ys \<longleftrightarrow> mset xs = mset ys) \<and>
    (signers_not_equal xs ys \<longleftrightarrow> mset xs \<noteq> mset ys) \<and>
    signers_not_equal (n # n # xs) (n # xs) \<and> set (n # n # xs) = set (n # xs)"
  by (simp add: signers_equal_mset signers_not_equal_def)

lemma signers_print_eq:
  "signers_print api os xs = os @ ''MpsSignerList [ '' @ concat (map (\<lambda>n. name_uri api n @ '', '') xs) @ '']''"
proof -
  have "foldl (\<lambda>os i. os @ name_uri api i @ '', '') acc xs = acc @ concat (map (\<lambda>n. name_uri api n @ '', '') xs)" for acc
    by (induction xs arbitrary: acc) auto
  then show ?thesis by (simp add: signers_print_def)
qed

end
