(* ===== verification/Initiator.thy ===== *)
theory Initiator
  imports Schema_Container Signer_List Signer
begin

text \<open>
  \<^verbatim>\<open>MPSInitiator\<close> of \<^verbatim>\<open>initiator.cpp\<close>: the packets it prepares and parses, the
  state of one multi-party signature with the states of its remote calls, and its handlers. The
  world \<open>iw_...\<close> is one run of \<^verbatim>\<open>multiPartySign\<close>: the schema container, the global
  state, the remote calls in the order they were started (a continuation names its call by the
  position), and what was sent, called back and thrown so far. \<open>ps_phase\<close> says which
  continuation of a call the face or the scheduler still holds.
\<close>

section \<open>State\<close>

record 'c global_state =
  g_signers :: "'c name list"
  g_schema :: "'c schema"
  g_toBeSigned :: "'c data"
  g_signInfo :: "'c data"
  g_fetchedSignatures :: "bytes list"
  g_signingKeyName :: "'c name"

text \<open>
  The last two phases hold nothing any more: the call delivered its signature piece, or it ended
  without one.
\<close>

datatype phase = AwaitAck | ResultScheduled | AwaitResult | Delivered bytes | Ended

record ('c, 'priv) per_signer =
  ps_signerKeyName :: "'c name"
  ps_ecdh :: "'priv ecdh_state"
  ps_aesKey :: bytes
  ps_hmacKey :: string
  ps_paraData :: "'c data"
  ps_paraDataReady :: bool
  ps_nextResultName :: "'c name"
  ps_paraPrefixHandle :: bool
  ps_phase :: phase

datatype 'c initiator_output =
    PutParameter "'c data"
  | SendInterest "'c interest"
  | RegisterParameter "'c name"
  | ScheduleFetch nat
  | WaitForever
  | SuccessCb "'c data" "'c data"
  | FailureCb string

record ('c, 'pk, 'priv) initiator_world =
  iw_container :: "('c, 'pk) container"
  iw_global :: "'c global_state"
  iw_calls :: "('c, 'priv) per_signer list"
  iw_sent :: "'c initiator_output list"
  iw_faults :: "fault list"

section \<open>Preparing and parsing packets\<close>

definition prepareUnfinishedDataAndInfoData ::
  "('c, 'z) packet_api_scheme \<Rightarrow> nat \<Rightarrow> 'c data \<Rightarrow> 'c name \<Rightarrow> 'c data \<times> 'c data" where
  "prepareUnfinishedDataAndInfoData api keyLocatorRandomness unsignedData initiatorPrefix =
     (let keyLocatorName = initiatorPrefix @ [comp_of_string api ''mps'', comp_of_number api keyLocatorRandomness];
          unfinishedData = unsignedData\<lparr>d_sigInfo := Some (bls_sig_info keyLocatorName), d_sigValue := []\<rparr>;
          sigInfoData = new_data keyLocatorName
      in (unfinishedData, sigInfoData))"

definition prepareParameterData ::
  "('c, 'z) packet_api_scheme \<Rightarrow> nat \<Rightarrow> 'c data \<Rightarrow> 'c name \<Rightarrow> 'c data" where
  "prepareParameterData api paraRandomness unfinishedData initiatorPrefix =
     (let paraDataName = initiatorPrefix @
            [comp_of_string api ''mps'', comp_of_string api ''param'', comp_of_number api paraRandomness]
      in (new_data paraDataName)\<lparr>d_content := content_of api (data_wire api unfinishedData),
           d_freshness := 4000\<rparr>)"

definition prepareSignRequestInterest ::
  "('c, 'z) packet_api_scheme \<Rightarrow> 'c name \<Rightarrow> 'c name \<Rightarrow> bytes \<Rightarrow> 'c interest" where
  "prepareSignRequestInterest api signerPrefix paraDataName selfPubKey =
     (let signRequestName = signerPrefix @ [comp_of_string api ''mps'', comp_of_string api ''sign''];
          appParam = block_with api TLV_ApplicationParameters
            [nested_block api tlv_ParameterDataName (name_wire api paraDataName), Blk tlv_EcdhPub selfPubKey]
      in (new_interest signRequestName)\<lparr>i_appParams := appParam, i_canBePrefix := False, i_mustBeFresh := True\<rparr>)"

text \<open>
  The salt is copied into an array of 32 bytes: more bytes overflow it, fewer leave some of it
  uninitialised. The result is the changed state (keys, next result name) and the delay in
  milliseconds; the caller discards both when the function throws. The delay is the number that was
  read: its conversion to a signed count, which changes numbers from \<open>2 ^ 63\<close> on, is left to the
  scheduler.
\<close>

definition parseAckReply ::
  "('c, 'z) packet_api_scheme \<Rightarrow> ('priv, 'o) ossl_api_scheme \<Rightarrow> 'c data \<Rightarrow> ('c, 'priv) per_signer \<Rightarrow>
   (('c, 'priv) per_signer \<times> nat) res" where
  "parseAckReply api ossl d ps =
     res_bind (block_parse api (d_content d)) (\<lambda>contentBlock.
     res_bind (tlv_get api contentBlock tlv_Status) (\<lambda>status.
       if read_string api status \<noteq> ''102''
       then Inl (Throws (''Rejected by the signer with Error code'' @ read_string api status))
       else
     res_bind (tlv_get api contentBlock tlv_EcdhPub) (\<lambda>ecdhBlock.
     res_bind (tlv_get api contentBlock tlv_Salt) (\<lambda>saltBlock.
       if length (blk_value saltBlock) \<noteq> 32 then Inl (Undefined ''memcpy of the salt'')
       else
     res_bind (deriveSecret ossl (ps_ecdh ps) (blk_value ecdhBlock)) (\<lambda>(ecdh, dhSecret).
     res_bind (session_keys ossl dhSecret (blk_value saltBlock)) (\<lambda>(aesKey, hmacKeyStr).
     res_bind (decodeBlockWithAesGcm128 api ossl (d_content d) aesKey []) (\<lambda>buf.
     res_bind (tlv_parse api buf) (\<lambda>decrypted.
     res_bind (res_bind (tlv_get api decrypted tlv_ResultAfter) (read_nn api)) (\<lambda>result_ms.
     res_bind (res_bind (tlv_get api decrypted tlv_ResultName) (\<lambda>b.
         res_bind (block_from_value api b) (name_of_block api))) (\<lambda>resultName.
       Inr (ps\<lparr>ps_ecdh := ecdh, ps_aesKey := aesKey, ps_hmacKey := hmacKeyStr,
               ps_nextResultName := resultName\<rparr>, result_ms)))))))))))"

definition parseResultData ::
  "('c, 'z) packet_api_scheme \<Rightarrow> ('priv, 'o) ossl_api_scheme \<Rightarrow> 'c data \<Rightarrow> ('c, 'priv) per_signer \<Rightarrow>
   block list res" where
  "parseResultData api ossl d ps =
     res_bind (block_parse api (d_content d)) (\<lambda>_.
     res_bind (decodeBlockWithAesGcm128 api ossl (d_content d) (ps_aesKey ps) []) (\<lambda>decryptedBuf.
       tlv_parse api decryptedBuf))"

section \<open>Remote calls\<close>

record call_random =
  cr_ecdh :: nat
  cr_param :: nat

text \<open>
  Starting a call. When an exception leaves the function, the filter may already be registered.
\<close>

definition performRPC ::
  "('c, 'z) packet_api_scheme \<Rightarrow> ('priv, 'o) ossl_api_scheme \<Rightarrow> ('c, 'x) keychain_api_scheme \<Rightarrow> 'c name \<Rightarrow>
   call_random \<Rightarrow> 'c name \<Rightarrow> 'c global_state \<Rightarrow>
   ('c, 'priv) per_signer list \<times> 'c initiator_output list \<times> fault option" where
  "performRPC api ossl kc initiatorPrefix rnd signerKeyName g =
     (case ECDHState_new ossl (cr_ecdh rnd) of
        Inl e \<Rightarrow> ([], [], Some e)
      | Inr ecdh \<Rightarrow>
         (let paraData = prepareParameterData api (cr_param rnd) (g_toBeSigned g) initiatorPrefix;
              register = RegisterParameter (d_name paraData)
          in (case res_bind (getSelfPubKey ossl ecdh) (\<lambda>(ecdh, selfPubKey).
                 res_bind (key_sign_interest kc (g_signingKeyName g)
                     (prepareSignRequestInterest api (name_prefix_neg signerKeyName 2) (d_name paraData) selfPubKey))
                   (\<lambda>signRequestInt. Inr (ecdh, signRequestInt))) of
               Inl e \<Rightarrow> ([], [register], Some e)
             | Inr (ecdh, signRequestInt) \<Rightarrow>
                 ([\<lparr>ps_signerKeyName = signerKeyName, ps_ecdh = ecdh, ps_aesKey = [], ps_hmacKey = [],
                    ps_paraData = paraData, ps_paraDataReady = False, ps_nextResultName = [],
                    ps_paraPrefixHandle = True, ps_phase = AwaitAck\<rparr>],
                  [register, SendInterest signRequestInt], None))))"

text \<open>The loops over signers: an exception ends them.\<close>

fun performRPCs ::
  "('c, 'z) packet_api_scheme \<Rightarrow> ('priv, 'o) ossl_api_scheme \<Rightarrow> ('c, 'x) keychain_api_scheme \<Rightarrow> 'c name \<Rightarrow>
   (nat \<Rightarrow> call_random) \<Rightarrow> 'c name list \<Rightarrow> ('c, 'pk, 'priv) initiator_world \<Rightarrow> ('c, 'pk, 'priv) initiator_world" where
  "performRPCs api ossl kc initiatorPrefix rnd [] w = w"
| "performRPCs api ossl kc initiatorPrefix rnd (item # rest) w =
     (case performRPC api ossl kc initiatorPrefix (rnd 0) item (iw_global w) of (calls, outs, f) \<Rightarrow>
       (let w' = w\<lparr>iw_calls := iw_calls w @ calls, iw_sent := iw_sent w @ outs,
                   iw_faults := iw_faults w @ fault_list f\<rparr>
        in if f = None then performRPCs api ossl kc initiatorPrefix (rnd \<circ> Suc) rest w' else w'))"

text \<open>
  The call \<^verbatim>\<open>multiPartySign\<close>: \<open>Inl\<close> is the exception of
  \<^verbatim>\<open>getAvailableSigners\<close>. After reporting that there are no signers the code goes on.
\<close>

definition multiPartySign ::
  "('c::linorder, 'z) packet_api_scheme \<Rightarrow> ('priv, 'o) ossl_api_scheme \<Rightarrow> ('c, 'x) keychain_api_scheme \<Rightarrow> 'c name \<Rightarrow>
   nat \<Rightarrow> (nat \<Rightarrow> call_random) \<Rightarrow> ('c, 'pk) container \<Rightarrow> 'c data \<Rightarrow> 'c schema \<Rightarrow> 'c name \<Rightarrow>
   ('c, 'pk, 'priv) initiator_world res" where
  "multiPartySign api ossl kc initiatorPrefix keyLocatorRandomness rnd c unsignedData schema signingKeyName =
     res_bind (getAvailableSigners api c schema) (\<lambda>signers.
       (let outs = (if length signers = 0 then [FailureCb ''No sufficient number of known signers.''] else []);
            (toBeSigned, signInfo) = prepareUnfinishedDataAndInfoData api keyLocatorRandomness unsignedData initiatorPrefix;
            g = \<lparr>g_signers = signers, g_schema = schema, g_toBeSigned = toBeSigned, g_signInfo = signInfo,
                 g_fetchedSignatures = [], g_signingKeyName = signingKeyName\<rparr>
        in Inr (performRPCs api ossl kc initiatorPrefix rnd signers
             \<lparr>iw_container = c, iw_global = g, iw_calls = [], iw_sent = outs, iw_faults = []\<rparr>)))"

definition onUnavailableSigner ::
  "('c::linorder, 'z) packet_api_scheme \<Rightarrow> ('priv, 'o) ossl_api_scheme \<Rightarrow> ('c, 'x) keychain_api_scheme \<Rightarrow> 'c name \<Rightarrow>
   (nat \<Rightarrow> call_random) \<Rightarrow> string \<Rightarrow> 'c name \<Rightarrow> ('c, 'pk, 'priv) initiator_world \<Rightarrow>
   ('c, 'pk, 'priv) initiator_world" where
  "onUnavailableSigner api ossl kc initiatorPrefix rnd reason unavailableSignerKeyName w =
     (case replaceSigner api (iw_container w) (g_signers (iw_global w)) unavailableSignerKeyName
             (g_schema (iw_global w)) of
        (c, newSigners, diffSigners) \<Rightarrow>
          (if newSigners = []
           then w\<lparr>iw_container := c, iw_sent := iw_sent w @
                  [FailureCb (reason @ '' And we cannot find replacements for the unavailable signer'')]\<rparr>
           else performRPCs api ossl kc initiatorPrefix rnd diffSigners
                  (w\<lparr>iw_container := c, iw_global := (iw_global w)\<lparr>g_signers := newSigners\<rparr>\<rparr>)))"

section \<open>The continuations\<close>

definition set_call :: "nat \<Rightarrow> ('c, 'priv) per_signer \<Rightarrow> ('c, 'pk, 'priv) initiator_world \<Rightarrow> ('c, 'pk, 'priv) initiator_world" where
  "set_call k ps w = w\<lparr>iw_calls := (iw_calls w)[k := ps]\<rparr>"

definition emit :: "'c initiator_output list \<Rightarrow> ('c, 'pk, 'priv) initiator_world \<Rightarrow> ('c, 'pk, 'priv) initiator_world" where
  "emit outs w = w\<lparr>iw_sent := iw_sent w @ outs\<rparr>"

definition raise :: "fault \<Rightarrow> ('c, 'pk, 'priv) initiator_world \<Rightarrow> ('c, 'pk, 'priv) initiator_world" where
  "raise e w = w\<lparr>iw_faults := iw_faults w @ [e]\<rparr>"

text \<open>
  The acknowledgement. An exception of the parser is caught and the continuation returns: nothing
  replaces the signer. Exceptions of the encryption and of the key chain leave the continuation.
\<close>

definition onAckData ::
  "('c::linorder, 'z) packet_api_scheme \<Rightarrow> ('priv, 'o) ossl_api_scheme \<Rightarrow> ('c, 'x) keychain_api_scheme \<Rightarrow>
   (nat \<Rightarrow> byte) \<Rightarrow> nat \<Rightarrow> 'c data \<Rightarrow> ('c, 'pk, 'priv) initiator_world \<Rightarrow> ('c, 'pk, 'priv) initiator_world" where
  "onAckData api ossl kc iv k ackData w =
     (let ps = (iw_calls w ! k)\<lparr>ps_phase := Ended\<rparr> in
      (case parseAckReply api ossl ackData ps of
         Inl (Throws _) \<Rightarrow> set_call k ps w
       | Inl (Undefined u) \<Rightarrow> raise (Undefined u) (set_call k ps w)
       | Inr (ps, result_ms) \<Rightarrow>
           (case res_bind (encodeBlockWithAesGcm128 api ossl iv TLV_Content (ps_aesKey ps)
                    (blk_value (d_content (ps_paraData ps))) []) (\<lambda>encryptedBlock.
                  hmac_sign kc (ps_hmacKey ps) ((ps_paraData ps)\<lparr>d_content := content_of api encryptedBlock\<rparr>)) of
              Inl e \<Rightarrow> raise e (set_call k ps w)
            | Inr paraData \<Rightarrow>
                emit [ScheduleFetch result_ms]
                  (set_call k (ps\<lparr>ps_paraData := paraData, ps_paraDataReady := True,
                     ps_phase := ResultScheduled\<rparr>) w))))"

text \<open>The scheduled fetch of the result, under the result name of the acknowledgement.\<close>

definition onResultTimer ::
  "('c, 'x) keychain_api_scheme \<Rightarrow> nat \<Rightarrow> ('c, 'pk, 'priv) initiator_world \<Rightarrow> ('c, 'pk, 'priv) initiator_world" where
  "onResultTimer kc k w =
     (let ps = (iw_calls w ! k)\<lparr>ps_paraPrefixHandle := False, ps_phase := Ended\<rparr>;
          resultFetchInt = (new_interest (ps_nextResultName ps))\<lparr>i_canBePrefix := True, i_mustBeFresh := True\<rparr>
      in (case key_sign_interest kc (g_signingKeyName (iw_global w)) resultFetchInt of
            Inl e \<Rightarrow> raise e (set_call k ps w)
          | Inr i \<Rightarrow> emit [SendInterest i] (set_call k (ps\<lparr>ps_phase := AwaitResult\<rparr>) w)))"

text \<open>A signature piece has arrived: the end of the run when it is the last one.\<close>

definition addSignature ::
  "('c, 'z) packet_api_scheme \<Rightarrow> ('sk, 'pk, 'sig, 'y) bls_api_scheme \<Rightarrow> ('c, 'x) keychain_api_scheme \<Rightarrow> bytes \<Rightarrow>
   ('c, 'pk, 'priv) initiator_world \<Rightarrow> ('c, 'pk, 'priv) initiator_world" where
  "addSignature api bls kc sigBlock w =
     (let g = (iw_global w)\<lparr>g_fetchedSignatures := g_fetchedSignatures (iw_global w) @ [sigBlock]\<rparr>;
          w = w\<lparr>iw_global := g\<rparr>
      in if length (g_fetchedSignatures g) \<noteq> length (g_signers g) then w
         else (case ndnBLSAggregateSignature_bufs bls (g_fetchedSignatures g) of
             Inl e \<Rightarrow> raise e w
           | Inr aggSignature \<Rightarrow>
              (let toBeSigned = (g_toBeSigned g)\<lparr>d_sigValue := aggSignature\<rparr>;
                   signInfo = (g_signInfo g)\<lparr>d_content := content_of api (signers_wireEncode api (g_signers g))\<rparr>
               in (case key_sign_data kc (g_signingKeyName g) signInfo of
                     Inl e \<Rightarrow> raise e (w\<lparr>iw_global := g\<lparr>g_toBeSigned := toBeSigned, g_signInfo := signInfo\<rparr>\<rparr>)
                   | Inr signInfo \<Rightarrow>
                       emit [SuccessCb toBeSigned signInfo]
                         (w\<lparr>iw_global := g\<lparr>g_toBeSigned := toBeSigned, g_signInfo := signInfo\<rparr>\<rparr>)))))"

text \<open>
  The result. The new result name of a \<^verbatim>\<open>Processing\<close> reply is read and then dropped.
\<close>

definition onResultData ::
  "('c::linorder, 'z) packet_api_scheme \<Rightarrow> ('sk, 'pk, 'sig, 'y) bls_api_scheme \<Rightarrow> ('priv, 'o) ossl_api_scheme \<Rightarrow>
   ('c, 'x) keychain_api_scheme \<Rightarrow> 'c name \<Rightarrow> (nat \<Rightarrow> call_random) \<Rightarrow> nat \<Rightarrow> 'c data \<Rightarrow>
   ('c, 'pk, 'priv) initiator_world \<Rightarrow> ('c, 'pk, 'priv) initiator_world" where
  "onResultData api bls ossl kc initiatorPrefix rnd k resultData w =
     (let ps = (iw_calls w ! k)\<lparr>ps_phase := Ended\<rparr>; w = set_call k ps w in
      if \<not> hmac_verify kc (ps_hmacKey ps) resultData then w
      else (case res_bind (parseResultData api ossl resultData ps) (\<lambda>es.
               res_bind (tlv_get api es tlv_Status) (\<lambda>status. Inr (es, read_string api status))) of
          Inl e \<Rightarrow> raise e w
        | Inr (es, code) \<Rightarrow>
           (if code = ''200'' then
              (case tlv_get api es tlv_BLSSigValue of
                 Inl e \<Rightarrow> raise e w
               | Inr sigBlock \<Rightarrow> addSignature api bls kc (blk_value sigBlock)
                   (set_call k (ps\<lparr>ps_phase := Delivered (blk_value sigBlock)\<rparr>) w))
            else if code \<noteq> ''102'' then
              onUnavailableSigner api ossl kc initiatorPrefix rnd
                (''Received Error code when requesting signer '' @ name_uri api (name_prefix_neg (ps_signerKeyName ps) 2))
                (ps_signerKeyName ps) w
            else
              (case res_bind (res_bind (tlv_get api es tlv_ResultAfter) (read_nn api)) (\<lambda>result_ms.
                   res_bind (res_bind (tlv_get api es tlv_ResultName) (\<lambda>b.
                       res_bind (block_from_value api b) (name_of_block api))) (\<lambda>newResultName.
                     Inr result_ms)) of
                 Inl e \<Rightarrow> raise e w
               | Inr result_ms \<Rightarrow> emit [ScheduleFetch result_ms] (set_call k (ps\<lparr>ps_phase := ResultScheduled\<rparr>) w)))))"

text \<open>The NACK and timeout continuations of both Interests.\<close>

definition onNoReply ::
  "('c::linorder, 'z) packet_api_scheme \<Rightarrow> ('priv, 'o) ossl_api_scheme \<Rightarrow> ('c, 'x) keychain_api_scheme \<Rightarrow> 'c name \<Rightarrow>
   (nat \<Rightarrow> call_random) \<Rightarrow> string \<Rightarrow> nat \<Rightarrow> ('c, 'pk, 'priv) initiator_world \<Rightarrow> ('c, 'pk, 'priv) initiator_world" where
  "onNoReply api ossl kc initiatorPrefix rnd what k w =
     (let ps = (iw_calls w ! k)\<lparr>ps_phase := Ended\<rparr> in
      onUnavailableSigner api ossl kc initiatorPrefix rnd
        (what @ '' when requesting signer '' @ name_uri api (name_prefix_neg (ps_signerKeyName ps) 2))
        (ps_signerKeyName ps) (set_call k ps w))"

text \<open>
  An Interest for the parameter data: the handler waits for the future, for ever when the
  acknowledgement has not been processed, since it runs on the thread that would process it.
\<close>

definition onParameterInterest ::
  "nat \<Rightarrow> ('c, 'pk, 'priv) initiator_world \<Rightarrow> ('c, 'pk, 'priv) initiator_world" where
  "onParameterInterest k w =
     (if ps_paraDataReady (iw_calls w ! k) then emit [PutParameter (ps_paraData (iw_calls w ! k))] w
      else emit [WaitForever] w)"

end
