(* ===== verification/Initiator_Session.thy ===== *)
theory Initiator_Session
  imports Initiator
begin

text \<open>
  One run of \<^verbatim>\<open>multiPartySign\<close> as an event system: which continuation can run when, and
  what every run keeps. The invariant \<open>session_ok\<close> ties the fetched signatures to the calls
  that delivered them and the calls to the current signer list; \<open>hopeless\<close> says that some
  listed signer will never deliver, and is kept for ever.
\<close>

section \<open>Events\<close>

datatype 'c initiator_event =
    AckReply nat "'c fetch_reply" "nat \<Rightarrow> byte" "nat \<Rightarrow> call_random"
  | ResultTimer nat
  | ResultReply nat "'c fetch_reply" "nat \<Rightarrow> call_random"
  | ParameterInterest nat

definition blocked :: "('c, 'pk, 'priv) initiator_world \<Rightarrow> bool" where
  "blocked w \<longleftrightarrow> WaitForever \<in> set (iw_sent w)"

fun initiator_enabled :: "('c, 'pk, 'priv) initiator_world \<Rightarrow> 'c initiator_event \<Rightarrow> bool" where
  "initiator_enabled w (AckReply k r iv rnd) =
     (\<not> blocked w \<and> k < length (iw_calls w) \<and> ps_phase (iw_calls w ! k) = AwaitAck)"
| "initiator_enabled w (ResultTimer k) =
     (\<not> blocked w \<and> k < length (iw_calls w) \<and> ps_phase (iw_calls w ! k) = ResultScheduled)"
| "initiator_enabled w (ResultReply k r rnd) =
     (\<not> blocked w \<and> k < length (iw_calls w) \<and> ps_phase (iw_calls w ! k) = AwaitResult)"
| "initiator_enabled w (ParameterInterest k) =
     (\<not> blocked w \<and> k < length (iw_calls w) \<and> ps_paraPrefixHandle (iw_calls w ! k))"

fun initiator_handle ::
  "('c::linorder, 'z) packet_api_scheme \<Rightarrow> ('sk, 'pk, 'sig, 'y) bls_api_scheme \<Rightarrow> ('priv, 'o) ossl_api_scheme \<Rightarrow>
   ('c, 'x) keychain_api_scheme \<Rightarrow> 'c name \<Rightarrow> ('c, 'pk, 'priv) initiator_world \<Rightarrow> 'c initiator_event \<Rightarrow>
   ('c, 'pk, 'priv) initiator_world" where
  "initiator_handle api bls ossl kc prefix w (AckReply k (FetchedData d) iv rnd) = onAckData api ossl kc iv k d w"
| "initiator_handle api bls ossl kc prefix w (AckReply k FetchNack iv rnd) =
     onNoReply api ossl kc prefix rnd ''Received NACK'' k w"
| "initiator_handle api bls ossl kc prefix w (AckReply k FetchTimeout iv rnd) =
     onNoReply api ossl kc prefix rnd ''Interest timeout'' k w"
| "initiator_handle api bls ossl kc prefix w (ResultTimer k) = onResultTimer kc k w"
| "initiator_handle api bls ossl kc prefix w (ResultReply k (FetchedData d) rnd) =
     onResultData api bls ossl kc prefix rnd k d w"
| "initiator_handle api bls ossl kc prefix w (ResultReply k FetchNack rnd) =
     onNoReply api ossl kc prefix rnd ''Received NACK'' k w"
| "initiator_handle api bls ossl kc prefix w (ResultReply k FetchTimeout rnd) =
     onNoReply api ossl kc prefix rnd ''Interest timeout'' k w"
| "initiator_handle api bls ossl kc prefix w (ParameterInterest k) = onParameterInterest k w"

section \<open>The invariant\<close>

definition is_active :: "phase \<Rightarrow> bool" where
  "is_active p \<longleftrightarrow> p \<in> {AwaitAck, ResultScheduled, AwaitResult}"

definition piece_list :: "phase \<Rightarrow> bytes list" where
  "piece_list p = (case p of Delivered b \<Rightarrow> [b] | _ \<Rightarrow> [])"

definition pieces :: "('c, 'priv) per_signer list \<Rightarrow> bytes list" where
  "pieces calls = concat (map (\<lambda>ps. piece_list (ps_phase ps)) calls)"

definition delivered :: "('c, 'priv) per_signer list \<Rightarrow> 'c name list" where
  "delivered calls = map ps_signerKeyName (filter (\<lambda>ps. piece_list (ps_phase ps) \<noteq> []) calls)"

fun success_of :: "'c initiator_output \<Rightarrow> ('c data \<times> 'c data) list" where
  "success_of (SuccessCb d i) = [(d, i)]"
| "success_of _ = []"

fun failure_of :: "'c initiator_output \<Rightarrow> string list" where
  "failure_of (FailureCb s) = [s]"
| "failure_of _ = []"

definition successes :: "('c, 'pk, 'priv) initiator_world \<Rightarrow> ('c data \<times> 'c data) list" where
  "successes w = concat (map success_of (iw_sent w))"

definition failures :: "('c, 'pk, 'priv) initiator_world \<Rightarrow> string list" where
  "failures w = concat (map failure_of (iw_sent w))"

definition hopeless :: "('c, 'pk, 'priv) initiator_world \<Rightarrow> bool" where
  "hopeless w \<longleftrightarrow> (g_signers (iw_global w) = [] \<and> iw_calls w = []) \<or>
     (\<exists>u \<in> set (g_signers (iw_global w)). \<forall>ps \<in> set (iw_calls w). ps_signerKeyName ps = u \<longrightarrow> ps_phase ps = Ended)"

text \<open>
  The calls fit the signer list, and the fetched signatures fit the calls. A signer may be called
  again after its call has ended, when its mark has been reset.
\<close>

definition running :: "('c, 'priv) per_signer list \<Rightarrow> ('c, 'priv) per_signer list" where
  "running calls = filter (\<lambda>ps. ps_phase ps \<noteq> Ended) calls"

definition calls_ok :: "('c, 'pk, 'priv) initiator_world \<Rightarrow> bool" where
  "calls_ok w \<longleftrightarrow>
     distinct (g_signers (iw_global w)) \<and>
     trusted_key (iw_container w) [] = None \<and>
     distinct (map ps_signerKeyName (running (iw_calls w))) \<and>
     (\<forall>ps \<in> set (iw_calls w). ps_phase ps \<noteq> Ended \<longrightarrow> ps_signerKeyName ps \<in> set (g_signers (iw_global w))) \<and>
     mset (g_fetchedSignatures (iw_global w)) = mset (pieces (iw_calls w))"

text \<open>
  What the application has been told so far, in a run for the packet \<open>td\<close> (its signature value
  left out) with the info packet name \<open>kl\<close>.
\<close>

definition session_ok ::
  "('c, 'z) packet_api_scheme \<Rightarrow> ('sk, 'pk, 'sig, 'y) bls_api_scheme \<Rightarrow> ('c, 'x) keychain_api_scheme \<Rightarrow>
   'c data \<Rightarrow> 'c name \<Rightarrow> ('c, 'pk, 'priv) initiator_world \<Rightarrow> bool" where
  "session_ok api bls kc td kl w \<longleftrightarrow> calls_ok w \<and>
     (failures w \<noteq> [] \<longrightarrow> hopeless w) \<and>
     (g_toBeSigned (iw_global w))\<lparr>d_sigValue := []\<rparr> = td \<and>
     (successes w = [] \<and> d_name (g_signInfo (iw_global w)) = kl \<or>
        (\<exists>d i i0. successes w = [(d, i)] \<and> g_fetchedSignatures (iw_global w) \<noteq> [] \<and>
           length (g_fetchedSignatures (iw_global w)) = length (g_signers (iw_global w)) \<and>
           d = g_toBeSigned (iw_global w) \<and> i = g_signInfo (iw_global w) \<and>
           ndnBLSAggregateSignature_bufs bls (g_fetchedSignatures (iw_global w)) = Inr (d_sigValue d) \<and>
           d_name i0 = kl \<and>
           key_sign_data kc (g_signingKeyName (iw_global w))
             (i0\<lparr>d_content := content_of api (signers_wireEncode api (g_signers (iw_global w)))\<rparr>) = Inr i))"

lemma session_ok_untold:
  assumes "calls_ok w" and "failures w \<noteq> [] \<longrightarrow> hopeless w" and "successes w = []"
    and "(g_toBeSigned (iw_global w))\<lparr>d_sigValue := []\<rparr> = td" and "d_name (g_signInfo (iw_global w)) = kl"
  shows "session_ok api bls kc td kl w"
  using assms by (simp add: session_ok_def)

lemma session_ok_told:
  assumes "session_ok api bls kc td kl w" and "successes w = []"
  shows "calls_ok w" and "failures w \<noteq> [] \<longrightarrow> hopeless w"
    and "(g_toBeSigned (iw_global w))\<lparr>d_sigValue := []\<rparr> = td" and "d_name (g_signInfo (iw_global w)) = kl"
  using assms by (simp_all add: session_ok_def)

section \<open>Counting\<close>

lemma pieces_append [simp]: "pieces (xs @ ys) = pieces xs @ pieces ys"
  by (simp add: pieces_def)

lemma pieces_length: "length (pieces calls) = length (delivered calls)"
  by (induction calls) (auto simp: pieces_def delivered_def piece_list_def split: phase.splits)

lemma running_simps [simp]:
  "running [] = []" "running (ps # calls) = (if ps_phase ps = Ended then running calls else ps # running calls)"
  "running (calls @ calls') = running calls @ running calls'"
  "set (running calls) = {ps \<in> set calls. ps_phase ps \<noteq> Ended}"
  by (simp_all add: running_def)

lemma running_all: "\<forall>ps \<in> set calls. ps_phase ps = AwaitAck \<Longrightarrow> running calls = calls"
  by (simp add: running_def)

lemma delivered_running: "delivered calls = map ps_signerKeyName (filter (\<lambda>ps. piece_list (ps_phase ps) \<noteq> []) (running calls))"
  by (induction calls) (auto simp: delivered_def piece_list_def)

lemma delivered_distinct: "distinct (map ps_signerKeyName (running calls)) \<Longrightarrow> distinct (delivered calls)"
  unfolding delivered_running by (rule distinct_map_filter)

text \<open>A running call changes, and keeps its key.\<close>

lemma running_update:
  assumes "distinct (map ps_signerKeyName (running calls))" and "k < length calls" and "ps_phase (calls ! k) \<noteq> Ended"
    and "ps_signerKeyName ps = ps_signerKeyName (calls ! k)"
  shows "distinct (map ps_signerKeyName (running (calls[k := ps])))"
    and "ps_phase ps = Ended \<Longrightarrow> qs \<in> set (calls[k := ps]) \<Longrightarrow> ps_signerKeyName qs = ps_signerKeyName ps \<Longrightarrow> ps_phase qs = Ended"
proof -
  have c: "calls = take k calls @ calls ! k # drop (Suc k) calls"
    using assms(2) by (rule id_take_nth_drop)
  have u: "calls[k := ps] = take k calls @ ps # drop (Suc k) calls"
    using assms(2) by (rule upd_conv_take_nth_drop)
  have "running calls = running (take k calls) @ calls ! k # running (drop (Suc k) calls)"
    using arg_cong [OF c, of running] assms(3) by simp
  then have d: "distinct (map ps_signerKeyName (running (take k calls) @ calls ! k # running (drop (Suc k) calls)))"
    using assms(1) by simp
  then show "distinct (map ps_signerKeyName (running (calls[k := ps])))"
    using assms(4) unfolding u by auto
  show "ps_phase ps = Ended \<Longrightarrow> qs \<in> set (calls[k := ps]) \<Longrightarrow> ps_signerKeyName qs = ps_signerKeyName ps \<Longrightarrow> ps_phase qs = Ended"
    using d assms(4) unfolding u by (auto simp: image_iff)
qed

lemma piece_list_simps [simp]:
  "piece_list (Delivered b) = [b]" "piece_list AwaitAck = []" "piece_list ResultScheduled = []"
  "piece_list AwaitResult = []" "piece_list Ended = []"
  by (simp_all add: piece_list_def)

lemma piece_list_ne: "piece_list p \<noteq> [] \<longleftrightarrow> (\<exists>b. p = Delivered b)"
  by (cases p) simp_all

lemma delivered_set: "n \<in> set (delivered calls) \<longleftrightarrow> (\<exists>ps \<in> set calls. ps_signerKeyName ps = n \<and> (\<exists>b. ps_phase ps = Delivered b))"
  by (auto simp: delivered_def piece_list_ne)

lemma pieces_update:
  assumes "k < length calls" and "piece_list (ps_phase (calls ! k)) = []"
  shows "mset (pieces (calls[k := ps])) = mset (piece_list (ps_phase ps)) + mset (pieces calls)"
proof -
  have "calls = take k calls @ calls ! k # drop (Suc k) calls"
    using assms(1) by (rule id_take_nth_drop)
  then have "pieces calls = pieces (take k calls) @ piece_list (ps_phase (calls ! k)) @ pieces (drop (Suc k) calls)"
    by (metis (no_types, lifting) append_Cons append_Nil concat.simps(2) list.simps(9) pieces_append pieces_def)
  moreover have "pieces (calls[k := ps]) = pieces (take k calls) @ piece_list (ps_phase ps) @ pieces (drop (Suc k) calls)"
    using assms(1) by (simp add: upd_conv_take_nth_drop) (simp add: pieces_def)
  ultimately show ?thesis using assms(2) by simp
qed

lemma calls_ok_delivered:
  assumes "calls_ok w"
  shows "set (delivered (iw_calls w)) \<subseteq> set (g_signers (iw_global w))"
    and "length (g_fetchedSignatures (iw_global w)) = card (set (delivered (iw_calls w)))"
proof -
  show "set (delivered (iw_calls w)) \<subseteq> set (g_signers (iw_global w))"
    using assms by (fastforce simp: calls_ok_def delivered_set)
  have "length (g_fetchedSignatures (iw_global w)) = length (delivered (iw_calls w))"
    using assms by (metis calls_ok_def pieces_length size_mset)
  also have "\<dots> = card (set (delivered (iw_calls w)))"
    using assms by (simp add: calls_ok_def delivered_distinct distinct_card)
  finally show "length (g_fetchedSignatures (iw_global w)) = card (set (delivered (iw_calls w)))" .
qed

lemma calls_ok_bound:
  assumes "calls_ok w"
  shows "length (g_fetchedSignatures (iw_global w)) \<le> length (g_signers (iw_global w))"
proof -
  have "length (g_fetchedSignatures (iw_global w)) \<le> card (set (g_signers (iw_global w)))"
    using calls_ok_delivered [OF assms] by (simp add: card_mono)
  also have "\<dots> \<le> length (g_signers (iw_global w))" by (rule card_length)
  finally show ?thesis .
qed

lemma calls_ok_complete:
  assumes "calls_ok w" and "length (g_fetchedSignatures (iw_global w)) = length (g_signers (iw_global w))"
  shows "set (delivered (iw_calls w)) = set (g_signers (iw_global w))"
proof -
  have "card (set (g_signers (iw_global w))) = length (g_signers (iw_global w))"
    using assms(1) by (simp add: calls_ok_def distinct_card)
  then show ?thesis
    using calls_ok_delivered [OF assms(1)] assms(2) by (intro card_subset_eq) simp_all
qed

lemma same_call:
  assumes "distinct (map ps_signerKeyName (running calls))" and "ps \<in> set calls" and "qs \<in> set calls"
    and "ps_phase ps \<noteq> Ended" and "ps_phase qs \<noteq> Ended" and "ps_signerKeyName ps = ps_signerKeyName qs"
  shows "ps = qs"
  using assms by (auto simp: distinct_map dest: inj_onD)

lemma complete_not_hopeless:
  assumes "calls_ok w" and "length (g_fetchedSignatures (iw_global w)) = length (g_signers (iw_global w))"
    and "g_fetchedSignatures (iw_global w) \<noteq> []"
  shows "\<not> hopeless w"
proof
  assume "hopeless w"
  moreover have "g_signers (iw_global w) \<noteq> []" using assms(2,3) by auto
  ultimately obtain u where u: "u \<in> set (g_signers (iw_global w))"
    "\<forall>ps \<in> set (iw_calls w). ps_signerKeyName ps = u \<longrightarrow> ps_phase ps = Ended"
    by (auto simp: hopeless_def)
  then have "u \<in> set (delivered (iw_calls w))" using calls_ok_complete [OF assms(1,2)] by simp
  with u(2) show False by (auto simp: delivered_set)
qed

lemma complete_not_active:
  assumes "calls_ok w" and "length (g_fetchedSignatures (iw_global w)) = length (g_signers (iw_global w))"
    and "ps \<in> set (iw_calls w)"
  shows "\<not> is_active (ps_phase ps)"
proof
  assume a: "is_active (ps_phase ps)"
  then have "ps_signerKeyName ps \<in> set (delivered (iw_calls w))"
    using assms(1,3) by (auto simp: calls_ok_complete [OF assms(1,2)] calls_ok_def is_active_def)
  then obtain qs b where "qs \<in> set (iw_calls w)" "ps_signerKeyName qs = ps_signerKeyName ps" "ps_phase qs = Delivered b"
    by (auto simp: delivered_set)
  moreover from this have "ps = qs" using assms(1,3) a by (intro same_call) (auto simp: calls_ok_def is_active_def)
  ultimately show False using a by (auto simp: is_active_def)
qed

section \<open>The handlers keep the invariant\<close>

definition silent :: "'c initiator_output list \<Rightarrow> bool" where
  "silent outs \<longleftrightarrow> concat (map success_of outs) = [] \<and> concat (map failure_of outs) = []"

lemma silent_simps [simp]:
  "silent []" "silent (x # xs) \<longleftrightarrow> success_of x = [] \<and> failure_of x = [] \<and> silent xs"
  "silent (xs @ ys) \<longleftrightarrow> silent xs \<and> silent ys"
  by (auto simp: silent_def)

lemma told_silent:
  "silent outs \<Longrightarrow> iw_sent w' = iw_sent w @ outs \<Longrightarrow> successes w' = successes w \<and> failures w' = failures w"
  by (simp add: silent_def successes_def failures_def)

lemma hopeless_cong:
  "iw_global w' = iw_global w \<Longrightarrow> iw_calls w' = iw_calls w \<Longrightarrow> hopeless w' = hopeless w"
  by (simp add: hopeless_def)

text \<open>A step that tells the application nothing and leaves state and calls alone.\<close>

lemma session_ok_quiet:
  assumes "session_ok api bls kc td kl w" and "iw_container w' = iw_container w" and "iw_global w' = iw_global w"
    and "iw_calls w' = iw_calls w" and "iw_sent w' = iw_sent w @ outs" and "silent outs"
  shows "session_ok api bls kc td kl w'"
proof -
  have "calls_ok w'" using assms(1-4) by (simp add: session_ok_def calls_ok_def)
  moreover have "hopeless w' = hopeless w" using assms(3,4) by (rule hopeless_cong)
  ultimately show ?thesis
    using assms(1,3) told_silent [OF assms(6,5)] by (simp add: session_ok_def)
qed

lemma session_ok_emit: "session_ok api bls kc td kl w \<Longrightarrow> silent outs \<Longrightarrow> session_ok api bls kc td kl (emit outs w)"
  by (erule session_ok_quiet [where outs = outs]) (simp_all add: emit_def)

lemma session_ok_raise: "session_ok api bls kc td kl w \<Longrightarrow> session_ok api bls kc td kl (raise e w)"
  by (erule session_ok_quiet [where outs = "[]"]) (simp_all add: raise_def)

lemma hopeless_emit [simp]: "hopeless (emit outs w) = hopeless w"
  by (rule hopeless_cong) (simp_all add: emit_def)

lemma hopeless_raise [simp]: "hopeless (raise e w) = hopeless w"
  by (rule hopeless_cong) (simp_all add: raise_def)

lemma active_no_success:
  assumes "session_ok api bls kc td kl w" and "k < length (iw_calls w)" and "is_active (ps_phase (iw_calls w ! k))"
  shows "successes w = []"
proof (rule ccontr)
  assume "successes w \<noteq> []"
  then have "length (g_fetchedSignatures (iw_global w)) = length (g_signers (iw_global w))" "calls_ok w"
    using assms(1) by (auto simp: session_ok_def)
  from complete_not_active [OF this(2,1), of "iw_calls w ! k"] assms(2,3) show False by simp
qed

text \<open>Changing one call, which keeps its key.\<close>

lemma set_call_running:
  assumes "calls_ok w" and "k < length (iw_calls w)" and "is_active (ps_phase (iw_calls w ! k))"
    and "ps_signerKeyName ps = ps_signerKeyName (iw_calls w ! k)"
  shows "distinct (map ps_signerKeyName (running (iw_calls (set_call k ps w))))"
    and "\<forall>qs \<in> set (iw_calls (set_call k ps w)). ps_phase qs \<noteq> Ended \<longrightarrow> ps_signerKeyName qs \<in> set (g_signers (iw_global w))"
    and "ps_phase ps = Ended \<Longrightarrow> \<forall>qs \<in> set (iw_calls (set_call k ps w)). ps_signerKeyName qs = ps_signerKeyName ps \<longrightarrow> ps_phase qs = Ended"
proof -
  have run: "ps_phase (iw_calls w ! k) \<noteq> Ended" using assms(3) by (auto simp: is_active_def)
  have d: "distinct (map ps_signerKeyName (running (iw_calls w)))" using assms(1) by (simp add: calls_ok_def)
  show "distinct (map ps_signerKeyName (running (iw_calls (set_call k ps w))))"
    using running_update(1) [OF d assms(2) run assms(4)] by (simp add: set_call_def)
  show "ps_phase ps = Ended \<Longrightarrow> \<forall>qs \<in> set (iw_calls (set_call k ps w)). ps_signerKeyName qs = ps_signerKeyName ps \<longrightarrow> ps_phase qs = Ended"
    using running_update(2) [OF d assms(2) run assms(4)] by (simp add: set_call_def)
  have "ps_signerKeyName (iw_calls w ! k) \<in> set (g_signers (iw_global w))"
    using assms(1) run nth_mem [OF assms(2)] by (auto simp: calls_ok_def)
  moreover have "set (iw_calls (set_call k ps w)) \<subseteq> insert ps (set (iw_calls w))"
    by (simp add: set_call_def set_update_subset_insert)
  ultimately show "\<forall>qs \<in> set (iw_calls (set_call k ps w)). ps_phase qs \<noteq> Ended \<longrightarrow> ps_signerKeyName qs \<in> set (g_signers (iw_global w))"
    using assms(1,4) by (auto simp: calls_ok_def)
qed

lemma hopeless_set_call:
  assumes "calls_ok w" and "k < length (iw_calls w)" and "is_active (ps_phase (iw_calls w ! k))"
    and "ps_signerKeyName ps = ps_signerKeyName (iw_calls w ! k)" and "hopeless w"
  shows "\<exists>u \<in> set (g_signers (iw_global w)). u \<noteq> ps_signerKeyName ps \<and>
    (\<forall>qs \<in> set (iw_calls (set_call k ps w)). ps_signerKeyName qs = u \<longrightarrow> ps_phase qs = Ended)"
proof -
  have "iw_calls w \<noteq> []" using assms(2) by auto
  then obtain u where u: "u \<in> set (g_signers (iw_global w))"
    "\<forall>qs \<in> set (iw_calls w). ps_signerKeyName qs = u \<longrightarrow> ps_phase qs = Ended"
    using assms(5) by (auto simp: hopeless_def)
  have "u \<noteq> ps_signerKeyName (iw_calls w ! k)"
    using u(2) assms(2,3) by (auto simp: is_active_def)
  moreover have "set (iw_calls (set_call k ps w)) \<subseteq> insert ps (set (iw_calls w))"
    by (simp add: set_call_def set_update_subset_insert)
  ultimately show ?thesis using u assms(4) by (intro bexI [of _ u]) auto
qed

lemma hopeless_set_call':
  assumes "calls_ok w" and "k < length (iw_calls w)" and "is_active (ps_phase (iw_calls w ! k))"
    and "ps_signerKeyName ps = ps_signerKeyName (iw_calls w ! k)" and "hopeless w"
  shows "hopeless (set_call k ps w)"
  using hopeless_set_call [OF assms] by (auto simp: hopeless_def set_call_def)

lemma calls_ok_set_call:
  assumes "calls_ok w" and "k < length (iw_calls w)" and "is_active (ps_phase (iw_calls w ! k))"
    and "ps_signerKeyName ps = ps_signerKeyName (iw_calls w ! k)" and "piece_list (ps_phase ps) = []"
  shows "calls_ok (set_call k ps w)"
proof -
  have "mset (pieces (iw_calls (set_call k ps w))) = mset (pieces (iw_calls w))"
    using pieces_update [OF assms(2), of ps] assms(3,5)
    by (cases "ps_phase (iw_calls w ! k)") (auto simp: set_call_def is_active_def)
  then show ?thesis
    using assms(1) set_call_running(1,2) [OF assms(1-4)]
    by (simp add: calls_ok_def) (simp add: set_call_def)
qed

lemma session_ok_set_call:
  assumes "session_ok api bls kc td kl w" and "k < length (iw_calls w)" and "is_active (ps_phase (iw_calls w ! k))"
    and "ps_signerKeyName ps = ps_signerKeyName (iw_calls w ! k)" and "piece_list (ps_phase ps) = []"
  shows "session_ok api bls kc td kl (set_call k ps w)"
proof -
  note none = active_no_success [OF assms(1-3)]
  note told = session_ok_told [OF assms(1) none]
  have g: "iw_global (set_call k ps w) = iw_global w" by (simp add: set_call_def)
  have "successes (set_call k ps w) = []" and "failures (set_call k ps w) = failures w"
    using none by (simp_all add: successes_def failures_def set_call_def)
  then show ?thesis
    using told g calls_ok_set_call [OF told(1) assms(2-5)] hopeless_set_call' [OF told(1) assms(2-4)]
    by (intro session_ok_untold) auto
qed

text \<open>Starting calls.\<close>

lemma performRPC_shape:
  assumes "performRPC api ossl kc prefix rnd n g = (calls, outs, f)"
  shows "silent outs \<and> (\<forall>ps \<in> set calls. ps_phase ps = AwaitAck) \<and>
    (f = None \<and> map ps_signerKeyName calls = [n] \<or> f \<noteq> None \<and> calls = [])"
  using assms by (auto simp: performRPC_def Let_def split: sum.splits prod.splits)

lemma performRPCs_shape:
  "\<exists>new outs fs m. performRPCs api ossl kc prefix rnd items w =
      w\<lparr>iw_calls := iw_calls w @ new, iw_sent := iw_sent w @ outs, iw_faults := iw_faults w @ fs\<rparr> \<and>
    map ps_signerKeyName new = take m items \<and> (\<forall>ps \<in> set new. ps_phase ps = AwaitAck) \<and> silent outs"
proof (induction items arbitrary: rnd w)
  case Nil
  show ?case by (intro exI [of _ "[]"]) simp
next
  case (Cons n rest)
  obtain calls outs f where p: "performRPC api ossl kc prefix (rnd 0) n (iw_global w) = (calls, outs, f)"
    by (metis prod_cases3)
  let ?w = "w\<lparr>iw_calls := iw_calls w @ calls, iw_sent := iw_sent w @ outs, iw_faults := iw_faults w @ fault_list f\<rparr>"
  note shape = performRPC_shape [OF p]
  show ?case
  proof (cases "f = None")
    case False
    with p shape show ?thesis
      by (intro exI [of _ "[]"] exI [of _ outs] exI [of _ "fault_list f"] exI [of _ 0]) (auto simp: Let_def)
  next
    case True
    obtain new outs' fs m where r: "performRPCs api ossl kc prefix (rnd \<circ> Suc) rest ?w =
        ?w\<lparr>iw_calls := iw_calls ?w @ new, iw_sent := iw_sent ?w @ outs', iw_faults := iw_faults ?w @ fs\<rparr>"
      "map ps_signerKeyName new = take m rest" "\<forall>ps \<in> set new. ps_phase ps = AwaitAck" "silent outs'"
      using Cons.IH by metis
    show ?thesis
      using True p shape r
      by (intro exI [of _ "calls @ new"] exI [of _ "outs @ outs'"] exI [of _ fs] exI [of _ "Suc m"])
        (auto simp: Let_def fault_list_def)
  qed
qed

text \<open>
  Starting calls for fresh keys on the list: the keys are neither called yet nor hopeless.
\<close>

lemma performRPCs_ok:
  assumes "calls_ok w" and "distinct items" and "set items \<subseteq> set (g_signers (iw_global w))"
    and "set items \<inter> ps_signerKeyName ` set (running (iw_calls w)) = {}"
  shows "calls_ok (performRPCs api ossl kc prefix rnd items w) \<and>
    successes (performRPCs api ossl kc prefix rnd items w) = successes w \<and>
    failures (performRPCs api ossl kc prefix rnd items w) = failures w \<and>
    iw_global (performRPCs api ossl kc prefix rnd items w) = iw_global w"
proof -
  obtain new outs fs m where r: "performRPCs api ossl kc prefix rnd items w =
      w\<lparr>iw_calls := iw_calls w @ new, iw_sent := iw_sent w @ outs, iw_faults := iw_faults w @ fs\<rparr>"
    "map ps_signerKeyName new = take m items" "\<forall>ps \<in> set new. ps_phase ps = AwaitAck" "silent outs"
    using performRPCs_shape by metis
  have keys: "ps_signerKeyName ` set new \<subseteq> set items"
    using r(2) by (metis set_map set_take_subset)
  have "distinct (map ps_signerKeyName (running (iw_calls w @ new)))"
    using assms(1,2,4) r(2) set_take_subset [of m items] by (auto simp: calls_ok_def running_all [OF r(3)])
  moreover have "pieces new = []"
    using r(3) by (induction new) (simp_all add: pieces_def)
  moreover have "\<forall>ps \<in> set new. ps_signerKeyName ps \<in> set (g_signers (iw_global w))"
    using keys assms(3) by auto
  ultimately have "calls_ok (w\<lparr>iw_calls := iw_calls w @ new, iw_sent := iw_sent w @ outs, iw_faults := iw_faults w @ fs\<rparr>)"
    using assms(1) by (auto simp: calls_ok_def)
  then show ?thesis
    using r(4) unfolding r(1) by (simp add: successes_def failures_def silent_def)
qed

lemma performRPCs_calls:
  assumes "ps \<in> set (iw_calls (performRPCs api ossl kc prefix rnd items w))"
  shows "ps \<in> set (iw_calls w) \<or> ps_signerKeyName ps \<in> set items"
proof -
  obtain new outs fs m where r: "performRPCs api ossl kc prefix rnd items w =
      w\<lparr>iw_calls := iw_calls w @ new, iw_sent := iw_sent w @ outs, iw_faults := iw_faults w @ fs\<rparr>"
    "map ps_signerKeyName new = take m items"
    using performRPCs_shape by metis
  have "ps_signerKeyName ` set new \<subseteq> set items"
    using r(2) by (metis set_map set_take_subset)
  with assms show ?thesis unfolding r(1) by auto
qed

lemma onUnavailableSigner_container:
  fixes w :: "('a::linorder, 'd, 'e) initiator_world"
  assumes "trusted_key (iw_container w) [] = None"
  shows "iw_container (onUnavailableSigner api ossl kc prefix rnd reason u w) = mark_unavailable u (iw_container w)"
proof -
  obtain c new diff where rep: "replaceSigner api (iw_container w) (g_signers (iw_global w)) u
      (g_schema (iw_global w)) = (c, new, diff)"
    by (metis prod_cases3)
  have "iw_container (performRPCs api ossl kc prefix rnd diff v) = iw_container v" for v :: "('a, 'd, 'e) initiator_world"
    using performRPCs_shape [of api ossl kc prefix rnd diff v] by auto
  with replaceSigner_frame [OF rep assms] show ?thesis
    by (simp add: onUnavailableSigner_def rep)
qed

definition hopeless_but :: "'c name \<Rightarrow> ('c, 'pk, 'priv) initiator_world \<Rightarrow> bool" where
  "hopeless_but u w \<longleftrightarrow> (\<exists>v \<in> set (g_signers (iw_global w)). v \<noteq> u \<and>
     (\<forall>ps \<in> set (iw_calls w). ps_signerKeyName ps = v \<longrightarrow> ps_phase ps = Ended))"

text \<open>The replacement of a listed signer whose calls have all ended.\<close>

lemma onUnavailable_ok:
  assumes "session_ok api bls kc td kl w" and "successes w = []" and "u \<in> set (g_signers (iw_global w))"
    and "\<forall>ps \<in> set (iw_calls w). ps_signerKeyName ps = u \<longrightarrow> ps_phase ps = Ended"
    and "failures w \<noteq> [] \<longrightarrow> hopeless_but u w"
  shows "session_ok api bls kc td kl (onUnavailableSigner api ossl kc prefix rnd reason u w) \<and>
    (hopeless_but u w \<longrightarrow> hopeless (onUnavailableSigner api ossl kc prefix rnd reason u w))"
proof -
  let ?w' = "onUnavailableSigner api ossl kc prefix rnd reason u w"
  have ok: "calls_ok w" using assms(1) by (simp add: session_ok_def)
  obtain c new diff where rep: "replaceSigner api (iw_container w) (g_signers (iw_global w)) u
      (g_schema (iw_global w)) = (c, new, diff)"
    by (metis prod_cases3)
  have c: "c = mark_unavailable u (iw_container w)"
    and frame: "distinct new \<and> distinct diff \<and> (new \<noteq> [] \<longrightarrow>
      set new = (set (g_signers (iw_global w)) - {u}) \<union> set diff \<and>
      set diff \<inter> (set (g_signers (iw_global w)) - {u}) = {})"
    using replaceSigner_frame [OF rep] ok by (auto simp: calls_ok_def)
  have trusted: "trusted_key c [] = None" using ok by (simp add: c calls_ok_def)
  show ?thesis
  proof (cases "new = []")
    case True
    then have w': "?w' = w\<lparr>iw_container := c, iw_sent := iw_sent w @
        [FailureCb (reason @ '' And we cannot find replacements for the unavailable signer'')]\<rparr>"
      by (simp add: onUnavailableSigner_def rep)
    have "calls_ok ?w'" unfolding w' using ok trusted by (auto simp: calls_ok_def)
    moreover have "hopeless ?w'" unfolding w' hopeless_def using assms(3,4) by auto
    moreover have "successes ?w' = []" unfolding w' using assms(2) by (simp add: successes_def)
    moreover have "iw_global ?w' = iw_global w" unfolding w' by simp
    ultimately show ?thesis
      using session_ok_told(3,4) [OF assms(1,2)] by (auto intro: session_ok_untold)
  next
    case False
    let ?w1 = "w\<lparr>iw_container := c, iw_global := (iw_global w)\<lparr>g_signers := new\<rparr>\<rparr>"
    have w': "?w' = performRPCs api ossl kc prefix rnd diff ?w1"
      using False by (simp add: onUnavailableSigner_def rep)
    have set_new: "set new = (set (g_signers (iw_global w)) - {u}) \<union> set diff"
      and disj: "set diff \<inter> (set (g_signers (iw_global w)) - {u}) = {}"
      using frame False by blast+
    have old: "ps_signerKeyName ps \<in> set (g_signers (iw_global w)) - {u}"
      if "ps \<in> set (iw_calls w)" "ps_phase ps \<noteq> Ended" for ps
      using ok assms(4) that by (auto simp: calls_ok_def)
    have "calls_ok ?w1"
      using ok trusted frame old set_new unfolding calls_ok_def by auto
    moreover have "set diff \<inter> ps_signerKeyName ` set (running (iw_calls ?w1)) = {}"
      using disj old by auto
    ultimately have R: "calls_ok ?w' \<and> successes ?w' = successes ?w1 \<and> failures ?w' = failures ?w1 \<and>
        iw_global ?w' = iw_global ?w1"
      unfolding w' using frame set_new by (intro performRPCs_ok) auto
    have hope: "hopeless ?w'" if h: "hopeless_but u w"
    proof -
      obtain v where v: "v \<in> set (g_signers (iw_global w))" "v \<noteq> u"
        "\<forall>ps \<in> set (iw_calls w). ps_signerKeyName ps = v \<longrightarrow> ps_phase ps = Ended"
        using h by (auto simp: hopeless_but_def)
      have "v \<in> set (g_signers (iw_global ?w'))" using R v(1,2) set_new by simp
      moreover have "ps_phase ps = Ended" if "ps \<in> set (iw_calls ?w')" "ps_signerKeyName ps = v" for ps
        using performRPCs_calls [OF that(1) [unfolded w']] that(2) v disj by auto
      ultimately show ?thesis by (auto simp: hopeless_def)
    qed
    have "successes ?w' = []" "failures ?w' = failures w"
      using R assms(2) by (simp_all add: successes_def failures_def)
    moreover have "(g_toBeSigned (iw_global ?w'))\<lparr>d_sigValue := []\<rparr> = td" "d_name (g_signInfo (iw_global ?w')) = kl"
      using R session_ok_told(3,4) [OF assms(1,2)] by simp_all
    ultimately show ?thesis
      using R hope assms(5) by (auto intro: session_ok_untold)
  qed
qed

text \<open>The same for the call at a position, as the handlers use it.\<close>

lemma unavailable_call_ok:
  assumes "session_ok api bls kc td kl w" and "k < length (iw_calls w)" and "is_active (ps_phase (iw_calls w ! k))"
    and "ps_signerKeyName ps = ps_signerKeyName (iw_calls w ! k)" and "ps_phase ps = Ended"
  shows "session_ok api bls kc td kl (onUnavailableSigner api ossl kc prefix rnd reason (ps_signerKeyName ps) (set_call k ps w)) \<and>
    (hopeless w \<longrightarrow> hopeless (onUnavailableSigner api ossl kc prefix rnd reason (ps_signerKeyName ps) (set_call k ps w)))"
proof -
  let ?w = "set_call k ps w" and ?u = "ps_signerKeyName ps"
  have ok: "calls_ok w" using assms(1) by (simp add: session_ok_def)
  have s: "session_ok api bls kc td kl ?w"
    by (rule session_ok_set_call [OF assms(1-4)]) (simp add: assms(5))
  have mem: "iw_calls w ! k \<in> set (iw_calls w)" using assms(2) by simp
  have key: "?u \<in> set (g_signers (iw_global ?w))"
    using ok mem assms(3,4) by (auto simp: calls_ok_def is_active_def set_call_def)
  have ended: "\<forall>qs \<in> set (iw_calls ?w). ps_signerKeyName qs = ?u \<longrightarrow> ps_phase qs = Ended"
    by (rule set_call_running(3) [OF ok assms(2-5)])
  have nosucc: "successes ?w = []"
    using active_no_success [OF assms(1-3)] by (simp add: successes_def set_call_def)
  have but: "hopeless_but ?u ?w" if "hopeless w"
    using hopeless_set_call [OF ok assms(2-4) that] by (auto simp: hopeless_but_def set_call_def)
  have "failures ?w \<noteq> [] \<longrightarrow> hopeless_but ?u ?w"
    using assms(1) but by (auto simp: session_ok_def failures_def set_call_def)
  from onUnavailable_ok [OF s nosucc key ended this] but show ?thesis by blast
qed

text \<open>A signature piece arrives for an active call.\<close>

lemma addSignature_ok:
  assumes "session_ok api bls kc td kl w" and "k < length (iw_calls w)" and "is_active (ps_phase (iw_calls w ! k))"
    and "ps_signerKeyName ps = ps_signerKeyName (iw_calls w ! k)" and "ps_phase ps = Delivered b"
  shows "session_ok api bls kc td kl (addSignature api bls kc b (set_call k ps w)) \<and>
    (hopeless w \<longrightarrow> hopeless (addSignature api bls kc b (set_call k ps w)))"
proof -
  let ?g = "(iw_global w)\<lparr>g_fetchedSignatures := g_fetchedSignatures (iw_global w) @ [b]\<rparr>"
  define w1 where "w1 = (set_call k ps w)\<lparr>iw_global := ?g\<rparr>"
  have ok: "calls_ok w" using assms(1) by (simp add: session_ok_def)
  have "piece_list (ps_phase (iw_calls w ! k)) = []"
    using assms(3) by (auto simp: is_active_def)
  from pieces_update [OF assms(2) this, of ps]
  have "mset (pieces (iw_calls w1)) = add_mset b (mset (pieces (iw_calls w)))"
    by (simp add: w1_def set_call_def assms(5))
  then have ok1: "calls_ok w1"
    using ok set_call_running(1,2) [OF ok assms(2-4)]
    by (simp add: calls_ok_def w1_def) (simp add: set_call_def)
  have hope: "hopeless w1" if "hopeless w"
    using hopeless_set_call [OF ok assms(2-4) that] by (auto simp: hopeless_def w1_def set_call_def)
  have quiet: "successes w1 = []" "failures w1 = failures w"
    using active_no_success [OF assms(1-3)] by (simp_all add: w1_def successes_def failures_def set_call_def)
  note told0 = session_ok_told [OF assms(1) active_no_success [OF assms(1-3)]]
  have s1: "session_ok api bls kc td kl w1"
    using ok1 quiet hope told0 by (intro session_ok_untold) (auto simp: w1_def)
  have unfold: "addSignature api bls kc b (set_call k ps w) =
      (if length (g_fetchedSignatures ?g) \<noteq> length (g_signers ?g) then w1
       else (case ndnBLSAggregateSignature_bufs bls (g_fetchedSignatures ?g) of
           Inl e \<Rightarrow> raise e w1
         | Inr agg \<Rightarrow>
            (let d = (g_toBeSigned ?g)\<lparr>d_sigValue := agg\<rparr>;
                 i = (g_signInfo ?g)\<lparr>d_content := content_of api (signers_wireEncode api (g_signers ?g))\<rparr>
             in (case key_sign_data kc (g_signingKeyName ?g) i of
                   Inl e \<Rightarrow> raise e (w1\<lparr>iw_global := ?g\<lparr>g_toBeSigned := d, g_signInfo := i\<rparr>\<rparr>)
                 | Inr i \<Rightarrow> emit [SuccessCb d i] (w1\<lparr>iw_global := ?g\<lparr>g_toBeSigned := d, g_signInfo := i\<rparr>\<rparr>)))))"
    by (simp add: addSignature_def w1_def set_call_def Let_def split: sum.split)
  have keep: "calls_ok (w1\<lparr>iw_global := ?g\<lparr>g_toBeSigned := d, g_signInfo := i\<rparr>\<rparr>)"
    "hopeless (w1\<lparr>iw_global := ?g\<lparr>g_toBeSigned := d, g_signInfo := i\<rparr>\<rparr>) = hopeless w1" for d i
    using ok1 by (simp_all add: calls_ok_def hopeless_def w1_def set_call_def)
  have told: "successes (w1\<lparr>iw_global := g\<rparr>) = successes w1" "failures (w1\<lparr>iw_global := g\<rparr>) = failures w1" for g
    by (simp_all add: successes_def failures_def)
  have s2: "session_ok api bls kc td kl (w1\<lparr>iw_global := ?g\<lparr>g_toBeSigned := d, g_signInfo := i\<rparr>\<rparr>)"
    if "d\<lparr>d_sigValue := []\<rparr> = td" "d_name i = kl" for d i
    using quiet(1) keep that session_ok_told(2) [OF s1 quiet(1)] by (intro session_ok_untold) (simp_all add: told)
  show ?thesis
  proof (cases "length (g_fetchedSignatures ?g) = length (g_signers ?g)")
    case False
    then show ?thesis using s1 hope by (simp add: unfold)
  next
    case True
    then have complete: "length (g_fetchedSignatures (iw_global w1)) = length (g_signers (iw_global w1))"
      by (simp add: w1_def)
    have nh: "\<not> hopeless w1"
      by (rule complete_not_hopeless [OF ok1 complete]) (simp add: w1_def)
    then have nf: "failures w1 = []" using s1 by (auto simp: session_ok_def)
    show ?thesis
    proof (cases "ndnBLSAggregateSignature_bufs bls (g_fetchedSignatures ?g)")
      case (Inl e)
      then show ?thesis using True s1 hope by (simp add: unfold session_ok_raise)
    next
      case (Inr agg)
      let ?d = "(g_toBeSigned ?g)\<lparr>d_sigValue := agg\<rparr>"
        and ?i = "(g_signInfo ?g)\<lparr>d_content := content_of api (signers_wireEncode api (g_signers ?g))\<rparr>"
      show ?thesis
      proof (cases "key_sign_data kc (g_signingKeyName ?g) ?i")
        case (Inl e)
        have "session_ok api bls kc td kl (w1\<lparr>iw_global := ?g\<lparr>g_toBeSigned := ?d, g_signInfo := ?i\<rparr>\<rparr>)"
          using told0 by (intro s2) simp_all
        then show ?thesis
          using True Inr Inl keep hope by (simp add: unfold Let_def session_ok_raise)
      next
        case (Inr i)
        let ?w2 = "emit [SuccessCb ?d i] (w1\<lparr>iw_global := ?g\<lparr>g_toBeSigned := ?d, g_signInfo := i\<rparr>\<rparr>)"
        have w2: "addSignature api bls kc b (set_call k ps w) = ?w2"
          using True Inr \<open>ndnBLSAggregateSignature_bufs bls _ = Inr agg\<close> by (simp add: unfold Let_def)
        have "calls_ok ?w2" using keep(1) by (simp add: calls_ok_def emit_def)
        moreover have "successes ?w2 = [(?d, i)]" "failures ?w2 = []"
          using quiet nf by (simp_all add: successes_def failures_def emit_def)
        moreover have "iw_global ?w2 = ?g\<lparr>g_toBeSigned := ?d, g_signInfo := i\<rparr>" by (simp add: emit_def)
        ultimately have "session_ok api bls kc td kl ?w2"
          using True Inr \<open>ndnBLSAggregateSignature_bufs bls _ = Inr agg\<close> told0(3,4)
          by (auto simp: session_ok_def)
        moreover have "\<not> hopeless w" using nh hope by blast
        ultimately show ?thesis by (simp add: w2)
      qed
    qed
  qed
qed

section \<open>Every event\<close>

lemma set_call_twice [simp]: "set_call k a (set_call k b w) = set_call k a w"
  by (simp add: set_call_def)

lemma parseAckReply_key:
  assumes "parseAckReply api ossl d ps = Inr (ps', ms)"
  shows "ps_signerKeyName ps' = ps_signerKeyName ps \<and> ps_phase ps' = ps_phase ps \<and>
    ps_paraData ps' = ps_paraData ps"
  using assms by (auto simp: parseAckReply_def res_bind_Inr_iff split: if_splits)

lemma quiet_call_ok:
  assumes "session_ok api bls kc td kl w" and "k < length (iw_calls w)" and "is_active (ps_phase (iw_calls w ! k))"
    and "ps_signerKeyName ps = ps_signerKeyName (iw_calls w ! k)" and "piece_list (ps_phase ps) = []"
  shows "session_ok api bls kc td kl (set_call k ps w)" and "session_ok api bls kc td kl (raise e (set_call k ps w))"
    and "silent outs \<Longrightarrow> session_ok api bls kc td kl (emit outs (set_call k ps w))"
    and "hopeless w \<Longrightarrow> hopeless (set_call k ps w)"
proof -
  have ok: "calls_ok w" using assms(1) by (simp add: session_ok_def)
  show "session_ok api bls kc td kl (set_call k ps w)" by (rule session_ok_set_call [OF assms])
  then show "session_ok api bls kc td kl (raise e (set_call k ps w))"
    and "silent outs \<Longrightarrow> session_ok api bls kc td kl (emit outs (set_call k ps w))"
    by (simp_all add: session_ok_raise session_ok_emit)
  show "hopeless w \<Longrightarrow> hopeless (set_call k ps w)" by (rule hopeless_set_call' [OF ok assms(2-4)])
qed

text \<open>An acknowledgement changes its call, and tells the application nothing.\<close>

lemma onAckData_cases:
  obtains (drop) ps where "onAckData api ossl kc iv k d w = set_call k ps w"
      "ps_signerKeyName ps = ps_signerKeyName (iw_calls w ! k)" "ps_phase ps = Ended"
    | (fault) ps e where "onAckData api ossl kc iv k d w = raise e (set_call k ps w)"
      "ps_signerKeyName ps = ps_signerKeyName (iw_calls w ! k)" "ps_phase ps = Ended"
    | (later) ps t where "onAckData api ossl kc iv k d w = emit [ScheduleFetch t] (set_call k ps w)"
      "ps_signerKeyName ps = ps_signerKeyName (iw_calls w ! k)" "ps_phase ps = ResultScheduled"
proof -
  let ?ps = "(iw_calls w ! k)\<lparr>ps_phase := Ended\<rparr>"
  show ?thesis
  proof (cases "parseAckReply api ossl d ?ps")
    case (Inl e)
    then show ?thesis using drop [of ?ps] fault [of _ ?ps] by (cases e) (simp_all add: onAckData_def)
  next
    case (Inr r)
    obtain ps t where r: "r = (ps, t)" by force
    have ps: "ps_signerKeyName ps = ps_signerKeyName (iw_calls w ! k)" "ps_phase ps = Ended"
      using parseAckReply_key [OF Inr [unfolded r]] by simp_all
    let ?x = "res_bind (encodeBlockWithAesGcm128 api ossl iv TLV_Content (ps_aesKey ps)
        (blk_value (d_content (ps_paraData ps))) []) (\<lambda>encryptedBlock.
        hmac_sign kc (ps_hmacKey ps) ((ps_paraData ps)\<lparr>d_content := content_of api encryptedBlock\<rparr>))"
    have u: "onAckData api ossl kc iv k d w = (case ?x of
        Inl e \<Rightarrow> raise e (set_call k ps w)
      | Inr paraData \<Rightarrow> emit [ScheduleFetch t] (set_call k (ps\<lparr>ps_paraData := paraData, ps_paraDataReady := True,
          ps_phase := ResultScheduled\<rparr>) w))"
      by (simp add: onAckData_def Inr r)
    show ?thesis
    proof (cases ?x)
      case (Inl e)
      then show ?thesis using fault [of e ps] ps by (simp add: u)
    next
      case (Inr pd)
      then show ?thesis
        using later [of t "ps\<lparr>ps_paraData := pd, ps_paraDataReady := True, ps_phase := ResultScheduled\<rparr>"] ps
        by (simp add: u)
    qed
  qed
qed

lemma onAckData_ok:
  assumes "session_ok api bls kc td kl w" and "k < length (iw_calls w)" and "is_active (ps_phase (iw_calls w ! k))"
  shows "session_ok api bls kc td kl (onAckData api ossl kc iv k d w) \<and>
    (hopeless w \<longrightarrow> hopeless (onAckData api ossl kc iv k d w))"
proof (cases rule: onAckData_cases [of api ossl kc iv k d w])
  case (drop ps)
  then show ?thesis using quiet_call_ok(1,4) [OF assms, of ps] by simp
next
  case (fault ps e)
  then show ?thesis using quiet_call_ok(2,4) [OF assms, of ps] by simp
next
  case (later ps t)
  then show ?thesis using quiet_call_ok(3,4) [OF assms, of ps] by simp
qed

lemma onResultTimer_ok:
  assumes "session_ok api bls kc td kl w" and "k < length (iw_calls w)" and "is_active (ps_phase (iw_calls w ! k))"
  shows "session_ok api bls kc td kl (onResultTimer kc k w) \<and> (hopeless w \<longrightarrow> hopeless (onResultTimer kc k w))"
  using quiet_call_ok [OF assms, of "(iw_calls w ! k)\<lparr>ps_paraPrefixHandle := False, ps_phase := Ended\<rparr>"]
    quiet_call_ok [OF assms, of "(iw_calls w ! k)\<lparr>ps_paraPrefixHandle := False, ps_phase := AwaitResult\<rparr>"]
  by (simp add: onResultTimer_def Let_def split: sum.split)

text \<open>What the continuation of a result does to its call.\<close>

lemma onResultData_cases:
  obtains (drop) "onResultData api bls ossl kc prefix rnd k d w = set_call k ((iw_calls w ! k)\<lparr>ps_phase := Ended\<rparr>) w"
    | (fault) e where "onResultData api bls ossl kc prefix rnd k d w = raise e (set_call k ((iw_calls w ! k)\<lparr>ps_phase := Ended\<rparr>) w)"
    | (piece) b where "onResultData api bls ossl kc prefix rnd k d w =
        addSignature api bls kc b (set_call k ((iw_calls w ! k)\<lparr>ps_phase := Delivered b\<rparr>) w)"
    | (error) reason where "onResultData api bls ossl kc prefix rnd k d w = onUnavailableSigner api ossl kc prefix rnd reason
        (ps_signerKeyName (iw_calls w ! k)) (set_call k ((iw_calls w ! k)\<lparr>ps_phase := Ended\<rparr>) w)"
    | (later) t where "onResultData api bls ossl kc prefix rnd k d w =
        emit [ScheduleFetch t] (set_call k ((iw_calls w ! k)\<lparr>ps_phase := ResultScheduled\<rparr>) w)"
proof -
  let ?ps = "(iw_calls w ! k)\<lparr>ps_phase := Ended\<rparr>"
  let ?x = "res_bind (parseResultData api ossl d ?ps) (\<lambda>es.
      res_bind (tlv_get api es tlv_Status) (\<lambda>status. Inr (es, read_string api status)))"
  show ?thesis
  proof (cases "hmac_verify kc (ps_hmacKey ?ps) d")
    case False
    then show ?thesis using drop by (simp add: onResultData_def)
  next
    case True
    show ?thesis
    proof (cases ?x)
      case (Inl e)
      then show ?thesis using True fault by (simp add: onResultData_def)
    next
      case (Inr y)
      obtain es code where y: "y = (es, code)" by force
      show ?thesis
      proof (cases "code = ''200''")
        case c200: True
        show ?thesis
        proof (cases "tlv_get api es tlv_BLSSigValue")
          case (Inl e)
          then show ?thesis using True Inr y c200 fault by (simp add: onResultData_def)
        next
          case (Inr b)
          then show ?thesis using True \<open>?x = Inr y\<close> y c200 piece by (simp add: onResultData_def)
        qed
      next
        case n200: False
        show ?thesis
        proof (cases "code = ''102''")
          case False
          then show ?thesis using True Inr y n200 error by (simp add: onResultData_def)
        next
          case c102: True
          let ?y = "res_bind (res_bind (tlv_get api es tlv_ResultAfter) (read_nn api)) (\<lambda>result_ms.
              res_bind (res_bind (tlv_get api es tlv_ResultName) (\<lambda>b.
                res_bind (block_from_value api b) (name_of_block api))) (\<lambda>newResultName. Inr result_ms))"
          show ?thesis
            by (cases ?y) (use True Inr y c102 fault later in \<open>simp_all add: onResultData_def\<close>)
        qed
      qed
    qed
  qed
qed

lemma onResultData_ok:
  assumes "session_ok api bls kc td kl w" and "k < length (iw_calls w)" and "is_active (ps_phase (iw_calls w ! k))"
  shows "session_ok api bls kc td kl (onResultData api bls ossl kc prefix rnd k d w) \<and>
    (hopeless w \<longrightarrow> hopeless (onResultData api bls ossl kc prefix rnd k d w))"
proof -
  let ?ps = "(iw_calls w ! k)\<lparr>ps_phase := Ended\<rparr>"
  have Q: "session_ok api bls kc td kl (set_call k ps w)" "session_ok api bls kc td kl (raise e (set_call k ps w))"
      "session_ok api bls kc td kl (emit [ScheduleFetch t] (set_call k ps w))" "hopeless w \<longrightarrow> hopeless (set_call k ps w)"
    if "ps_signerKeyName ps = ps_signerKeyName (iw_calls w ! k)" "piece_list (ps_phase ps) = []" for ps e t
    using quiet_call_ok [OF assms that] by simp_all
  show ?thesis
  proof (cases rule: onResultData_cases [of api bls ossl kc prefix rnd k d w])
    case drop
    then show ?thesis using Q [of ?ps] by simp
  next
    case (fault e)
    then show ?thesis using Q [of ?ps] by simp
  next
    case (piece b)
    then show ?thesis using addSignature_ok [OF assms, of "?ps\<lparr>ps_phase := Delivered b\<rparr>" b] by simp
  next
    case (error reason)
    then show ?thesis using unavailable_call_ok [OF assms, of ?ps] by simp
  next
    case (later t)
    then show ?thesis using Q [of "?ps\<lparr>ps_phase := ResultScheduled\<rparr>"] by simp
  qed
qed

lemma onNoReply_ok:
  assumes "session_ok api bls kc td kl w" and "k < length (iw_calls w)" and "is_active (ps_phase (iw_calls w ! k))"
  shows "session_ok api bls kc td kl (onNoReply api ossl kc prefix rnd what k w) \<and>
    (hopeless w \<longrightarrow> hopeless (onNoReply api ossl kc prefix rnd what k w))"
  using unavailable_call_ok [OF assms, of "(iw_calls w ! k)\<lparr>ps_phase := Ended\<rparr>"]
  by (simp add: onNoReply_def Let_def)

lemma onParameterInterest_ok:
  assumes "session_ok api bls kc td kl w"
  shows "session_ok api bls kc td kl (onParameterInterest k w) \<and> (hopeless w \<longrightarrow> hopeless (onParameterInterest k w))"
  using assms by (simp add: onParameterInterest_def session_ok_emit)

lemma initiator_step_ok:
  assumes "session_ok api bls kc td kl w" and "initiator_enabled w e"
  shows "session_ok api bls kc td kl (initiator_handle api bls ossl kc prefix w e) \<and>
    (hopeless w \<longrightarrow> hopeless (initiator_handle api bls ossl kc prefix w e))"
proof (cases e)
  case (AckReply k r iv rnd)
  then have k: "k < length (iw_calls w)" "is_active (ps_phase (iw_calls w ! k))"
    using assms(2) by (auto simp: is_active_def)
  then show ?thesis
    using onAckData_ok [OF assms(1) k] onNoReply_ok [OF assms(1) k] AckReply by (cases r) simp_all
next
  case (ResultTimer k)
  then have k: "k < length (iw_calls w)" "is_active (ps_phase (iw_calls w ! k))"
    using assms(2) by (auto simp: is_active_def)
  then show ?thesis using onResultTimer_ok [OF assms(1) k] ResultTimer by simp
next
  case (ResultReply k r rnd)
  then have k: "k < length (iw_calls w)" "is_active (ps_phase (iw_calls w ! k))"
    using assms(2) by (auto simp: is_active_def)
  then show ?thesis
    using onResultData_ok [OF assms(1) k] onNoReply_ok [OF assms(1) k] ResultReply by (cases r) simp_all
next
  case (ParameterInterest k)
  then show ?thesis using onParameterInterest_ok [OF assms(1)] by simp
qed

interpretation initiator_run: history_system initiator_enabled "initiator_handle api bls ossl kc prefix"
    "session_ok api bls kc td kl" "\<lambda>v w. hopeless v \<longrightarrow> hopeless w"
  for api :: "('c::linorder, 'z) packet_api_scheme" and bls :: "('sk, 'pk, 'sig, 'y) bls_api_scheme"
    and ossl :: "('priv, 'o) ossl_api_scheme" and kc :: "('c, 'x) keychain_api_scheme"
    and prefix kl :: "'c name" and td :: "'c data"
  by unfold_locales (simp_all add: initiator_step_ok)

section \<open>What a run guarantees\<close>

definition unfinished :: "('c, 'z) packet_api_scheme \<Rightarrow> nat \<Rightarrow> 'c data \<Rightarrow> 'c name \<Rightarrow> 'c data" where
  "unfinished api r d prefix = fst (prepareUnfinishedDataAndInfoData api r d prefix)"

definition info_name :: "('c, 'z) packet_api_scheme \<Rightarrow> nat \<Rightarrow> 'c data \<Rightarrow> 'c name \<Rightarrow> 'c name" where
  "info_name api r d prefix = d_name (snd (prepareUnfinishedDataAndInfoData api r d prefix))"

lemma unfinished_props:
  "(unfinished api r d prefix)\<lparr>d_sigValue := []\<rparr> = unfinished api r d prefix"
  "key_locator_name (d_sigInfo (unfinished api r d prefix)) = Inr (info_name api r d prefix)"
  "d_name (unfinished api r d prefix) = d_name d"
  by (simp_all add: unfinished_def info_name_def prepareUnfinishedDataAndInfoData_def Let_def new_data_def
      key_locator_name_def bls_sig_info_def)

lemma unfinished_sigInfo: "d_sigInfo (unfinished api r d prefix) \<noteq> None"
  by (simp add: unfinished_def prepareUnfinishedDataAndInfoData_def Let_def)

lemma multiPartySign_ok:
  fixes w :: "('a::linorder, 'd, 'e) initiator_world"
  assumes "multiPartySign api ossl kc prefix r rnd c ud schema key = Inr w" and "trusted_key c [] = None"
  shows "session_ok api bls kc (unfinished api r ud prefix) (info_name api r ud prefix) w"
proof -
  obtain signers where sel: "getAvailableSigners api c schema = Inr signers"
    using assms(1) by (auto simp: multiPartySign_def res_bind_Inr_iff)
  obtain td si where p: "prepareUnfinishedDataAndInfoData api r ud prefix = (td, si)" by force
  let ?g = "\<lparr>g_signers = signers, g_schema = schema, g_toBeSigned = td, g_signInfo = si,
    g_fetchedSignatures = [], g_signingKeyName = key\<rparr>"
  let ?o = "if length signers = 0 then [FailureCb ''No sufficient number of known signers.''] else []"
  define w0 :: "('a, 'd, 'e) initiator_world" where
    "w0 = \<lparr>iw_container = c, iw_global = ?g, iw_calls = [], iw_sent = ?o, iw_faults = []\<rparr>"
  have w: "w = performRPCs api ossl kc prefix rnd signers w0"
    using assms(1) by (simp add: multiPartySign_def sel p Let_def w0_def)
  have d: "distinct signers" using selection_sound(1) [OF sel] by (simp add: sset_ok_def)
  have ok: "calls_ok w0" using d assms(2) by (simp add: calls_ok_def pieces_def w0_def)
  have R: "calls_ok w \<and> successes w = successes w0 \<and> failures w = failures w0 \<and> iw_global w = iw_global w0"
    unfolding w by (rule performRPCs_ok [OF ok]) (use d in \<open>simp_all add: w0_def\<close>)
  have f: "failures w \<noteq> [] \<longrightarrow> hopeless w"
  proof
    assume "failures w \<noteq> []"
    then have "signers = []" using R by (auto simp: failures_def w0_def split: if_splits)
    then show "hopeless w" by (simp add: w hopeless_def w0_def)
  qed
  have "successes w = []" using R by (simp add: successes_def w0_def)
  moreover have "td = unfinished api r ud prefix" "d_name si = info_name api r ud prefix"
    using p by (simp_all add: unfinished_def info_name_def)
  ultimately show ?thesis
    using R f unfinished_props(1) [of api r ud prefix] by (intro session_ok_untold) (simp_all add: w0_def)
qed

lemma multiPartySign_signers:
  fixes w :: "('a::linorder, 'd, 'e) initiator_world"
  assumes "multiPartySign api ossl kc prefix r rnd c ud schema key = Inr w"
  shows "getAvailableSigners api c schema = Inr (g_signers (iw_global w))"
proof -
  obtain signers where "getAvailableSigners api c schema = Inr signers"
    using assms by (auto simp: multiPartySign_def res_bind_Inr_iff)
  moreover have "iw_global (performRPCs api ossl kc prefix rnd items v) = iw_global v" for rnd items and v :: "('a, 'd, 'e) initiator_world"
    using performRPCs_shape [of api ossl kc prefix rnd items v] by auto
  ultimately show ?thesis
    using assms by (auto simp: multiPartySign_def Let_def split: prod.splits)
qed

text \<open>The worlds a run can reach.\<close>

definition initiator_reach ::
  "('c::linorder, 'z) packet_api_scheme \<Rightarrow> ('sk, 'pk, 'sig, 'y) bls_api_scheme \<Rightarrow> ('priv, 'o) ossl_api_scheme \<Rightarrow>
   ('c, 'x) keychain_api_scheme \<Rightarrow> 'c name \<Rightarrow> nat \<Rightarrow> 'c data \<Rightarrow> ('c, 'pk, 'priv) initiator_world \<Rightarrow> bool" where
  "initiator_reach api bls ossl kc prefix r ud w \<longleftrightarrow> (\<exists>rnd c schema key w0 es.
     trusted_key c [] = None \<and> multiPartySign api ossl kc prefix r rnd c ud schema key = Inr w0 \<and>
     exec initiator_enabled (initiator_handle api bls ossl kc prefix) w0 es w)"

lemma reach_extend:
  assumes "initiator_reach api bls ossl kc prefix r ud w" and "initiator_enabled w e"
  shows "initiator_reach api bls ossl kc prefix r ud (initiator_handle api bls ossl kc prefix w e)"
  using assms exec_append exec.intros unfolding initiator_reach_def by metis

lemma reach_ok:
  assumes "initiator_reach api bls ossl kc prefix r ud w"
  shows "session_ok api bls kc (unfinished api r ud prefix) (info_name api r ud prefix) w"
  using assms multiPartySign_ok initiator_run.exec_inv unfolding initiator_reach_def by metis

text \<open>What the invariant says of the reports.\<close>

lemma session_outcome:
  assumes "session_ok api bls kc td kl w"
  shows "length (successes w) \<le> 1 \<and> (successes w = [] \<or> failures w = []) \<and>
    (\<forall>d i. (d, i) \<in> set (successes w) \<longrightarrow>
       d\<lparr>d_sigValue := []\<rparr> = td \<and>
       ndnBLSAggregateSignature_bufs bls (g_fetchedSignatures (iw_global w)) = Inr (d_sigValue d) \<and>
       mset (g_fetchedSignatures (iw_global w)) = mset (pieces (iw_calls w)) \<and>
       distinct (delivered (iw_calls w)) \<and> distinct (g_signers (iw_global w)) \<and>
       set (delivered (iw_calls w)) = set (g_signers (iw_global w)))"
proof (cases "successes w = []")
  case True
  then show ?thesis by simp
next
  case False
  have c: "calls_ok w" using assms by (simp add: session_ok_def)
  obtain d i where s: "successes w = [(d, i)]" "g_fetchedSignatures (iw_global w) \<noteq> []"
      "length (g_fetchedSignatures (iw_global w)) = length (g_signers (iw_global w))"
      "d = g_toBeSigned (iw_global w)"
      "ndnBLSAggregateSignature_bufs bls (g_fetchedSignatures (iw_global w)) = Inr (d_sigValue d)"
    using assms False by (auto simp: session_ok_def)
  have "failures w = []"
    using complete_not_hopeless [OF c s(3,2)] assms by (auto simp: session_ok_def)
  moreover have "d\<lparr>d_sigValue := []\<rparr> = td" using assms s(4) by (simp add: session_ok_def)
  ultimately show ?thesis
    using s c calls_ok_complete [OF c s(3)] by (simp add: calls_ok_def delivered_distinct)
qed

text \<open>
  The application is told once. In every run, whatever order acknowledgements, results,
  NACKs and timeouts arrive in, the success callback is called at most once and never together
  with the failure callback; and when it is called, the packet is the requested one with a
  signature value that aggregates exactly one fetched piece of each signer on the list, and
  every signer on the list delivered.
\<close>

theorem initiator_outcome:
  assumes "initiator_reach api bls ossl kc prefix r ud w"
  shows "length (successes w) \<le> 1 \<and> (successes w = [] \<or> failures w = []) \<and>
    (\<forall>d i. (d, i) \<in> set (successes w) \<longrightarrow>
       d\<lparr>d_sigValue := []\<rparr> = unfinished api r ud prefix \<and>
       ndnBLSAggregateSignature_bufs bls (g_fetchedSignatures (iw_global w)) = Inr (d_sigValue d) \<and>
       mset (g_fetchedSignatures (iw_global w)) = mset (pieces (iw_calls w)) \<and>
       distinct (delivered (iw_calls w)) \<and> distinct (g_signers (iw_global w)) \<and>
       set (delivered (iw_calls w)) = set (g_signers (iw_global w)))"
  by (rule session_outcome [OF reach_ok [OF assms]])

lemma hopeless_for_ever:
  assumes "session_ok api bls kc td kl w" and "hopeless w"
    and "exec initiator_enabled (initiator_handle api bls ossl kc prefix) w es w'"
  shows "successes w' = []"
proof (rule ccontr)
  assume "successes w' \<noteq> []"
  moreover have ok: "session_ok api bls kc td kl w'"
    using assms(1,3) by (rule initiator_run.exec_inv [rotated])
  moreover have "hopeless w'" using initiator_run.exec_rel [OF assms(3,1)] assms(2) by blast
  ultimately show False
    using complete_not_hopeless [of w'] by (auto simp: session_ok_def)
qed

lemma ended_hopeless:
  assumes "session_ok api bls kc td kl w" and "k < length (iw_calls w)" and "is_active (ps_phase (iw_calls w ! k))"
    and "ps_signerKeyName ps = ps_signerKeyName (iw_calls w ! k)" and "ps_phase ps = Ended"
  shows "hopeless (set_call k ps w)"
proof -
  have ok: "calls_ok w" using assms(1) by (simp add: session_ok_def)
  have "iw_calls w ! k \<in> set (iw_calls w)" using assms(2) by simp
  then have key: "ps_signerKeyName ps \<in> set (g_signers (iw_global (set_call k ps w)))"
    using ok assms(3,4) by (auto simp: calls_ok_def is_active_def set_call_def)
  then show ?thesis
    using set_call_running(3) [OF ok assms(2-5)] unfolding hopeless_def by blast
qed

text \<open>The replies after which the code returns without looking for another signer.\<close>

fun dead_end ::
  "('c, 'z) packet_api_scheme \<Rightarrow> ('priv, 'o) ossl_api_scheme \<Rightarrow> ('c, 'x) keychain_api_scheme \<Rightarrow>
   ('c, 'pk, 'priv) initiator_world \<Rightarrow> 'c initiator_event \<Rightarrow> bool" where
  "dead_end api ossl kc w (AckReply k (FetchedData d) iv rnd) \<longleftrightarrow>
     (\<exists>m. parseAckReply api ossl d ((iw_calls w ! k)\<lparr>ps_phase := Ended\<rparr>) = Inl (Throws m))"
| "dead_end api ossl kc w (ResultReply k (FetchedData d) rnd) \<longleftrightarrow>
     \<not> hmac_verify kc (ps_hmacKey (iw_calls w ! k)) d"
| "dead_end api ossl kc w e \<longleftrightarrow> False"

lemma dead_end_step:
  assumes "dead_end api ossl kc w e" and "initiator_enabled w e"
  obtains k where "k < length (iw_calls w)" "is_active (ps_phase (iw_calls w ! k))"
    "initiator_handle api bls ossl kc prefix w e = set_call k ((iw_calls w ! k)\<lparr>ps_phase := Ended\<rparr>) w"
proof (cases "(api, ossl, kc, w, e)" rule: dead_end.cases)
  case (1 api' ossl' kc' w' k d iv rnd)
  then show ?thesis using assms by (intro that [of k]) (auto simp: onAckData_def is_active_def)
next
  case (2 api' ossl' kc' w' k d rnd)
  then show ?thesis using assms by (intro that [of k]) (auto simp: onResultData_def is_active_def)
qed (use assms in auto)

text \<open>
  C40: some replies end the run in silence. When an acknowledgement makes the parser throw (a
  refusal does), or the HMAC of a result does not verify, the handler sends nothing, calls
  nothing and looks for no replacement; and in every continuation the success callback is
  never called.
\<close>

theorem initiator_dead_end:
  assumes "initiator_reach api bls ossl kc prefix r ud w"
    and "dead_end api ossl kc w e"
    and "exec initiator_enabled (initiator_handle api bls ossl kc prefix) w (e # es) w'"
  shows "iw_sent (initiator_handle api bls ossl kc prefix w e) = iw_sent w \<and>
    iw_container (initiator_handle api bls ossl kc prefix w e) = iw_container w \<and>
    g_signers (iw_global (initiator_handle api bls ossl kc prefix w e)) = g_signers (iw_global w) \<and>
    successes w' = []"
proof -
  let ?td = "unfinished api r ud prefix" and ?kl = "info_name api r ud prefix"
  have en: "initiator_enabled w e"
    and rest: "exec initiator_enabled (initiator_handle api bls ossl kc prefix) (initiator_handle api bls ossl kc prefix w e) es w'"
    using assms(3) by (auto elim: exec_consE simp del: exec_simps)
  have ok: "session_ok api bls kc ?td ?kl w" by (rule reach_ok [OF assms(1)])
  obtain k where k: "k < length (iw_calls w)" "is_active (ps_phase (iw_calls w ! k))"
    "initiator_handle api bls ossl kc prefix w e = set_call k ((iw_calls w ! k)\<lparr>ps_phase := Ended\<rparr>) w"
    using dead_end_step [OF assms(2) en] by metis
  have ok1: "session_ok api bls kc ?td ?kl (initiator_handle api bls ossl kc prefix w e)"
    by (rule initiator_run.preserved [OF ok en])
  have "hopeless (initiator_handle api bls ossl kc prefix w e)"
    unfolding k(3) by (rule ended_hopeless [OF ok k(1,2)]) simp_all
  then have "successes w' = []" using hopeless_for_ever [OF ok1] rest by blast
  then show ?thesis by (simp add: k(3)) (simp add: set_call_def)
qed

text \<open>
  Failure is final. Once the failure callback has been called, no continuation of the run
  calls the success callback, although the remaining calls go on.
\<close>

theorem initiator_failure_final:
  assumes "initiator_reach api bls ossl kc prefix r ud w" and "failures w \<noteq> []"
    and "exec initiator_enabled (initiator_handle api bls ossl kc prefix) w es w'"
  shows "successes w' = [] \<and> hopeless w'"
proof -
  have ok: "session_ok api bls kc (unfinished api r ud prefix) (info_name api r ud prefix) w"
    by (rule reach_ok [OF assms(1)])
  then have h: "hopeless w" using assms(2) by (simp add: session_ok_def)
  show ?thesis
    using hopeless_for_ever [OF ok h assms(3)] initiator_run.exec_rel [OF assms(3) ok] h by blast
qed

text \<open>A world in which every listed signer has delivered, and nothing was reported.\<close>

definition complete_unreported :: "('c, 'pk, 'priv) initiator_world \<Rightarrow> bool" where
  "complete_unreported w \<longleftrightarrow> calls_ok w \<and> successes w = [] \<and>
     length (g_fetchedSignatures (iw_global w)) = length (g_signers (iw_global w))"

lemma complete_unreported_step:
  assumes "complete_unreported w" and "initiator_enabled w e"
  shows "complete_unreported (initiator_handle api bls ossl kc prefix w e) \<and>
    failures (initiator_handle api bls ossl kc prefix w e) = failures w \<and>
    iw_global (initiator_handle api bls ossl kc prefix w e) = iw_global w"
proof -
  have inactive: "\<not> is_active (ps_phase (iw_calls w ! k))" if "k < length (iw_calls w)" for k
    using assms(1) complete_not_active [of w "iw_calls w ! k"] that by (simp add: complete_unreported_def)
  then obtain k where e: "e = ParameterInterest k"
    using assms(2) by (cases e) (auto simp: is_active_def)
  have "calls_ok (onParameterInterest k w)"
    using assms(1) by (simp add: onParameterInterest_def complete_unreported_def calls_ok_def emit_def)
  moreover have "successes (onParameterInterest k w) = successes w" "failures (onParameterInterest k w) = failures w"
    "iw_global (onParameterInterest k w) = iw_global w"
    by (simp_all add: onParameterInterest_def emit_def successes_def failures_def)
  ultimately show ?thesis using assms(1) by (simp add: e complete_unreported_def)
qed

interpretation unreported_run: invariant_system initiator_enabled "initiator_handle api bls ossl kc prefix"
    "\<lambda>w. complete_unreported w \<and> failures w = fs \<and> g_signers (iw_global w) = signers"
  for api :: "('c::linorder, 'z) packet_api_scheme" and bls :: "('sk, 'pk, 'sig, 'y) bls_api_scheme"
    and ossl :: "('priv, 'o) ossl_api_scheme" and kc :: "('c, 'x) keychain_api_scheme"
    and prefix :: "'c name" and fs :: "string list" and signers :: "'c name list"
  by unfold_locales (simp add: complete_unreported_step)

text \<open>
  Completion is looked for only when a piece arrives. When a signer that does not answer is
  replaced by nobody and the shorter list has already been served, the run is complete but
  nothing is reported, and no continuation ever calls the success callback.
\<close>

theorem initiator_misses_completion:
  assumes "initiator_reach api bls ossl kc prefix r ud w"
    and "initiator_enabled w (ResultReply k FetchTimeout rnd)"
    and "replaceSigner api (iw_container w) (g_signers (iw_global w)) (ps_signerKeyName (iw_calls w ! k))
      (g_schema (iw_global w)) = (c, new, [])"
    and "new \<noteq> []" and "length (g_fetchedSignatures (iw_global w)) = length new"
    and "exec initiator_enabled (initiator_handle api bls ossl kc prefix) w (ResultReply k FetchTimeout rnd # es) w'"
  shows "g_signers (iw_global w') = new \<and> set (delivered (iw_calls w')) = set new \<and>
    successes w' = [] \<and> failures w' = failures w"
proof -
  let ?e = "ResultReply k FetchTimeout rnd" and ?td = "unfinished api r ud prefix" and ?kl = "info_name api r ud prefix"
  let ?w1 = "initiator_handle api bls ossl kc prefix w ?e"
  have ok: "session_ok api bls kc ?td ?kl w" by (rule reach_ok [OF assms(1)])
  have k: "k < length (iw_calls w)" "is_active (ps_phase (iw_calls w ! k))"
    using assms(2) by (auto simp: is_active_def)
  have w1: "?w1 = (set_call k ((iw_calls w ! k)\<lparr>ps_phase := Ended\<rparr>) w)
      \<lparr>iw_container := c, iw_global := (iw_global w)\<lparr>g_signers := new\<rparr>\<rparr>"
    using assms(3,4) by (simp add: onNoReply_def Let_def onUnavailableSigner_def) (simp add: set_call_def)
  have g1: "g_signers (iw_global ?w1) = new"
    "g_fetchedSignatures (iw_global ?w1) = g_fetchedSignatures (iw_global w)"
    unfolding w1 by simp_all
  have "session_ok api bls kc ?td ?kl ?w1"
    by (rule initiator_run.preserved [OF ok assms(2)])
  moreover have "successes ?w1 = []" "failures ?w1 = failures w"
    using active_no_success [OF ok k] unfolding w1 by (simp_all add: successes_def failures_def set_call_def)
  ultimately have c1: "complete_unreported ?w1 \<and> failures ?w1 = failures w \<and> g_signers (iw_global ?w1) = new"
    using assms(5) g1 unfolding complete_unreported_def session_ok_def by simp
  have rest: "exec initiator_enabled (initiator_handle api bls ossl kc prefix) ?w1 es w'"
    using assms(6) by (rule exec_consE)
  have c': "complete_unreported w' \<and> failures w' = failures w \<and> g_signers (iw_global w') = new"
    using unreported_run.exec_inv [OF rest, where fs = "failures w" and signers = new] c1 by blast
  then have "set (delivered (iw_calls w')) = set (g_signers (iw_global w'))"
    by (intro calls_ok_complete) (simp_all add: complete_unreported_def)
  with c' show ?thesis by (simp add: complete_unreported_def)
qed

text \<open>
  Asked for the parameters too early, the initiator stops. The handler of a parameter Interest
  that arrives before the acknowledgement waits for a future that only the same thread could
  fulfil: after it, no event is handled any more.
\<close>

theorem initiator_deadlock:
  assumes "initiator_enabled w (ParameterInterest k)" and "\<not> ps_paraDataReady (iw_calls w ! k)"
    and "exec initiator_enabled (initiator_handle api bls ossl kc prefix) w (ParameterInterest k # es) w'"
  shows "es = [] \<and> iw_sent w' = iw_sent w @ [WaitForever] \<and> \<not> initiator_enabled w' e"
proof -
  let ?w1 = "onParameterInterest k w"
  have w1: "?w1 = emit [WaitForever] w" using assms(2) by (simp add: onParameterInterest_def)
  then have b: "blocked ?w1" by (simp add: blocked_def emit_def)
  then have stop: "\<not> initiator_enabled ?w1 e" for e by (cases e) simp_all
  from assms(3) have "exec initiator_enabled (initiator_handle api bls ossl kc prefix) ?w1 es w'" by simp
  then have "es = [] \<and> w' = ?w1" using stop by (cases es) auto
  with w1 stop show ?thesis by (simp add: emit_def)
qed

end
