(* ===== verification/Verifier.thy ===== *)
theory Verifier
  imports Schema_Container Signer_List
begin

text \<open>
  \<^verbatim>\<open>BLSVerifier\<close> of \<^verbatim>\<open>verifier.cpp\<close>. Its state is the schema container, an
  argument here. \<open>verify\<close> is a function to results: an exception that leaves
  \<^verbatim>\<open>verify\<close> is \<open>Inl\<close>. \<open>asyncVerify\<close> is split where the code returns to the event
  loop: the call, which may send an Interest, and the three continuations, which call the
  callback; what they send and call is the list of outputs.

  The lemmas connect the decision with the policy and with the signatures: what is accepted
  was signed, under the sum of the trusted keys, by a list that the policy accepts, and a
  packet signed by such a list is accepted.
\<close>

section \<open>The verifier\<close>

definition verify ::
  "('c::linorder, 'z) packet_api_scheme \<Rightarrow> ('sk, 'pk, 'sig, 'y) bls_api_scheme \<Rightarrow> ('c, 'pk) container \<Rightarrow>
   'c data \<Rightarrow> 'c data \<Rightarrow> bool res" where
  "verify api bls m_schemaContainer d signatureInfoData =
     (case res_catch (res_bind (key_locator_name (d_sigInfo d)) (\<lambda>keyLocatorName.
             Inr (is_prefix_of keyLocatorName (d_name signatureInfoData)))) (Inr False) of
        Inl e \<Rightarrow> Inl e
      | Inr False \<Rightarrow> Inr False
      | Inr True \<Rightarrow>
          res_bind (block_parse api (d_content signatureInfoData)) (\<lambda>signerListBlock.
          res_bind (tlv_get api signerListBlock tlv_MpsSignerList) (\<lambda>listBlock.
          res_bind (if blk_valid api listBlock
                    then res_bind (tlv_get api signerListBlock tlv_MpsSignerList) (signers_wireDecode api)
                    else Inr []) (\<lambda>signerList.
            if \<not> container_passSchema api m_schemaContainer (d_name d) signerList then Inr False
            else res_bind (aggregateKey bls m_schemaContainer signerList) (\<lambda>aggKey.
              ndnBLSVerify_data api bls aggKey d)))))"

datatype 'c verifier_output = ExpressInterest "'c interest" | FinishCallback bool

datatype 'c verifier_reply = InfoData "'c data" | InfoNack | InfoTimeout

definition asyncVerify :: "'c data \<Rightarrow> 'c verifier_output list res" where
  "asyncVerify d = res_catch
     (res_bind (key_locator_name (d_sigInfo d)) (\<lambda>keyLocatorName.
        Inr [ExpressInterest ((new_interest keyLocatorName)\<lparr>i_canBePrefix := True, i_mustBeFresh := True\<rparr>)]))
     (Inr [FinishCallback False])"

fun asyncVerify_reply ::
  "('c::linorder, 'z) packet_api_scheme \<Rightarrow> ('sk, 'pk, 'sig, 'y) bls_api_scheme \<Rightarrow> ('c, 'pk) container \<Rightarrow>
   'c data \<Rightarrow> 'c verifier_reply \<Rightarrow> 'c verifier_output list res" where
  "asyncVerify_reply api bls c d (InfoData signatureInfoData) =
     res_bind (verify api bls c d signatureInfoData) (\<lambda>isValid. Inr [FinishCallback isValid])"
| "asyncVerify_reply api bls c d InfoNack = Inr [FinishCallback False]"
| "asyncVerify_reply api bls c d InfoTimeout = Inr [FinishCallback False]"

section \<open>Correctness\<close>

lemma key_locator_name_cases:
  obtains (name) n where "key_locator_name si = Inr n" | (none) w where "key_locator_name si = Inl (Throws w)"
proof -
  have "(\<exists>n. key_locator_name si = Inr n) \<or> (\<exists>w. key_locator_name si = Inl (Throws w))"
    by (simp add: key_locator_name_def split: option.split key_locator.split)
  with name none show ?thesis by blast
qed

text \<open>The verifier on an info packet with a well-formed signer list.\<close>

lemma verify_with_list:
  assumes "key_locator_name (d_sigInfo d) = Inr kl" and "is_prefix_of kl (d_name sid)"
    and "block_parse api (d_content sid) = Inr es" and "tlv_get api es tlv_MpsSignerList = Inr b"
    and "blk_valid api b" and "signers_wireDecode api b = Inr signers"
  shows "verify api bls c d sid =
    (if container_passSchema api c (d_name d) signers
     then res_bind (aggregateKey bls c signers) (\<lambda>pk. ndnBLSVerify_data api bls pk d) else Inr False)"
  using assms by (simp add: verify_def)

lemma verify_not_prefix:
  assumes "\<not> (\<exists>kl. key_locator_name (d_sigInfo d) = Inr kl \<and> is_prefix_of kl (d_name sid))"
  shows "verify api bls c d sid = Inr False"
  using assms by (cases rule: key_locator_name_cases [of "d_sigInfo d"]) (simp_all add: verify_def)

lemma container_passSchema_cases:
  assumes "container_passSchema api c pkt signers"
  obtains schema where "find (\<lambda>s. schema_match api s pkt) (m_schemas c) = Some schema"
    and "passSchema api schema signers" and "\<forall>n \<in> set signers. trusted_key c n \<noteq> None"
  using assms by (auto simp: container_passSchema_def list_ex_iff split: if_splits option.splits)

lemma aggregate_trusted:
  assumes "\<forall>n \<in> set signers. trusted_key c n \<noteq> None" and "signers = n # ns"
  shows "aggregateKey bls c signers =
    Inr (foldl (blsPublicKeyAdd bls) (the (trusted_key c n)) (map (\<lambda>n. the (trusted_key c n)) ns))"
proof -
  have "\<forall>n \<in> set signers. trusted_key c n = Some (the (trusted_key c n))" using assms(1) by auto
  from aggregateKey_trusted [OF this] show ?thesis by (simp add: assms(2))
qed

text \<open>
  C8: what the verifier accepts. When \<^verbatim>\<open>verify\<close> returns true, the key locator of the packet
  is a prefix of the name of the info packet, the info packet carries a signer list, every signer
  on it is trusted, the first schema that matches the packet's name accepts the list, and the
  signature of the packet verifies, over its signed portion, under the aggregation of the
  signers' public keys.
\<close>

theorem verify_sound:
  assumes "verify api bls c d sid = Inr True"
  shows "\<exists>kl es b signers schema rs aggKey.
    key_locator_name (d_sigInfo d) = Inr kl \<and> is_prefix_of kl (d_name sid) \<and>
    block_parse api (d_content sid) = Inr es \<and> tlv_get api es tlv_MpsSignerList = Inr b \<and>
    (signers_wireDecode api b = Inr signers \<or> \<not> blk_valid api b \<and> signers = []) \<and>
    (\<forall>n \<in> set signers. trusted_key c n \<noteq> None) \<and>
    find (\<lambda>s. schema_match api s (d_name d)) (m_schemas c) = Some schema \<and> passSchema api schema signers \<and>
    data_ranges api d = Inr rs \<and>
    aggregateKey bls c signers = Inr aggKey \<and>
    blsVerify bls (blsSignatureDeserialize bls (sig_uninit bls) (d_sigValue d)) aggKey (concat rs) = 1"
proof -
  obtain kl where kl: "key_locator_name (d_sigInfo d) = Inr kl" "is_prefix_of kl (d_name sid)"
    using assms verify_not_prefix [of d sid api bls c] by fastforce
  define listed where "listed = (\<lambda>es b. if blk_valid api b
    then res_bind (tlv_get api es tlv_MpsSignerList) (signers_wireDecode api) else Inr [])"
  have "res_bind (block_parse api (d_content sid)) (\<lambda>es. res_bind (tlv_get api es tlv_MpsSignerList) (\<lambda>b.
      res_bind (listed es b) (\<lambda>signers. if \<not> container_passSchema api c (d_name d) signers then Inr False
        else res_bind (aggregateKey bls c signers) (\<lambda>aggKey. ndnBLSVerify_data api bls aggKey d)))) = Inr True"
    using assms kl by (simp add: verify_def listed_def)
  then obtain es b signers aggKey where s:
    "block_parse api (d_content sid) = Inr es" "tlv_get api es tlv_MpsSignerList = Inr b"
    "listed es b = Inr signers"
    "container_passSchema api c (d_name d) signers"
    "aggregateKey bls c signers = Inr aggKey" "ndnBLSVerify_data api bls aggKey d = Inr True"
    by (auto simp: res_bind_Inr_iff split: if_splits)
  have "signers_wireDecode api b = Inr signers \<or> \<not> blk_valid api b \<and> signers = []"
    using s(2,3) by (auto simp: listed_def split: if_splits)
  moreover obtain schema where "find (\<lambda>s. schema_match api s (d_name d)) (m_schemas c) = Some schema"
    "passSchema api schema signers" "\<forall>n \<in> set signers. trusted_key c n \<noteq> None"
    using s(4) by (rule container_passSchema_cases)
  moreover obtain rs where "data_ranges api d = Inr rs"
    "blsVerify bls (blsSignatureDeserialize bls (sig_uninit bls) (d_sigValue d)) aggKey (concat rs) = 1"
    using s(6) by (auto simp: ndnBLSVerify_data_def res_bind_Inr_iff foldl_append_concat)
  ultimately show ?thesis using kl s(1,2,5) by blast
qed

text \<open>
  An honestly assembled pair of packets: the signature info names the key locator, the signature
  is the serialised BLS signature of the signed portion under the sum of the signers' secret
  keys, and the info packet, named under the key locator, carries the list of the signers.
\<close>

definition signed_by ::
  "('c::linorder, 'z) packet_api_scheme \<Rightarrow> ('sk, 'pk, 'sig, 'y) bls_api_scheme \<Rightarrow> ('sk \<Rightarrow> 'sk \<Rightarrow> 'sk) \<Rightarrow>
   'sk list \<Rightarrow> 'c data \<Rightarrow> bool" where
  "signed_by api bls skAdd sks d \<longleftrightarrow> (case sks of [] \<Rightarrow> False | k # ks \<Rightarrow>
     (case data_unsigned api d of Inl _ \<Rightarrow> False
      | Inr m \<Rightarrow> d_sigValue d = blsSignatureSerialize bls encodingBuf_size (blsSign bls (foldl skAdd k ks) m)))"

definition info_for ::
  "('c::linorder, 'z) packet_api_scheme \<Rightarrow> 'c data \<Rightarrow> 'c name list \<Rightarrow> 'c data \<Rightarrow> bool" where
  "info_for api d signers sid \<longleftrightarrow>
     (case key_locator_name (d_sigInfo d) of Inl _ \<Rightarrow> False | Inr kl \<Rightarrow> is_prefix_of kl (d_name sid)) \<and>
     d_content sid = content_of api (signers_wireEncode api signers)"

lemma info_for_parse:
  assumes "tlv_laws api" and "packet_laws api" and "info_for api d signers sid"
  shows "block_parse api (d_content sid) = Inr [signers_wireEncode api signers]"
    and "tlv_get api [signers_wireEncode api signers] tlv_MpsSignerList = Inr (signers_wireEncode api signers)"
    and "blk_valid api (signers_wireEncode api signers)"
proof -
  have t: "blk_type (signers_wireEncode api signers) = 200"
    by (simp add: signers_wireEncode_def tlv_MpsSignerList_def)
  then show "block_parse api (d_content sid) = Inr [signers_wireEncode api signers]"
    using assms(3) by (simp add: info_for_def content_of_eq [OF assms(2)] block_parse_with [OF assms(1)])
  show "tlv_get api [signers_wireEncode api signers] tlv_MpsSignerList = Inr (signers_wireEncode api signers)"
    using t by (intro tlv_get_found [OF assms(1)]) (simp add: tlv_MpsSignerList_def)
  show "blk_valid api (signers_wireEncode api signers)"
    using t tlv_invalid_eq [OF assms(1)] by (auto simp: blk_valid_def)
qed

lemma verify_info_for:
  assumes "tlv_laws api" and "packet_laws api" and "info_for api d signers sid"
  shows "verify api bls c d sid =
    (if container_passSchema api c (d_name d) signers
     then res_bind (aggregateKey bls c signers) (\<lambda>pk. ndnBLSVerify_data api bls pk d) else Inr False)"
proof -
  obtain kl where "key_locator_name (d_sigInfo d) = Inr kl" "is_prefix_of kl (d_name sid)"
    using assms(3) by (auto simp: info_for_def split: sum.splits)
  from verify_with_list [OF this info_for_parse [OF assms] signers_codec.round [OF assms(1) TrueI]]
  show ?thesis .
qed

lemma verify_signed:
  assumes "bls_laws bls skAdd" and "tlv_laws api" and "packet_laws api"
    and "signed_by api bls skAdd sks d" and "info_for api d signers sid"
    and "list_all2 (\<lambda>n k. trusted_key c n = Some (blsGetPublicKey bls k)) signers sks"
    and "container_passSchema api c (d_name d) signers"
  shows "verify api bls c d sid = Inr True"
proof -
  obtain k ks m where sks: "sks = k # ks" and m: "data_unsigned api d = Inr m"
    and sv: "d_sigValue d = blsSignatureSerialize bls encodingBuf_size (blsSign bls (foldl skAdd k ks) m)"
    using assms(4) by (auto simp: signed_by_def split: list.splits sum.splits)
  obtain n ns where signers: "signers = n # ns" and n: "trusted_key c n = Some (blsGetPublicKey bls k)"
    and ns: "list_all2 (\<lambda>n k. trusted_key c n = Some (blsGetPublicKey bls k)) ns ks"
    using assms(6) by (auto simp: sks list_all2_Cons2)
  have "map (\<lambda>n. the (trusted_key c n)) ns = map (blsGetPublicKey bls) ks"
    using ns by (induction rule: list_all2_induct) auto
  moreover have "\<forall>n \<in> set signers. trusted_key c n \<noteq> None"
    using assms(6) by (auto simp: list_all2_conv_all_nth in_set_conv_nth)
  ultimately have agg: "aggregateKey bls c signers = Inr (blsGetPublicKey bls (foldl skAdd k ks))"
    using aggregate_trusted [OF _ signers, of c bls] n by (simp add: foldl_pk_sks [OF assms(1)])
  have "d_sigInfo d \<noteq> None"
    using assms(5) by (auto simp: info_for_def key_locator_name_def split: sum.splits option.splits)
  note V = verify_data_signed [OF assms(1,3) this m, of "foldl skAdd k ks"]
  have "d\<lparr>d_sigValue := blsSignatureSerialize bls encodingBuf_size (blsSign bls (foldl skAdd k ks) m)\<rparr> = d"
    using sv by simp
  then have "ndnBLSVerify_data api bls (blsGetPublicKey bls (foldl skAdd k ks)) d = Inr True"
    using V by simp
  with agg assms(7) show ?thesis
    by (simp add: verify_info_for [OF assms(2,3,5)])
qed

text \<open>
  C13: what the verifier must accept. A packet whose signature is the one of the sum of the
  signers' secret keys, whose info packet lists exactly these signers, all trusted with the
  matching public keys, is accepted exactly when the policy accepts the list.
\<close>

theorem verify_complete:
  assumes "bls_laws bls skAdd" and "tlv_laws api" and "packet_laws api"
    and "signed_by api bls skAdd sks d" and "info_for api d signers sid"
    and "list_all2 (\<lambda>n k. trusted_key c n = Some (blsGetPublicKey bls k)) signers sks"
  shows "verify api bls c d sid = Inr (container_passSchema api c (d_name d) signers)"
proof (cases "container_passSchema api c (d_name d) signers")
  case True
  with verify_signed [OF assms this] show ?thesis by simp
next
  case False
  then show ?thesis by (simp add: verify_info_for [OF assms(2,3,5)])
qed

text \<open>
  A single trusted party can stand for \<open>n\<close>. When the first matching schema asks for
  \<open>n\<close> signers of a pattern and nothing else, one key that matches the pattern, listed
  \<open>n\<close> times and summed \<open>n\<close> times, is accepted.
\<close>

theorem verify_repeated_signer:
  assumes "bls_laws bls skAdd" and "tlv_laws api" and "packet_laws api"
    and "find (\<lambda>s. schema_match api s (d_name d)) (m_schemas c) = Some schema"
    and "m_signers schema = [p]" and "m_minOptionalSigners schema = 0" and "m_times p = n" and "0 < n"
    and "wc_match api p s" and "trusted_key c s = Some (blsGetPublicKey bls k)"
    and "signed_by api bls skAdd (replicate n k) d" and "info_for api d (replicate n s) sid"
  shows "verify api bls c d sid = Inr True"
proof -
  have "count_if (wc_match api p) (replicate n s) = n" using assms(9) by (subst count_if_all) auto
  then have "container_passSchema api c (d_name d) (replicate n s)"
    using assms(4-7,10) by (simp add: container_passSchema_def list_ex_iff passSchema_iff required_met_def)
  then show ?thesis
    using verify_signed [OF assms(1-3,11,12)] assms(10) by (simp add: list_all2_same list_all2_conv_all_nth)
qed

text \<open>
  An empty signer list. When the first matching schema requires nobody, the list is accepted
  by the policy and the signature is checked against a public key that was never initialised.
\<close>

theorem verify_empty_signers:
  assumes "tlv_laws api" and "packet_laws api" and "info_for api d [] sid"
    and "find (\<lambda>s. schema_match api s (d_name d)) (m_schemas c) = Some schema"
    and "m_signers schema = []" and "m_minOptionalSigners schema = 0"
  shows "verify api bls c d sid = ndnBLSVerify_data api bls (pk_uninit bls) d"
  using assms(4-6)
  by (simp add: verify_info_for [OF assms(1-3)] container_passSchema_def passSchema_iff required_met_def
      aggregateKey_trusted)

text \<open>
  An info packet without a signer list makes \<^verbatim>\<open>verify\<close> throw, although the code tests
  the looked-up element for validity as if it could be absent; and in \<^verbatim>\<open>asyncVerify\<close> the
  exception leaves the continuation without the callback being called.
\<close>

theorem verify_missing_list_throws:
  assumes "tlv_laws api" and "key_locator_name (d_sigInfo d) = Inr kl" and "is_prefix_of kl (d_name sid)"
    and "block_parse api (d_content sid) = Inr es" and "\<forall>b \<in> set es. blk_type b \<noteq> 200"
  shows "\<exists>w. verify api bls c d sid = Inl (Throws w) \<and>
    asyncVerify_reply api bls c d (InfoData sid) = Inl (Throws w)"
proof -
  have "find (\<lambda>e. blk_type e = tlv_MpsSignerList) es = None"
    using assms(5) by (simp add: find_None_iff tlv_MpsSignerList_def)
  then obtain w where "tlv_get api es tlv_MpsSignerList = Inl (Throws w)"
    using tlv_get_missing [OF assms(1)] by blast
  with assms(2-4) show ?thesis by (simp add: verify_def)
qed

definition finish_calls :: "'c verifier_output list \<Rightarrow> bool list" where
  "finish_calls outs = concat (map (\<lambda>x. case x of FinishCallback b \<Rightarrow> [b] | _ \<Rightarrow> []) outs)"

text \<open>
  C31: when the callback is called, and with what. \<^verbatim>\<open>asyncVerify\<close> either calls the callback with
  false at once and sends nothing, when the packet has no key locator name, or sends one Interest
  for the key locator and does not call it yet. Then each reply has one of two outcomes: the callback is
  called exactly once, with true if and only if the reply is a packet with which
  \<^verbatim>\<open>verify\<close> accepts; or \<^verbatim>\<open>verify\<close> throws on the fetched packet, the exception leaves
  the handler, and the callback is not called.
\<close>

theorem asyncVerify_once:
  shows "(asyncVerify d = Inr [FinishCallback False] \<and> (\<forall>kl. key_locator_name (d_sigInfo d) \<noteq> Inr kl)) \<or>
    (\<exists>kl i. asyncVerify d = Inr [ExpressInterest i] \<and> key_locator_name (d_sigInfo d) = Inr kl \<and> i_name i = kl \<and>
       (\<forall>r. case asyncVerify_reply api bls c d r of
          Inr outs \<Rightarrow> finish_calls outs = [\<exists>sid. r = InfoData sid \<and> verify api bls c d sid = Inr True] \<and>
            (\<forall>sid. r = InfoData sid \<longrightarrow> (\<exists>b. verify api bls c d sid = Inr b))
        | Inl e \<Rightarrow> \<exists>sid. r = InfoData sid \<and> verify api bls c d sid = Inl e))"
proof (cases rule: key_locator_name_cases [of "d_sigInfo d"])
  case (name n)
  have "case asyncVerify_reply api bls c d r of
      Inr outs \<Rightarrow> finish_calls outs = [\<exists>sid. r = InfoData sid \<and> verify api bls c d sid = Inr True] \<and>
        (\<forall>sid. r = InfoData sid \<longrightarrow> (\<exists>b. verify api bls c d sid = Inr b))
    | Inl e \<Rightarrow> \<exists>sid. r = InfoData sid \<and> verify api bls c d sid = Inl e" for r
  proof (cases r)
    case (InfoData sid)
    then show ?thesis by (cases "verify api bls c d sid") (simp_all add: finish_calls_def)
  qed (simp_all add: finish_calls_def)
  with name show ?thesis by (simp add: asyncVerify_def new_interest_def)
next
  case (none w)
  then show ?thesis by (simp add: asyncVerify_def)
qed

end
