(* ===== verification/Protocol.thy ===== *)
theory Protocol
  imports Initiator_Session Verifier
begin

text \<open>
  The lemmas that join the components. What a run of the initiator reports is put together from
  the pieces so that the verifier accepts it (sums of keys in any order); and the packets of one
  end of the protocol are what the other end reads: the acknowledgement, the parameter data and
  the result, each made by the function of one program and parsed by that of the other.
\<close>

section \<open>Sums of keys in any order\<close>

definition comm_add :: "('a \<Rightarrow> 'a \<Rightarrow> 'a) \<Rightarrow> bool" where
  "comm_add f \<longleftrightarrow> (\<forall>a b. f a b = f b a) \<and> (\<forall>a b c. f (f a b) c = f a (f b c))"

definition add_opt :: "('a \<Rightarrow> 'a \<Rightarrow> 'a) \<Rightarrow> 'a \<Rightarrow> 'a option \<Rightarrow> 'a option" where
  "add_opt f x acc = (case acc of None \<Rightarrow> Some x | Some a \<Rightarrow> Some (f a x))"

lemma fold_add_opt: "fold (add_opt f) xs (Some a) = Some (foldl f a xs)"
  by (induction xs arbitrary: a) (simp_all add: add_opt_def)

lemma foldl_any_order:
  assumes "comm_add f" and "mset (a # xs) = mset (b # ys)"
  shows "foldl f a xs = foldl f b ys"
proof -
  have comm: "\<And>x y. f x y = f y x" and assoc: "\<And>x y z. f (f x y) z = f x (f y z)"
    using assms(1) unfolding comm_add_def by blast+
  have swap: "f (f c y) x = f (f c x) y" for c x y
    using assoc [of c y x] assoc [of c x y] comm [of x y] by metis
  have "add_opt f x (add_opt f y c) = add_opt f y (add_opt f x c)" for x y c
    by (cases c) (simp_all add: add_opt_def comm [of x y] swap [of _ x y])
  then have "fold (add_opt f) (a # xs) = fold (add_opt f) (b # ys)"
    using assms(2) by (intro fold_multiset_equiv) auto
  from arg_cong [OF this, of "\<lambda>g. g None"] show ?thesis
    by (simp add: add_opt_def [of f _ None] fold_add_opt)
qed

lemma mset_map_order:
  assumes "mset zs = mset (map f xs)"
  shows "\<exists>ys. mset ys = mset xs \<and> zs = map f ys"
  using assms
proof (induction zs arbitrary: xs)
  case Nil
  then show ?case by simp
next
  case (Cons z zs)
  then have "z \<in> set (map f xs)" by (metis list.set_intros(1) set_mset_mset)
  then obtain x where x: "x \<in> set xs" "z = f x" by auto
  obtain us vs where xs: "xs = us @ x # vs" using split_list [OF x(1)] by blast
  have "mset zs = mset (map f (us @ vs))" using Cons.prems by (simp add: xs x(2))
  then obtain ys where "mset ys = mset (us @ vs)" "zs = map f ys" using Cons.IH by blast
  then show ?case by (intro exI [of _ "x # ys"]) (simp add: xs x(2))
qed

section \<open>From the last piece to the verifier\<close>

lemma pieces_of_delivered:
  assumes "\<forall>ps \<in> set calls. \<forall>b. ps_phase ps = Delivered b \<longrightarrow> f (ps_signerKeyName ps) = b"
  shows "pieces calls = map f (delivered calls)"
  using assms
proof (induction calls)
  case Nil
  then show ?case by (simp add: pieces_def delivered_def)
next
  case (Cons ps calls)
  then have "pieces calls = map f (delivered calls)" by simp
  with Cons.prems show ?case
    by (cases "ps_phase ps") (simp_all add: pieces_def delivered_def)
qed

text \<open>The signature value that a reported packet carries, when every piece is honest.\<close>

lemma success_signed_by:
  assumes "bls_laws bls skAdd" and "comm_add skAdd" and "packet_laws api"
    and "session_ok api bls kc td kl w" and "(d, i) \<in> set (successes w)"
    and "\<forall>ps \<in> set (iw_calls w). \<forall>b. ps_phase ps = Delivered b \<longrightarrow>
      ndnGenBLSSignature_data api bls (sk (ps_signerKeyName ps)) td = Inr b"
    and "d_sigInfo td \<noteq> None"
  shows "signed_by api bls skAdd (map sk (g_signers (iw_global w))) d"
proof -
  let ?signers = "g_signers (iw_global w)" and ?fetched = "g_fetchedSignatures (iw_global w)"
  have s: "?fetched \<noteq> []" "length ?fetched = length ?signers"
      "ndnBLSAggregateSignature_bufs bls ?fetched = Inr (d_sigValue d)" "d = g_toBeSigned (iw_global w)"
    and c: "calls_ok w"
    using assms(4,5) by (auto simp: session_ok_def)
  have td: "d\<lparr>d_sigValue := []\<rparr> = td" using assms(4) s(4) by (simp add: session_ok_def)
  obtain m where m: "data_unsigned api td = Inr m"
    using data_ranges_unsigned [OF assms(3,7)] by blast
  then have md: "data_unsigned api d = Inr m"
    using data_unsigned_sigValue [OF assms(3), where d = d and v = "[]"] td by simp
  define F where "F = (\<lambda>n. blsSignatureSerialize bls encodingBuf_size (blsSign bls (sk n) m))"
  have "\<forall>ps \<in> set (iw_calls w). \<forall>b. ps_phase ps = Delivered b \<longrightarrow> F (ps_signerKeyName ps) = b"
    using assms(6) m by (simp add: F_def ndnGenBLSSignature_data_def)
  then have "mset ?fetched = mset (map F (delivered (iw_calls w)))"
    using c pieces_of_delivered [of "iw_calls w" F] by (simp add: calls_ok_def)
  moreover have "mset (delivered (iw_calls w)) = mset ?signers"
    using c calls_ok_complete [OF c s(2)] by (simp add: calls_ok_def delivered_distinct set_eq_iff_mset_eq_distinct)
  ultimately have "mset ?fetched = mset (map F ?signers)" by simp
  then obtain ys where ys: "mset ys = mset ?signers" "?fetched = map F ys"
    using mset_map_order by blast
  obtain y ys' where y: "ys = y # ys'" using ys(2) s(1) by (cases ys) auto
  obtain n ns where n: "?signers = n # ns" using s(1,2) by (cases ?signers) auto
  have "mset (sk y # map sk ys') = image_mset sk (mset ys)" by (simp add: y)
  also have "\<dots> = mset (sk n # map sk ns)" unfolding ys(1) n by simp
  finally have sum: "foldl skAdd (sk y) (map sk ys') = foldl skAdd (sk n) (map sk ns)"
    by (rule foldl_any_order [OF assms(2)])
  have "?fetched = map (\<lambda>k. blsSignatureSerialize bls encodingBuf_size (blsSign bls k m)) (sk y # map sk ys')"
    by (simp add: ys(2) y F_def)
  then have "d_sigValue d = blsSignatureSerialize bls encodingBuf_size (blsSign bls (foldl skAdd (sk n) (map sk ns)) m)"
    using s(3) aggregate_bufs_sks [OF assms(1), of m "sk y" "map sk ys'"] sum by simp
  with md show ?thesis by (simp add: signed_by_def n)
qed

lemma success_info_for:
  assumes "keychain_laws kc" and "session_ok api bls kc td kl w" and "(d, i) \<in> set (successes w)"
    and "key_locator_name (d_sigInfo td) = Inr kl"
  shows "info_for api d (g_signers (iw_global w)) i"
proof -
  have "d = g_toBeSigned (iw_global w) \<and> (\<exists>i0. d_name i0 = kl \<and>
      key_sign_data kc (g_signingKeyName (iw_global w))
        (i0\<lparr>d_content := content_of api (signers_wireEncode api (g_signers (iw_global w)))\<rparr>) = Inr i)"
    using assms(2,3) unfolding session_ok_def by (elim conjE disjE exE) (simp, force)
  then obtain i0 where s: "d = g_toBeSigned (iw_global w)" "d_name i0 = kl"
    "key_sign_data kc (g_signingKeyName (iw_global w))
       (i0\<lparr>d_content := content_of api (signers_wireEncode api (g_signers (iw_global w)))\<rparr>) = Inr i"
    by blast
  obtain si v where "i = i0\<lparr>d_content := content_of api (signers_wireEncode api (g_signers (iw_global w))),
      d_sigInfo := Some si, d_sigValue := v\<rparr>"
    using assms(1) s(3) unfolding keychain_laws_def by (metis sum.inject(2))
  moreover have "d_sigInfo d = d_sigInfo td"
    using assms(2) s(1) by (auto simp: session_ok_def)
  ultimately show ?thesis using s(2) assms(4) by (simp add: info_for_def)
qed

text \<open>The conclusion for the verifier, in the form the properties use.\<close>

lemma reported_verifies:
  assumes "bls_laws bls skAdd" and "comm_add skAdd" and "tlv_laws api" and "packet_laws api" and "keychain_laws kc"
    and "initiator_reach api bls ossl kc prefix r ud w" and "(d, i) \<in> set (successes w)"
    and "\<forall>ps \<in> set (iw_calls w). \<forall>b. ps_phase ps = Delivered b \<longrightarrow>
      ndnGenBLSSignature_data api bls (sk (ps_signerKeyName ps)) (unfinished api r ud prefix) = Inr b"
    and "\<forall>n \<in> set (g_signers (iw_global w)). trusted_key c n = Some (blsGetPublicKey bls (sk n))"
    and "container_passSchema api c (d_name ud) (g_signers (iw_global w))"
  shows "verify api bls c d i = Inr True"
proof -
  let ?td = "unfinished api r ud prefix" and ?kl = "info_name api r ud prefix"
  have ok: "session_ok api bls kc ?td ?kl w" by (rule reach_ok [OF assms(6)])
  have kl: "key_locator_name (d_sigInfo ?td) = Inr ?kl" by (rule unfinished_props)
  have "d_sigInfo ?td \<noteq> None"
  proof
    assume "d_sigInfo ?td = None"
    with kl show False by (simp add: key_locator_name_def)
  qed
  note S = success_signed_by [OF assms(1,2,4) ok assms(7,8) this]
  have "d\<lparr>d_sigValue := []\<rparr> = ?td" using ok assms(7) by (auto simp: session_ok_def)
  from arg_cong [OF this, of d_name] have nm: "d_name d = d_name ud" by (simp add: unfinished_props)
  show ?thesis
    using assms(9,10) nm
    by (intro verify_signed [OF assms(1,3,4) S success_info_for [OF assms(5) ok assms(7) kl]])
      (simp_all add: list_all2_conv_all_nth)
qed

section \<open>The handshake\<close>

lemma new_data_name: "d_name (new_data n) = n"
  by (simp add: new_data_def)

lemma find_behind: "find P xs = None \<Longrightarrow> find P (xs @ ys) = find P ys"
  by (induction xs) (simp_all split: if_splits)

lemma performRPC_started:
  assumes "ossl_laws ossl" and "keychain_laws kc"
    and "performRPC api ossl kc prefix rnd n g = ([ps], outs, None)"
  obtains i where "outs = [RegisterParameter (d_name (ps_paraData ps)), SendInterest i]"
    and "i_appParams i = block_with api TLV_ApplicationParameters
      [nested_block api tlv_ParameterDataName (name_wire api (d_name (ps_paraData ps))),
       Blk tlv_EcdhPub (ossl_pub ossl (m_privkey (ps_ecdh ps)))]"
    and "ps_paraData ps = prepareParameterData api (cr_param rnd) (g_toBeSigned g) prefix"
    and "ps_signerKeyName ps = n" and "ps_phase ps = AwaitAck"
proof -
  have pub: "getSelfPubKey ossl e = Inr (e\<lparr>m_pubKey := ossl_pub ossl (m_privkey e)\<rparr>, ossl_pub ossl (m_privkey e))" for e
    by (rule getSelfPubKey_ok [OF assms(1)])
  obtain e where e: "ECDHState_new ossl (cr_ecdh rnd) = Inr e"
    using assms(3) by (cases "ECDHState_new ossl (cr_ecdh rnd)") (simp_all add: performRPC_def)
  obtain si v where sig: "key_sign_interest kc (g_signingKeyName g) i = Inr (i\<lparr>i_sigInfo := Some si, i_sigValue := v\<rparr>)"
    if "i = prepareSignRequestInterest api (name_prefix_neg n 2)
      (d_name (prepareParameterData api (cr_param rnd) (g_toBeSigned g) prefix)) (ossl_pub ossl (m_privkey e))" for i
    using key_signed_interest [OF assms(2)] by metis
  show ?thesis
    using assms(3) sig [OF refl]
    by (intro that) (auto simp: performRPC_def e pub prepareSignRequestInterest_def Let_def)
qed

lemma parse_request:
  assumes "tlv_laws api"
    and "i_appParams i = block_with api t [nested_block api tlv_ParameterDataName (name_wire api n), Blk tlv_EcdhPub pub]"
  shows "parseSignRequestPayload api i = Inr (n, pub)"
proof -
  let ?es = "[nested_block api tlv_ParameterDataName (name_wire api n), Blk tlv_EcdhPub pub]"
  have "tlv_get api ?es tlv_ParameterDataName = Inr (nested_block api tlv_ParameterDataName (name_wire api n))"
    and "tlv_get api ?es tlv_EcdhPub = Inr (Blk tlv_EcdhPub pub)"
    by (simp_all add: tlv_get_found [OF assms(1)] nested_block_type [OF assms(1)] protocol_tlvs)
  then show ?thesis
    by (simp add: parseSignRequestPayload_def assms(2) block_parse_with [OF assms(1)] from_nested_block [OF assms(1)]
        name_of_wire [OF assms(1)])
qed

text \<open>The acknowledgement that the signer makes, as the initiator reads it.\<close>

lemma parse_ack:
  assumes "tlv_laws api" and "packet_laws api" and "ossl_laws ossl"
    and "m_privkey (ps_ecdh ps) = a" and "ossl_secret ossl a (ossl_pub ossl b) = secret"
    and "session_keys ossl secret salt = Inr (aes, hmac)" and "length aes = 16" and "length salt = 32"
    and "generateSignRequestAck api ossl rnd iname selfPrefix Processing requestId salt (ossl_pub ossl b) aes = Inr ack"
    and "d_content ack' = d_content ack"
  shows "parseAckReply api ossl ack' ps = Inr (ps\<lparr>ps_ecdh := (ps_ecdh ps)\<lparr>m_secret := secret\<rparr>, ps_aesKey := aes,
      ps_hmacKey := hmac, ps_nextResultName := result_name api selfPrefix requestId @ [comp_of_version api 0]\<rparr>,
    ESTIMATE_PROCESS_TIME)"
proof -
  let ?rn = "result_name api selfPrefix requestId @ [comp_of_version api 0]"
  let ?plain = "[nn_block api tlv_ResultAfter ESTIMATE_PROCESS_TIME, nested_block api tlv_ResultName (name_wire api ?rn)]"
  let ?extra = "[str_block api tlv_Status ''102'', Blk tlv_Salt salt, Blk tlv_EcdhPub (ossl_pub ossl b)]"
  obtain es where es: "encodeElements ossl rnd aes (tlv_encode api ?plain) [] = Inr es"
    using assms(9) by (auto simp: generateSignRequestAck_def res_bind_Inr_iff Let_def)
  have types: "find (\<lambda>e. blk_type e = t) es = None" if "t \<in> {tlv_Status, tlv_Salt, tlv_EcdhPub}" for t
    by (rule encodeElements_ok [OF assms(3,7), of rnd "tlv_encode api ?plain" "[]"])
      (use es that in \<open>auto simp: protocol_tlvs\<close>)
  have content: "d_content ack' = block_with api TLV_Content (es @ ?extra)"
    using assms(8-10) es by (auto simp: generateSignRequestAck_def content_of_eq [OF assms(2)] code_texts)
  have get: "tlv_get api (es @ ?extra) tlv_Status = Inr (str_block api tlv_Status ''102'')"
    "tlv_get api (es @ ?extra) tlv_Salt = Inr (Blk tlv_Salt salt)"
    "tlv_get api (es @ ?extra) tlv_EcdhPub = Inr (Blk tlv_EcdhPub (ossl_pub ossl b))"
    using types by (simp_all add: tlv_get_found [OF assms(1)] find_behind str_block_type [OF assms(1)] protocol_tlvs)
  have inner: "tlv_get api ?plain tlv_ResultAfter = Inr (nn_block api tlv_ResultAfter ESTIMATE_PROCESS_TIME)"
    "tlv_get api ?plain tlv_ResultName = Inr (nested_block api tlv_ResultName (name_wire api ?rn))"
    by (simp_all add: tlv_get_found [OF assms(1)] nn_block_type [OF assms(1)] nested_block_type [OF assms(1)] protocol_tlvs)
  have estimate: "ESTIMATE_PROCESS_TIME < 2 ^ 64" by (simp add: ESTIMATE_PROCESS_TIME_def)
  have dec: "decodeBlockWithAesGcm128 api ossl (d_content ack') aes [] = Inr (tlv_encode api ?plain)"
    unfolding content by (rule decode_elements [OF assms(1,3,7) es])
  have "deriveSecret ossl (ps_ecdh ps) (ossl_pub ossl b) = Inr ((ps_ecdh ps)\<lparr>m_secret := secret\<rparr>, secret)"
    using deriveSecret_ok [OF assms(3), of "ps_ecdh ps" b] assms(4,5) by simp
  then show ?thesis
    using dec assms(6,8)
    by (simp add: parseAckReply_def content block_parse_with [OF assms(1)] get read_str_block [OF assms(1)]
        tlv_parse_encode [OF assms(1)] inner read_nn_block [OF assms(1) estimate]
        from_nested_block [OF assms(1)] name_of_wire [OF assms(1)])
qed

lemma ack_made:
  assumes "ossl_laws ossl" and "length aes = 16"
  obtains ack where "generateSignRequestAck api ossl rnd iname selfPrefix Processing requestId salt pub aes = Inr ack"
    and "d_name ack = iname"
proof -
  obtain es where "encodeElements ossl rnd aes (tlv_encode api [nn_block api tlv_ResultAfter ESTIMATE_PROCESS_TIME,
      nested_block api tlv_ResultName (name_wire api (result_name api selfPrefix requestId @ [comp_of_version api 0]))]) [] = Inr es"
    using encodeElements_ok [OF assms] by metis
  then show ?thesis by (intro that, simp add: generateSignRequestAck_def) (simp add: new_data_name)
qed

text \<open>
  A sign request that carries a public key generated by the library starts a request whose keys
  are those the initiator derives from the acknowledgement.
\<close>

lemma handshake_made:
  fixes rqs :: "('c, 'priv) request list"
  assumes "bls_laws bls skAdd" and "tlv_laws api" and "packet_laws api" and "ossl_laws ossl"
    and "i_appParams i = block_with api t [nested_block api tlv_ParameterDataName (name_wire api n), Blk tlv_EcdhPub (ossl_pub ossl a)]"
    and "m_verifySignRequestCallback signer i" and "interest_digest_valid api i"
  obtains st secret ack where
    "onSignRequest api bls ossl signer rr i rqs =
      (rqs @ [\<lparr>rq_resultPrefix = result_name api (m_prefix signer) (rr_requestId rr), rq_state = st, rq_fetching = True\<rparr>],
       [RegisterFilter (result_name api (m_prefix signer) (rr_requestId rr)), PutData ack,
        FetchParameter ((new_interest n)\<lparr>i_canBePrefix := True, i_mustBeFresh := True, i_lifetime := TIMEOUT\<rparr>)], None)"
    and "length (m_aesKey st) = 16"
    and "m_code st = Processing" "m_version st = 0" "m_signatureValue st = []" "m_resultPrefixHandle st"
    and "d_name ack = i_name i" "ndnBLSVerify_data api bls (blsGetPublicKey bls (m_sk signer)) ack = Inr True"
    and "\<And>ps :: ('c, 'priv) per_signer. m_privkey (ps_ecdh ps) = a \<Longrightarrow>
      parseAckReply api ossl ack ps = Inr (ps\<lparr>ps_ecdh := (ps_ecdh ps)\<lparr>m_secret := secret\<rparr>,
        ps_aesKey := m_aesKey st, ps_hmacKey := m_hmacKey st,
        ps_nextResultName := result_name api (m_prefix signer) (rr_requestId rr) @ [comp_of_version api 0]\<rparr>,
        ESTIMATE_PROCESS_TIME)"
proof -
  let ?salt = "map (rr_salt rr) [0..<32]"
    and ?rp = "result_name api (m_prefix signer) (rr_requestId rr)"
  obtain rc b where kg: "evp_keygen ossl (rr_ecdh rr) = (rc, b)" by force
  let ?secret = "ossl_secret ossl b (ossl_pub ossl a)"
  let ?e = "\<lparr>m_privkey = b, m_pubKey = [], m_secret = ?secret\<rparr>"
  obtain aes hmac where keys: "session_keys ossl ?secret ?salt = Inr (aes, hmac)" "length aes = 16"
    by (rule session_keys_ok [OF assms(4)])
  let ?st = "\<lparr>m_ecdh = ?e, m_aesKey = aes, m_code = Processing, m_signatureValue = [], m_version = 0,
    m_resultPrefixHandle = True, m_hmacKey = hmac\<rparr>"
  have new: "new_request ossl rr (ossl_pub ossl a) = Inr (?st, ?salt)"
    using ossl_keygen [OF assms(4), of "rr_ecdh rr"] kg keys
      deriveSecret_ok [OF assms(4), of "\<lparr>m_privkey = b, m_pubKey = [], m_secret = []\<rparr>" a]
    by (simp add: new_request_def ECDHState_new_def)
  obtain ack where ack: "generateSignRequestAck api ossl (rr_iv rr) (i_name i) (m_prefix signer) Processing
      (rr_requestId rr) ?salt (ossl_pub ossl b) aes = Inr ack" "d_name ack = i_name i"
    by (rule ack_made [OF assms(4) keys(2)])
  obtain v where v: "ndnBLSSign_data api bls (m_sk signer) ack (m_keyName signer) =
      Inr (ack\<lparr>d_sigInfo := Some (bls_sig_info (m_keyName signer)), d_sigValue := v\<rparr>)"
    and ver: "ndnBLSVerify_data api bls (blsGetPublicKey bls (m_sk signer))
      (ack\<lparr>d_sigInfo := Some (bls_sig_info (m_keyName signer)), d_sigValue := v\<rparr>) = Inr True"
    using sign_data_ok [OF assms(1,3)] by blast
  let ?ack = "ack\<lparr>d_sigInfo := Some (bls_sig_info (m_keyName signer)), d_sigValue := v\<rparr>"
  have "onSignRequest api bls ossl signer rr i rqs =
      (rqs @ [\<lparr>rq_resultPrefix = ?rp, rq_state = ?st\<lparr>m_ecdh := ?e\<lparr>m_pubKey := ossl_pub ossl b\<rparr>\<rparr>, rq_fetching = True\<rparr>],
       [RegisterFilter ?rp, PutData ?ack,
        FetchParameter ((new_interest n)\<lparr>i_canBePrefix := True, i_mustBeFresh := True, i_lifetime := TIMEOUT\<rparr>)], None)"
    using assms(6,7) new ack(1) v
    by (simp add: onSignRequest_def parse_request [OF assms(2,5)] getSelfPubKey_ok [OF assms(4)] Let_def)
  moreover have "parseAckReply api ossl ?ack ps = Inr (ps\<lparr>ps_ecdh := (ps_ecdh ps)\<lparr>m_secret := ?secret\<rparr>,
      ps_aesKey := aes, ps_hmacKey := hmac, ps_nextResultName := ?rp @ [comp_of_version api 0]\<rparr>, ESTIMATE_PROCESS_TIME)"
    if "m_privkey (ps_ecdh ps) = a" for ps :: "('c, 'priv) per_signer"
    by (rule parse_ack [OF assms(2-4) that ossl_secret_sym [OF assms(4)] keys _ ack(1)]) simp_all
  ultimately show ?thesis
    using ver ack(2) keys(2) by (intro that [of "?st\<lparr>m_ecdh := ?e\<lparr>m_pubKey := ossl_pub ossl b\<rparr>\<rparr>" ?ack ?secret]) simp_all
qed

lemma handshake_step:
  assumes "bls_laws bls skAdd" and "tlv_laws api" and "packet_laws api" and "ossl_laws ossl"
    and "i_appParams i = block_with api t [nested_block api tlv_ParameterDataName (name_wire api n),
      Blk tlv_EcdhPub (ossl_pub ossl (m_privkey (ps_ecdh ps)))]"
    and "m_verifySignRequestCallback signer i" and "interest_digest_valid api i"
  obtains st ecdh aes hmac ack where
    "onSignRequest api bls ossl signer rr i rqs =
      (rqs @ [\<lparr>rq_resultPrefix = result_name api (m_prefix signer) (rr_requestId rr), rq_state = st, rq_fetching = True\<rparr>],
       [RegisterFilter (result_name api (m_prefix signer) (rr_requestId rr)), PutData ack,
        FetchParameter ((new_interest n)\<lparr>i_canBePrefix := True, i_mustBeFresh := True, i_lifetime := TIMEOUT\<rparr>)], None)"
    and "m_aesKey st = aes" "m_hmacKey st = hmac" "length aes = 16"
    and "m_code st = Processing" "m_version st = 0" "m_signatureValue st = []" "m_resultPrefixHandle st"
    and "d_name ack = i_name i" "ndnBLSVerify_data api bls (blsGetPublicKey bls (m_sk signer)) ack = Inr True"
    and "parseAckReply api ossl ack ps = Inr (ps\<lparr>ps_ecdh := ecdh, ps_aesKey := aes,
      ps_hmacKey := hmac, ps_nextResultName := result_name api (m_prefix signer) (rr_requestId rr) @ [comp_of_version api 0]\<rparr>,
      ESTIMATE_PROCESS_TIME)"
proof -
  obtain st secret ack where h:
    "onSignRequest api bls ossl signer rr i rqs =
      (rqs @ [\<lparr>rq_resultPrefix = result_name api (m_prefix signer) (rr_requestId rr), rq_state = st, rq_fetching = True\<rparr>],
       [RegisterFilter (result_name api (m_prefix signer) (rr_requestId rr)), PutData ack,
        FetchParameter ((new_interest n)\<lparr>i_canBePrefix := True, i_mustBeFresh := True, i_lifetime := TIMEOUT\<rparr>)], None)"
    "length (m_aesKey st) = 16" "m_code st = Processing" "m_version st = 0" "m_signatureValue st = []" "m_resultPrefixHandle st"
    "d_name ack = i_name i" "ndnBLSVerify_data api bls (blsGetPublicKey bls (m_sk signer)) ack = Inr True"
    "parseAckReply api ossl ack ps = Inr (ps\<lparr>ps_ecdh := (ps_ecdh ps)\<lparr>m_secret := secret\<rparr>,
        ps_aesKey := m_aesKey st, ps_hmacKey := m_hmacKey st,
        ps_nextResultName := result_name api (m_prefix signer) (rr_requestId rr) @ [comp_of_version api 0]\<rparr>,
        ESTIMATE_PROCESS_TIME)"
    by (rule handshake_made [OF assms, of rr rqs]) blast
  show ?thesis by (rule that [OF h(1) refl refl h(2-9)])
qed

section \<open>The parameters and the result\<close>

lemma hmac_signed_block:
  assumes "keychain_laws kc"
  obtains d' where "hmac_sign kc key d = Inr d'" and "hmac_verify kc key d'" and "d_content d' = d_content d"
    and "d_name d' = d_name d"
  using hmac_signed [OF assms, of key d] by auto

lemma encrypt_content:
  assumes "tlv_laws api" and "packet_laws api" and "ossl_laws ossl" and "length key = 16"
  obtains b where "encodeBlockWithAesGcm128 api ossl rnd TLV_Content key payload [] = Inr b"
    and "decodeBlockWithAesGcm128 api ossl b key [] = Inr payload" and "content_of api b = b"
    and "\<exists>es. block_parse api b = Inr es"
proof -
  obtain es where es: "encodeElements ossl rnd key payload [] = Inr es"
    using encodeElements_ok [OF assms(3,4)] by metis
  show ?thesis
    using decode_elements [OF assms(1,3,4) es, of TLV_Content "[]"]
    by (intro that [of "block_with api TLV_Content es"])
      (simp_all add: encodeBlockWithAesGcm128_def es content_of_eq [OF assms(2)] block_parse_with [OF assms(1)])
qed

text \<open>The parameter data that the acknowledgement releases is what the signer can read.\<close>

lemma parameter_step:
  assumes "tlv_laws api" and "packet_laws api" and "ossl_laws ossl" and "keychain_laws kc"
    and "parseAckReply api ossl ack ((iw_calls w ! k)\<lparr>ps_phase := Ended\<rparr>) = Inr (ps, ms)"
    and "length (ps_aesKey ps) = 16" and "d_sigInfo u \<noteq> None"
    and "d_content (ps_paraData (iw_calls w ! k)) = content_of api (data_wire api u)"
  obtains pd where "onAckData api ossl kc iv k ack w = emit [ScheduleFetch ms]
      (set_call k (ps\<lparr>ps_paraData := pd, ps_paraDataReady := True, ps_phase := ResultScheduled\<rparr>) w)"
    and "hmac_verify kc (ps_hmacKey ps) pd" and "d_name pd = d_name (ps_paraData (iw_calls w ! k))"
    and "\<And>st. m_aesKey st = ps_aesKey ps \<Longrightarrow> parseParameterData api ossl pd st = Inr u"
proof -
  have ps: "ps_paraData ps = ps_paraData (iw_calls w ! k)" using parseAckReply_key [OF assms(5)] by simp
  have content: "d_content (ps_paraData ps) = block_with api TLV_Content [data_wire api u]"
    by (simp add: ps assms(8) content_of_eq [OF assms(2)] data_wire_type [OF assms(2)])
  obtain b es where b: "encodeBlockWithAesGcm128 api ossl iv TLV_Content (ps_aesKey ps)
      (blk_value (d_content (ps_paraData ps))) [] = Inr b"
    "decodeBlockWithAesGcm128 api ossl b (ps_aesKey ps) [] = Inr (blk_value (d_content (ps_paraData ps)))"
    "content_of api b = b" "block_parse api b = Inr es"
    using encrypt_content [OF assms(1-3,6)] by metis
  obtain pd where pd: "hmac_sign kc (ps_hmacKey ps) ((ps_paraData ps)\<lparr>d_content := content_of api b\<rparr>) = Inr pd"
    "hmac_verify kc (ps_hmacKey ps) pd" "d_content pd = b" "d_name pd = d_name (ps_paraData ps)"
    by (rule hmac_signed_block [OF assms(4), of "ps_hmacKey ps" "(ps_paraData ps)\<lparr>d_content := content_of api b\<rparr>"])
      (simp add: b(3))
  have "parseParameterData api ossl pd st = Inr u" if "m_aesKey st = ps_aesKey ps" for st
    using b(2,4) that assms(7)
    by (simp add: parseParameterData_def pd(3) content block_with_def data_of_bytes [OF assms(2)] data_of_wire [OF assms(2)])
  with pd(2,4) ps show ?thesis
    using b(1) pd(1) by (intro that [of pd]) (simp_all add: onAckData_def assms(5))
qed

text \<open>The content of a result, and what the initiator reads in it.\<close>

definition result_elements :: "('c, 'z) packet_api_scheme \<Rightarrow> 'c name \<Rightarrow> 'priv sign_request \<Rightarrow> block list" where
  "result_elements api resultPrefix st =
     str_block api tlv_Status (code_text (m_code st)) #
     (if m_code st = Processing
      then [nn_block api tlv_ResultAfter ESTIMATE_PROCESS_TIME,
            nested_block api tlv_ResultName
              (name_wire api (resultPrefix @ [comp_of_version api ((m_version st + 1) mod 2 ^ 64)]))]
      else if m_code st = OK then [Blk tlv_BLSSigValue (m_signatureValue st)] else [])"

lemma result_made:
  assumes "tlv_laws api" and "packet_laws api" and "ossl_laws ossl" and "keychain_laws kc"
    and "length (m_aesKey (rq_state rq)) = 16" and "length (i_name i) = length (m_prefix signer) + 5"
  obtains d rq' where "onResultInterest api ossl kc signer rnd i rq = (rq', [PutData d], None)"
    and "d_name d = i_name i" and "hmac_verify kc (m_hmacKey (rq_state rq)) d"
    and "\<And>ps. ps_aesKey ps = m_aesKey (rq_state rq) \<Longrightarrow>
      parseResultData api ossl d ps = Inr (result_elements api (rq_resultPrefix rq) (rq_state rq))"
proof -
  let ?st = "rq_state rq" and ?es = "result_elements api (rq_resultPrefix rq) (rq_state rq)"
  obtain b es where b: "encodeBlockWithAesGcm128 api ossl rnd TLV_Content (m_aesKey ?st) (tlv_encode api ?es) [] = Inr b"
    "decodeBlockWithAesGcm128 api ossl b (m_aesKey ?st) [] = Inr (tlv_encode api ?es)"
    "content_of api b = b" "block_parse api b = Inr es"
    using encrypt_content [OF assms(1-3,5)] by metis
  let ?d0 = "(new_data (i_name i))\<lparr>d_content := b, d_freshness := TIMEOUT\<rparr>"
  obtain st' where st': "generateResultData api ossl rnd (i_name i) (rq_resultPrefix rq) ?st = (st', Inr ?d0)"
      "m_hmacKey st' = m_hmacKey ?st"
    using b(1,3) by (cases "m_code ?st") (simp_all add: generateResultData_def result_elements_def Let_def)
  obtain d where d: "hmac_sign kc (m_hmacKey ?st) ?d0 = Inr d" "hmac_verify kc (m_hmacKey ?st) d"
    "d_content d = b" "d_name d = i_name i"
    by (rule hmac_signed_block [OF assms(4), of "m_hmacKey ?st" ?d0]) (simp add: new_data_name)
  have "parseResultData api ossl d ps = Inr ?es" if "ps_aesKey ps = m_aesKey ?st" for ps
    using b(2,4) that by (simp add: parseResultData_def d(3) tlv_parse_encode [OF assms(1)])
  with d show ?thesis
    using assms(6) st' by (intro that [of "rq\<lparr>rq_state := st'\<rparr>" d]) (simp_all add: onResultInterest_def)
qed

lemma result_lookups:
  assumes "tlv_laws api"
  shows "tlv_get api (result_elements api p st) tlv_Status = Inr (str_block api tlv_Status (code_text (m_code st)))"
    and "m_code st = OK \<Longrightarrow>
      tlv_get api (result_elements api p st) tlv_BLSSigValue = Inr (Blk tlv_BLSSigValue (m_signatureValue st))"
    and "m_code st = Processing \<Longrightarrow> tlv_get api (result_elements api p st) tlv_ResultAfter =
      Inr (nn_block api tlv_ResultAfter ESTIMATE_PROCESS_TIME)"
    and "m_code st = Processing \<Longrightarrow> tlv_get api (result_elements api p st) tlv_ResultName =
      Inr (nested_block api tlv_ResultName (name_wire api (p @ [comp_of_version api ((m_version st + 1) mod 2 ^ 64)])))"
  by (simp_all add: tlv_get_found [OF assms] result_elements_def str_block_type [OF assms] nn_block_type [OF assms]
      nested_block_type [OF assms] protocol_tlvs)

lemma code_text_eq: "code_text c = ''200'' \<longleftrightarrow> c = OK" "code_text c = ''102'' \<longleftrightarrow> c = Processing"
  by (cases c; simp add: code_texts)+

text \<open>What the initiator does with each of the signer's results.\<close>

lemma result_step:
  assumes "tlv_laws api" and "hmac_verify kc (ps_hmacKey (iw_calls w ! k)) d"
    and "parseResultData api ossl d ((iw_calls w ! k)\<lparr>ps_phase := Ended\<rparr>) = Inr (result_elements api p st)"
  shows "onResultData api bls ossl kc prefix rnd k d w =
    (if m_code st = OK
     then addSignature api bls kc (m_signatureValue st)
       (set_call k ((iw_calls w ! k)\<lparr>ps_phase := Delivered (m_signatureValue st)\<rparr>) w)
     else if m_code st = Processing
     then emit [ScheduleFetch ESTIMATE_PROCESS_TIME] (set_call k ((iw_calls w ! k)\<lparr>ps_phase := ResultScheduled\<rparr>) w)
     else onUnavailableSigner api ossl kc prefix rnd
       (''Received Error code when requesting signer '' @
         name_uri api (name_prefix_neg (ps_signerKeyName (iw_calls w ! k)) 2))
       (ps_signerKeyName (iw_calls w ! k)) (set_call k ((iw_calls w ! k)\<lparr>ps_phase := Ended\<rparr>) w))"
  using assms(2,3)
  by (simp add: onResultData_def result_lookups [OF assms(1)] read_str_block [OF assms(1)] code_text_eq
      read_nn_block [OF assms(1)] ESTIMATE_PROCESS_TIME_def from_nested_block [OF assms(1)] name_of_wire [OF assms(1)])

end
