(* ===== verification/Honest_Run.thy ===== *)
theory Honest_Run
  imports Protocol
begin

text \<open>
  A run that succeeds. When every signer answers, approves and signs, one call after the other
  goes from its acknowledgement to the delivery of its piece (\<open>call_to_result\<close>,
  \<open>call_result\<close>), so that from the start of every run whose calls all started there is an
  execution that ends with the success callback (\<open>honest_run\<close>).
\<close>

section \<open>Starting the calls\<close>

text \<open>The Interest with which a call asks its signer.\<close>

definition call_request ::
  "('c, 'z) packet_api_scheme \<Rightarrow> ('c, 'x) keychain_api_scheme \<Rightarrow> 'c name \<Rightarrow> ('c, 'priv) per_signer \<Rightarrow> 'c interest res" where
  "call_request api kc signingKeyName ps = key_sign_interest kc signingKeyName
     (prepareSignRequestInterest api (name_prefix_neg (ps_signerKeyName ps) 2) (d_name (ps_paraData ps))
        (m_pubKey (ps_ecdh ps)))"

definition fresh_call ::
  "('c, 'z) packet_api_scheme \<Rightarrow> ('priv, 'o) ossl_api_scheme \<Rightarrow> 'c name \<Rightarrow> 'c data \<Rightarrow> ('c, 'priv) per_signer \<Rightarrow> bool" where
  "fresh_call api ossl prefix td ps \<longleftrightarrow> ps_phase ps = AwaitAck \<and> ps_paraPrefixHandle ps \<and> \<not> ps_paraDataReady ps \<and>
     m_pubKey (ps_ecdh ps) = ossl_pub ossl (m_privkey (ps_ecdh ps)) \<and>
     (\<exists>x. ps_paraData ps = prepareParameterData api x td prefix)"

lemma performRPC_starts:
  assumes "ossl_laws ossl" and "keychain_laws kc"
  shows "\<exists>ps sent. performRPC api ossl kc prefix rnd n g =
      ([ps], [RegisterParameter (d_name (ps_paraData ps)), SendInterest sent], None) \<and>
    ps_signerKeyName ps = n \<and> fresh_call api ossl prefix (g_toBeSigned g) ps \<and>
    d_name (ps_paraData ps) = d_name (prepareParameterData api (cr_param rnd) (g_toBeSigned g) prefix) \<and>
    call_request api kc (g_signingKeyName g) ps = Inr sent"
proof -
  obtain rc key where kg: "evp_keygen ossl (cr_ecdh rnd) = (rc, key)" by force
  have e: "ECDHState_new ossl (cr_ecdh rnd) = Inr \<lparr>m_privkey = key, m_pubKey = [], m_secret = []\<rparr>"
    using ossl_keygen [OF assms(1), of "cr_ecdh rnd"] kg by (simp add: ECDHState_new_def)
  have "\<exists>i'. key_sign_interest kc (g_signingKeyName g) i = Inr i'" for i
    using key_signed_interest [OF assms(2)] by blast
  then obtain i' where "key_sign_interest kc (g_signingKeyName g)
      (prepareSignRequestInterest api (name_prefix_neg n 2) (d_name (prepareParameterData api (cr_param rnd) (g_toBeSigned g) prefix))
        (ossl_pub ossl key)) = Inr i'" by blast
  then show ?thesis
    by (simp add: performRPC_def e getSelfPubKey_ok [OF assms(1)] Let_def fresh_call_def call_request_def) blast
qed

lemma performRPCs_start:
  assumes "ossl_laws ossl" and "keychain_laws kc"
  shows "\<exists>new outs. performRPCs api ossl kc prefix rnd items w =
      w\<lparr>iw_calls := iw_calls w @ new, iw_sent := iw_sent w @ outs\<rparr> \<and>
    map ps_signerKeyName new = items \<and> WaitForever \<notin> set outs \<and>
    (\<forall>ps \<in> set new. fresh_call api ossl prefix (g_toBeSigned (iw_global w)) ps \<and>
      (\<exists>sent. SendInterest sent \<in> set outs \<and> call_request api kc (g_signingKeyName (iw_global w)) ps = Inr sent))"
proof (induction items arbitrary: rnd w)
  case Nil
  show ?case by (intro exI [of _ "[]"]) simp
next
  case (Cons n rest)
  obtain ps sent where p: "performRPC api ossl kc prefix (rnd 0) n (iw_global w) =
      ([ps], [RegisterParameter (d_name (ps_paraData ps)), SendInterest sent], None)"
    "ps_signerKeyName ps = n" "fresh_call api ossl prefix (g_toBeSigned (iw_global w)) ps"
    "call_request api kc (g_signingKeyName (iw_global w)) ps = Inr sent"
    using performRPC_starts [OF assms] by metis
  let ?w = "w\<lparr>iw_calls := iw_calls w @ [ps], iw_sent := iw_sent w @ [RegisterParameter (d_name (ps_paraData ps)), SendInterest sent]\<rparr>"
  obtain new outs where r: "performRPCs api ossl kc prefix (rnd \<circ> Suc) rest ?w =
      ?w\<lparr>iw_calls := iw_calls ?w @ new, iw_sent := iw_sent ?w @ outs\<rparr>"
    "map ps_signerKeyName new = rest" "WaitForever \<notin> set outs"
    "\<forall>qs \<in> set new. fresh_call api ossl prefix (g_toBeSigned (iw_global w)) qs \<and>
      (\<exists>sent. SendInterest sent \<in> set outs \<and> call_request api kc (g_signingKeyName (iw_global w)) qs = Inr sent)"
    using Cons.IH [of "rnd \<circ> Suc" ?w] by (elim exE conjE) (rule that, simp_all add: o_def)
  have "performRPCs api ossl kc prefix rnd (n # rest) w = performRPCs api ossl kc prefix (rnd \<circ> Suc) rest ?w"
    using p(1) by (simp add: fault_list_def Let_def)
  then show ?case
    using r p(2-4)
    by (intro exI [of _ "ps # new"] exI [of _ "[RegisterParameter (d_name (ps_paraData ps)), SendInterest sent] @ outs"]) auto
qed

section \<open>One call\<close>

lemma ack_accepted:
  assumes "tlv_laws api" and "packet_laws api" and "ossl_laws ossl" and "keychain_laws kc"
    and "k < length (iw_calls w)"
  obtains ack ps' where "onAckData api ossl kc iv k ack w = emit [ScheduleFetch ESTIMATE_PROCESS_TIME] (set_call k ps' w)"
    and "ps_phase ps' = ResultScheduled" "ps_signerKeyName ps' = ps_signerKeyName (iw_calls w ! k)"
    and "length (ps_aesKey ps') = 16"
proof -
  let ?ps = "(iw_calls w ! k)\<lparr>ps_phase := Ended\<rparr>" and ?salt = "replicate 32 0 :: bytes"
  obtain rc b where kg: "evp_keygen ossl 0 = (rc, b)" by force
  define secret where "secret = ossl_secret ossl (m_privkey (ps_ecdh ?ps)) (ossl_pub ossl b)"
  obtain aes hmac where keys: "session_keys ossl secret ?salt = Inr (aes, hmac)" "length aes = 16"
    by (rule session_keys_ok [OF assms(3)])
  obtain ack where ack: "generateSignRequestAck api ossl (\<lambda>_. 0) [] [] Processing 0 ?salt (ossl_pub ossl b) aes = Inr ack"
    by (rule ack_made [OF assms(3) keys(2)])
  define ps1 where "ps1 = ?ps\<lparr>ps_ecdh := (ps_ecdh ?ps)\<lparr>m_secret := secret\<rparr>, ps_aesKey := aes, ps_hmacKey := hmac,
    ps_nextResultName := result_name api [] 0 @ [comp_of_version api 0]\<rparr>"
  have parse: "parseAckReply api ossl ack ?ps = Inr (ps1, ESTIMATE_PROCESS_TIME)"
    unfolding ps1_def by (rule parse_ack [OF assms(1-3) refl secret_def [symmetric] keys _ ack refl]) simp
  have ps1: "ps_aesKey ps1 = aes" "ps_signerKeyName ps1 = ps_signerKeyName (iw_calls w ! k)"
    by (simp_all add: ps1_def)
  obtain eb where b: "encodeBlockWithAesGcm128 api ossl iv TLV_Content (ps_aesKey ps1) (blk_value (d_content (ps_paraData ps1))) [] = Inr eb"
    using encrypt_content [OF assms(1-3), of "ps_aesKey ps1"] ps1(1) keys(2) by metis
  obtain pd where pd: "hmac_sign kc (ps_hmacKey ps1) ((ps_paraData ps1)\<lparr>d_content := content_of api eb\<rparr>) = Inr pd"
    using hmac_signed_block [OF assms(4)] by metis
  show ?thesis
    by (rule that [of ack "ps1\<lparr>ps_paraData := pd, ps_paraDataReady := True, ps_phase := ResultScheduled\<rparr>"])
      (use ps1 keys(2) b pd in \<open>simp_all add: onAckData_def parse\<close>)
qed

lemma not_blocked_emit: "\<not> blocked w \<Longrightarrow> WaitForever \<notin> set outs \<Longrightarrow> \<not> blocked (emit outs (set_call k ps w))"
  by (simp add: blocked_def emit_def set_call_def)

lemma set_call_frame:
  "iw_calls (emit outs (set_call k ps w)) = (iw_calls w)[k := ps]"
  "iw_global (emit outs (set_call k ps w)) = iw_global w"
  "iw_container (emit outs (set_call k ps w)) = iw_container w"
  "iw_calls (set_call k ps w) = (iw_calls w)[k := ps]"
  "iw_global (set_call k ps w) = iw_global w"
  by (simp_all add: emit_def set_call_def)

text \<open>From the start of a call to its Interest for the result.\<close>

lemma call_to_result:
  assumes "tlv_laws api" and "packet_laws api" and "ossl_laws ossl" and "keychain_laws kc"
    and "k < length (iw_calls w)" and "ps_phase (iw_calls w ! k) = AwaitAck" and "\<not> blocked w"
  obtains es w' ps' where "exec initiator_enabled (initiator_handle api bls ossl kc prefix) w es w'"
    and "iw_calls w' = (iw_calls w)[k := ps']" "iw_global w' = iw_global w" "iw_container w' = iw_container w"
    and "ps_phase ps' = AwaitResult" "ps_signerKeyName ps' = ps_signerKeyName (iw_calls w ! k)"
    and "length (ps_aesKey ps') = 16" "\<not> blocked w'"
proof -
  obtain ack ps1 where a: "onAckData api ossl kc (\<lambda>_. 0) k ack w = emit [ScheduleFetch ESTIMATE_PROCESS_TIME] (set_call k ps1 w)"
    "ps_phase ps1 = ResultScheduled" "ps_signerKeyName ps1 = ps_signerKeyName (iw_calls w ! k)" "length (ps_aesKey ps1) = 16"
    by (rule ack_accepted [OF assms(1-5)])
  let ?w1 = "emit [ScheduleFetch ESTIMATE_PROCESS_TIME] (set_call k ps1 w)"
  have w1: "iw_calls ?w1 ! k = ps1" "k < length (iw_calls ?w1)" using assms(5) by (simp_all add: set_call_frame)
  have nb1: "\<not> blocked ?w1" by (rule not_blocked_emit [OF assms(7)]) simp
  let ?ps2 = "ps1\<lparr>ps_paraPrefixHandle := False, ps_phase := AwaitResult\<rparr>"
  obtain j where "key_sign_interest kc (g_signingKeyName (iw_global ?w1))
      ((new_interest (ps_nextResultName ps1))\<lparr>i_canBePrefix := True, i_mustBeFresh := True\<rparr>) = Inr j"
    using key_signed_interest [OF assms(4)] by metis
  then have t: "onResultTimer kc k ?w1 = emit [SendInterest j] (set_call k ?ps2 ?w1)"
    using w1(1) by (simp add: onResultTimer_def Let_def)
  let ?w2 = "emit [SendInterest j] (set_call k ?ps2 ?w1)"
  have E: "exec initiator_enabled (initiator_handle api bls ossl kc prefix) w
      [AckReply k (FetchedData ack) (\<lambda>_. 0) (\<lambda>_. undefined), ResultTimer k] ?w2"
    using assms(5-7) a(1,2) w1 nb1 t by simp
  have nb2: "\<not> blocked ?w2" by (rule not_blocked_emit [OF nb1]) simp
  show ?thesis
    by (rule that [OF E _ _ _ _ _ _ nb2, of ?ps2]) (simp_all add: set_call_frame a(3,4))
qed

text \<open>Every piece can be delivered by a result under the keys of the call.\<close>

lemma call_result:
  fixes w :: "('a::linorder, 'pk, 'd) initiator_world"
  assumes "tlv_laws api" and "packet_laws api" and "ossl_laws ossl" and "keychain_laws kc"
    and "length (ps_aesKey (iw_calls w ! k)) = 16"
  obtains d where "\<And>rnd. onResultData api bls ossl kc prefix rnd k d w =
    addSignature api bls kc piece (set_call k ((iw_calls w ! k)\<lparr>ps_phase := Delivered piece\<rparr>) w)"
proof -
  let ?ps = "iw_calls w ! k"
  define st where "st = \<lparr>m_ecdh = ps_ecdh ?ps, m_aesKey = ps_aesKey ?ps, m_code = OK, m_signatureValue = piece,
    m_version = 0, m_resultPrefixHandle = True, m_hmacKey = ps_hmacKey ?ps\<rparr>"
  define rq :: "('a, 'd) request" where "rq = \<lparr>rq_resultPrefix = [], rq_state = st, rq_fetching = False\<rparr>"
  define signer :: "('a, unit, unit) bls_signer" where "signer = \<lparr>m_verifyToBeSignedCallback = (\<lambda>_. True),
    m_verifySignRequestCallback = (\<lambda>_. True), m_sk = (), m_pk = (), m_keyName = [], m_prefix = []\<rparr>"
  have "length (i_name (new_interest (replicate 5 (comp_of_string api [])))) = length (m_prefix signer) + 5"
    by (simp add: new_interest_def signer_def)
  moreover have "length (m_aesKey (rq_state rq)) = 16" using assms(5) by (simp add: rq_def st_def)
  ultimately obtain d rq' where d: "hmac_verify kc (m_hmacKey (rq_state rq)) d"
    "\<And>ps. ps_aesKey ps = m_aesKey (rq_state rq) \<Longrightarrow>
      parseResultData api ossl d ps = Inr (result_elements api (rq_resultPrefix rq) (rq_state rq))"
    using result_made [OF assms(1-4)] by metis
  have "hmac_verify kc (ps_hmacKey ?ps) d"
    "parseResultData api ossl d (?ps\<lparr>ps_phase := Ended\<rparr>) = Inr (result_elements api (rq_resultPrefix rq) st)"
    using d by (simp_all add: rq_def st_def)
  from result_step [OF assms(1) this] show ?thesis by (intro that) (simp add: st_def)
qed

section \<open>The whole run\<close>

lemma addSignature_result:
  assumes "keychain_laws kc"
  shows "iw_calls (addSignature api bls kc b w) = iw_calls w \<and>
    g_signers (iw_global (addSignature api bls kc b w)) = g_signers (iw_global w) \<and>
    (if Suc (length (g_fetchedSignatures (iw_global w))) = length (g_signers (iw_global w))
     then \<exists>d i. iw_sent (addSignature api bls kc b w) = iw_sent w @ [SuccessCb d i]
     else addSignature api bls kc b w =
       w\<lparr>iw_global := (iw_global w)\<lparr>g_fetchedSignatures := g_fetchedSignatures (iw_global w) @ [b]\<rparr>\<rparr>)"
proof -
  let ?pieces = "g_fetchedSignatures (iw_global w) @ [b]"
  obtain agg where agg: "ndnBLSAggregateSignature_bufs bls ?pieces = Inr agg"
    by (cases ?pieces) (simp_all add: ndnBLSAggregateSignature_bufs_def split_beta Let_def)
  obtain i' where sig: "key_sign_data kc (g_signingKeyName (iw_global w)) ((g_signInfo (iw_global w))\<lparr>d_content :=
      content_of api (signers_wireEncode api (g_signers (iw_global w)))\<rparr>) = Inr i'"
    using key_signed_data [OF assms] by metis
  show ?thesis by (simp add: addSignature_def Let_def agg sig emit_def)
qed

lemma addSignature_frame:
  "iw_container (addSignature api bls kc b w) = iw_container w"
  "g_schema (iw_global (addSignature api bls kc b w)) = g_schema (iw_global w)"
  by (simp_all add: addSignature_def Let_def emit_def raise_def split: sum.split)

text \<open>The first \<open>m\<close> calls have delivered the pieces \<open>F\<close> of their keys, the others are waiting.\<close>

definition progress :: "('c name \<Rightarrow> bytes) \<Rightarrow> 'c name list \<Rightarrow> nat \<Rightarrow> ('c, 'pk, 'priv) initiator_world \<Rightarrow> bool" where
  "progress F signers m w \<longleftrightarrow> \<not> blocked w \<and> g_signers (iw_global w) = signers \<and>
     map ps_signerKeyName (iw_calls w) = signers \<and>
     length (g_fetchedSignatures (iw_global w)) = m \<and>
     (\<forall>k < length (iw_calls w). ps_phase (iw_calls w ! k) =
        (if k < m then Delivered (F (ps_signerKeyName (iw_calls w ! k))) else AwaitAck))"

definition succeeded :: "('c name \<Rightarrow> bytes) \<Rightarrow> 'c name list \<Rightarrow> ('c, 'pk, 'priv) initiator_world \<Rightarrow> bool" where
  "succeeded F signers w \<longleftrightarrow> successes w \<noteq> [] \<and> g_signers (iw_global w) = signers \<and>
     (\<forall>ps \<in> set (iw_calls w). ps_phase ps = Delivered (F (ps_signerKeyName ps)))"

lemma progress_step:
  assumes "tlv_laws api" and "packet_laws api" and "ossl_laws ossl" and "keychain_laws kc"
    and "progress F signers m w" and "m < length (iw_calls w)"
  obtains es w' where "exec initiator_enabled (initiator_handle api bls ossl kc prefix) w es w'"
    and "if Suc m < length (iw_calls w) then progress F signers (Suc m) w' else succeeded F signers w'"
    and "length (iw_calls w') = length (iw_calls w)"
    and "iw_container w' = iw_container w" "g_schema (iw_global w') = g_schema (iw_global w)"
proof -
  let ?n = "length (iw_calls w)"
  have w: "\<not> blocked w" "map ps_signerKeyName (iw_calls w) = signers" "g_signers (iw_global w) = signers"
    "length (g_fetchedSignatures (iw_global w)) = m" "ps_phase (iw_calls w ! m) = AwaitAck"
    using assms(5,6) by (simp_all add: progress_def)
  have n: "length (g_signers (iw_global w)) = ?n" using arg_cong [OF w(2), of length] w(3) by simp
  obtain es w1 ps1 where E: "exec initiator_enabled (initiator_handle api bls ossl kc prefix) w es w1"
    and w1: "iw_calls w1 = (iw_calls w)[m := ps1]" "iw_global w1 = iw_global w" "ps_phase ps1 = AwaitResult"
      "ps_signerKeyName ps1 = ps_signerKeyName (iw_calls w ! m)" "length (ps_aesKey ps1) = 16" "\<not> blocked w1"
      "iw_container w1 = iw_container w"
    by (rule call_to_result [OF assms(1-4,6) w(5,1)])
  define b where "b = F (ps_signerKeyName ps1)"
  have at: "iw_calls w1 ! m = ps1" "m < length (iw_calls w1)" using assms(6) by (simp_all add: w1(1))
  obtain d where d: "\<And>rnd. onResultData api bls ossl kc prefix rnd m d w1 =
      addSignature api bls kc b (set_call m ((iw_calls w1 ! m)\<lparr>ps_phase := Delivered b\<rparr>) w1)"
    using call_result [OF assms(1-4), of w1 m] w1(5) at(1) by metis
  let ?w2 = "set_call m (ps1\<lparr>ps_phase := Delivered b\<rparr>) w1" and ?e = "ResultReply m (FetchedData d) (\<lambda>_. undefined)"
  define w3 where "w3 = addSignature api bls kc b ?w2"
  have "exec initiator_enabled (initiator_handle api bls ossl kc prefix) w1 [?e] w3"
    using at w1(3,6) d by (simp add: w3_def)
  with E have E3: "exec initiator_enabled (initiator_handle api bls ossl kc prefix) w (es @ [?e]) w3"
    unfolding exec_append by blast
  have c2: "iw_calls ?w2 = (iw_calls w)[m := ps1\<lparr>ps_phase := Delivered b\<rparr>]" "iw_global ?w2 = iw_global w"
    "iw_sent ?w2 = iw_sent w1"
    by (simp_all add: set_call_def w1(1,2))
  note A = addSignature_result [OF assms(4), of api bls b ?w2, folded w3_def, unfolded c2]
  have c3: "iw_calls w3 = (iw_calls w)[m := ps1\<lparr>ps_phase := Delivered b\<rparr>]" using A by simp
  have phases: "ps_phase (iw_calls w3 ! k) =
      (if k < Suc m then Delivered (F (ps_signerKeyName (iw_calls w3 ! k))) else AwaitAck)" if "k < ?n" for k
    using assms(5,6) that by (auto simp: c3 progress_def nth_list_update b_def)
  have keys: "map ps_signerKeyName (iw_calls w3) = map ps_signerKeyName (iw_calls w)"
    using assms(6) w1(4) by (simp add: c3 map_update) (metis length_map list_update_id nth_map)
  have sig: "g_signers (iw_global w3) = signers" using A w(3) by simp
  show ?thesis
  proof (rule that [OF E3])
    show "if Suc m < length (iw_calls w) then progress F signers (Suc m) w3 else succeeded F signers w3"
    proof (cases "Suc m = ?n")
      case True
      then obtain x i where "iw_sent w3 = iw_sent w1 @ [SuccessCb x i]" using A w(4) n by auto
      then have "successes w3 \<noteq> []" by (simp add: successes_def)
      moreover have "ps_phase ps = Delivered (F (ps_signerKeyName ps))" if "ps \<in> set (iw_calls w3)" for ps
        using phases that True by (auto simp: in_set_conv_nth c3)
      ultimately show ?thesis using sig True by (simp add: succeeded_def)
    next
      case False
      then have w3: "w3 = ?w2\<lparr>iw_global := (iw_global w)\<lparr>g_fetchedSignatures := g_fetchedSignatures (iw_global w) @ [b]\<rparr>\<rparr>"
        using A w(4) n by simp
      have "\<not> blocked w3" using w1(6) by (simp add: w3 blocked_def set_call_def)
      moreover have "length (g_fetchedSignatures (iw_global w3)) = Suc m"
        using w(4) by (simp add: w3)
      moreover have len: "length (iw_calls w3) = ?n" by (simp add: c3)
      ultimately have "progress F signers (Suc m) w3"
        using phases keys w(2) sig unfolding progress_def by simp
      then show ?thesis using False assms(6) len by simp
    qed
    show "length (iw_calls w3) = length (iw_calls w)" by (simp add: c3)
    show "iw_container w3 = iw_container w" "g_schema (iw_global w3) = g_schema (iw_global w)"
      using addSignature_frame [of api bls kc b ?w2] w1(2,7) by (simp_all add: w3_def c2 set_call_def)
  qed
qed

lemma progress_succeeds:
  assumes "tlv_laws api" and "packet_laws api" and "ossl_laws ossl" and "keychain_laws kc"
    and "progress F signers m w" and "m < length (iw_calls w)"
  shows "\<exists>es w'. exec initiator_enabled (initiator_handle api bls ossl kc prefix) w es w' \<and> succeeded F signers w'"
  using assms(5,6)
proof (induction "length (iw_calls w) - m" arbitrary: m w)
  case 0
  then show ?case by simp
next
  case (Suc x)
  obtain es w1 where E: "exec initiator_enabled (initiator_handle api bls ossl kc prefix) w es w1"
    and o: "if Suc m < length (iw_calls w) then progress F signers (Suc m) w1 else succeeded F signers w1"
    and l: "length (iw_calls w1) = length (iw_calls w)"
    by (rule progress_step [OF assms(1-4) Suc.prems])
  show ?case
  proof (cases "Suc m < length (iw_calls w)")
    case False
    with E o show ?thesis by auto
  next
    case True
    then have p: "progress F signers (Suc m) w1 \<and> Suc m < length (iw_calls w1)" using o l by simp
    obtain fs w2 where "exec initiator_enabled (initiator_handle api bls ossl kc prefix) w1 fs w2" "succeeded F signers w2"
    proof -
      have "x = length (iw_calls w1) - Suc m" using l Suc.hyps(2) by simp
      from Suc.hyps(1) [OF this] p that show ?thesis by blast
    qed
    with E show ?thesis using exec_append by metis
  qed
qed

text \<open>The start of a run: the calls are fresh, and nothing has been collected.\<close>

lemma run_begins:
  fixes w :: "('a::linorder, 'd, 'e) initiator_world"
  assumes "ossl_laws ossl" and "keychain_laws kc"
    and "multiPartySign api ossl kc prefix r rnd c ud schema key = Inr w"
  shows "g_toBeSigned (iw_global w) = unfinished api r ud prefix \<and> iw_container w = c \<and> g_schema (iw_global w) = schema \<and>
    g_fetchedSignatures (iw_global w) = [] \<and> map ps_signerKeyName (iw_calls w) = g_signers (iw_global w) \<and> \<not> blocked w \<and>
    (\<forall>ps \<in> set (iw_calls w). fresh_call api ossl prefix (unfinished api r ud prefix) ps)"
proof -
  obtain signers where sel: "getAvailableSigners api c schema = Inr signers"
    using assms(3) by (auto simp: multiPartySign_def res_bind_Inr_iff)
  obtain td si where p: "prepareUnfinishedDataAndInfoData api r ud prefix = (td, si)" by force
  let ?o = "if length signers = 0 then [FailureCb ''No sufficient number of known signers.''] else []"
  define w0 :: "('a, 'd, 'e) initiator_world" where "w0 = \<lparr>iw_container = c, iw_global = \<lparr>g_signers = signers, g_schema = schema, g_toBeSigned = td, g_signInfo = si,
    g_fetchedSignatures = [], g_signingKeyName = key\<rparr>, iw_calls = [], iw_sent = ?o, iw_faults = []\<rparr>"
  have w: "w = performRPCs api ossl kc prefix rnd signers w0"
    using assms(3) by (simp add: multiPartySign_def sel p Let_def w0_def)
  obtain new outs where n: "w = w0\<lparr>iw_calls := iw_calls w0 @ new, iw_sent := iw_sent w0 @ outs\<rparr>"
    "map ps_signerKeyName new = signers" "WaitForever \<notin> set outs"
    "\<forall>ps \<in> set new. fresh_call api ossl prefix (g_toBeSigned (iw_global w0)) ps"
    using performRPCs_start [OF assms(1,2), of api prefix rnd signers w0] unfolding w by blast
  have "td = unfinished api r ud prefix" by (simp add: unfinished_def p)
  with n(2-4) show ?thesis by (simp add: blocked_def n(1) w0_def)
qed

lemma run_start:
  assumes "ossl_laws ossl" and "keychain_laws kc"
    and "multiPartySign api ossl kc prefix r rnd c ud schema key = Inr w"
  shows "progress F (g_signers (iw_global w)) 0 w \<and> iw_container w = c \<and> g_schema (iw_global w) = schema \<and>
    length (iw_calls w) = length (g_signers (iw_global w)) \<and>
    (\<forall>ps \<in> set (iw_calls w). ps_paraPrefixHandle ps \<and> \<not> ps_paraDataReady ps)"
proof -
  note B = run_begins [OF assms]
  then have "length (iw_calls w) = length (g_signers (iw_global w))" by (metis length_map)
  with B show ?thesis by (simp add: progress_def fresh_call_def)
qed

text \<open>The signers of a run for the schema that decides about a name.\<close>

lemma run_selection:
  assumes "multiPartySign api ossl kc prefix r rnd c ud schema key = Inr w"
    and "find (\<lambda>s. schema_match api s n) (m_schemas c) = Some schema"
  shows "container_passSchema api c n (g_signers (iw_global w))"
    and "\<forall>k \<in> set (g_signers (iw_global w)). trusted_key c k \<noteq> None"
proof -
  note sel = multiPartySign_signers [OF assms(1)]
  show "container_passSchema api c n (g_signers (iw_global w))"
    using selection_sound [OF sel] assms(2)
    by (auto simp: container_passSchema_def list_ex_iff from_patterns_def usable_def)
  show "\<forall>k \<in> set (g_signers (iw_global w)). trusted_key c k \<noteq> None"
    using selection_sound(3) [OF sel] by (auto simp: from_patterns_def usable_def)
qed

lemma honest_run:
  assumes "tlv_laws api" and "packet_laws api" and "ossl_laws ossl" and "keychain_laws kc"
    and "multiPartySign api ossl kc prefix r rnd c ud schema key = Inr w" and "g_signers (iw_global w) \<noteq> []"
  shows "\<exists>es w'. exec initiator_enabled (initiator_handle api bls ossl kc prefix) w es w' \<and>
    succeeded F (g_signers (iw_global w)) w'"
proof -
  note start = run_start [OF assms(3-5), of F]
  then have "0 < length (iw_calls w)" using assms(6) by simp
  with start show ?thesis using progress_succeeds [OF assms(1-4)] by blast
qed

end
