(* ===== verification/Component_Witnesses.thy ===== *)
theory Component_Witnesses
  imports Witnesses Crypto_Instances Honest_Run
begin

text \<open>
  Concrete inputs for the properties of the signer list, the cryptographic helpers, the verifier,
  the signer and the initiator.
\<close>

lemmas demo_laws = tlv_laws_demo packet_laws_demo ossl_laws_demo keychain_laws_demo

section \<open>Lists and blocks\<close>

theorem signers_wire_roundtrip_witness:
  "signers_wireDecode demo (signers_wireEncode demo demo_signers) = Inr demo_signers"
  using signers_wire_roundtrip [OF tlv_laws_demo] by blast

theorem encodeBlock_roundtrip_witness:
  "\<exists>b. encodeBlockWithAesGcm128 demo demo_ossl (\<lambda>_. 7) 21 (replicate 16 1) [2, 3] [] = Inr b \<and>
    decodeBlockWithAesGcm128 demo demo_ossl b (replicate 16 1) [] = Inr [2, 3]"
  using encodeBlock_roundtrip [OF tlv_laws_demo ossl_laws_demo, of "replicate 16 1" "\<lambda>_. 7" 21 "[2, 3]" "[]"] by auto

theorem decodeBlock_short_values_witness:
  "\<exists>w. decodeBlockWithAesGcm128 demo demo_ossl (block_with demo 21 [Blk tlv_EncryptedPayload [1],
      Blk tlv_InitializationVector [1, 2], Blk tlv_AuthenticationTag []]) (replicate 16 1) [] = Inl (Undefined w)"
  using decodeBlock_short_values [OF tlv_laws_demo, of demo_ossl 21 "[1]" "[1, 2]" "[]" "replicate 16 1" "[]"] by auto

theorem loadBigU32_value_witness:
  "\<exists>w. loadBigU32 [9, 1, 2, 3, 4] 1 = Inr w \<and> unat w = 16909060"
  using loadBigU32_value [of 1 "[9, 1, 2, 3, 4]"] by simp

section \<open>The verifier\<close>

text \<open>A packet signed with given keys and the info packet for a given list.\<close>

lemma demo_pair:
  fixes bls :: "(nat, 'pk, 'sig, 'y) bls_api_scheme"
  assumes "sks \<noteq> []"
  obtains d sid where "d_name d = key ''data'' ''7''" "signed_by demo bls (+) sks d" "info_for demo d signers sid"
    "d_sigInfo d = Some (bls_sig_info (key ''i'' ''1''))" "d_name sid = key ''i'' ''1''"
proof -
  obtain k ks where sks: "sks = k # ks" using assms by (cases sks) auto
  let ?d = "(new_data (key ''data'' ''7''))\<lparr>d_sigInfo := Some (bls_sig_info (key ''i'' ''1''))\<rparr>"
  obtain m where m: "data_unsigned demo ?d = Inr m"
    using data_ranges_unsigned [OF packet_laws_demo, of ?d] by auto
  let ?v = "blsSignatureSerialize bls encodingBuf_size (blsSign bls (foldl (+) k ks) m)"
  let ?sid = "(new_data (key ''i'' ''1''))\<lparr>d_content := content_of demo (signers_wireEncode demo signers)\<rparr>"
  have "data_unsigned demo (?d\<lparr>d_sigValue := ?v\<rparr>) = Inr m"
    using m by (simp only: data_unsigned_sigValue [OF packet_laws_demo])
  then have "signed_by demo bls (+) sks (?d\<lparr>d_sigValue := ?v\<rparr>)" by (simp add: signed_by_def sks)
  moreover have "info_for demo (?d\<lparr>d_sigValue := ?v\<rparr>) signers ?sid"
    by (simp add: info_for_def key_locator_name_def bls_sig_info_def new_data_def)
  ultimately show ?thesis by (intro that [of "?d\<lparr>d_sigValue := ?v\<rparr>" ?sid]) (simp_all add: new_data_def)
qed

lemma demo_keys: "list_all2 (\<lambda>n k. trusted_key demo_container n = Some (blsGetPublicKey demo_bls k)) demo_signers [1, 2, 4]"
  by (simp add: trusted_key_def demo_container_def demo_bls_def)

lemma demo_policy: "container_passSchema demo demo_container (key ''data'' ''7'') demo_signers"
  using demo_passes
  by (simp add: container_passSchema_def list_ex_iff trusted_key_def)
    (simp add: demo_container_def schema_match_def demo_schema_def)

theorem verify_sound_witness:
  "\<exists>d sid aggKey. verify demo demo_bls demo_container d sid = Inr True \<and>
    (\<exists>signers rs. aggregateKey demo_bls demo_container signers = Inr aggKey \<and> data_ranges demo d = Inr rs \<and>
      blsVerify demo_bls (blsSignatureDeserialize demo_bls (sig_uninit demo_bls) (d_sigValue d)) aggKey (concat rs) = 1)"
proof -
  obtain d sid where d: "d_name d = key ''data'' ''7''" "signed_by demo demo_bls (+) [1, 2, 4] d" "info_for demo d demo_signers sid"
    by (rule demo_pair [of "[1, 2, 4]"]) simp_all
  have "verify demo demo_bls demo_container d sid = Inr True"
    by (rule verify_signed [OF bls_laws_demo tlv_laws_demo packet_laws_demo d(2,3) demo_keys]) (simp add: d(1) demo_policy)
  from verify_sound [OF this] this show ?thesis by blast
qed

theorem verify_complete_witness:
  "\<exists>d sid. d_name d = key ''data'' ''7'' \<and> verify demo demo_bls demo_container d sid = Inr True"
proof -
  obtain d sid where d: "d_name d = key ''data'' ''7''" "signed_by demo demo_bls (+) [1, 2, 4] d" "info_for demo d demo_signers sid"
    by (rule demo_pair [of "[1, 2, 4]"]) simp_all
  show ?thesis
    using verify_complete [OF bls_laws_demo tlv_laws_demo packet_laws_demo d(2,3) demo_keys] d(1) demo_policy by auto
qed

abbreviation "three_schema \<equiv> demo_schema\<lparr>m_signers := [pat ''a'' 3], m_optionalSigners := [], m_minOptionalSigners := 0\<rparr>"

theorem verify_repeated_signer_witness:
  "\<exists>d sid. d_name d = key ''data'' ''7'' \<and> info_for demo d [key ''a'' ''1'', key ''a'' ''1'', key ''a'' ''1''] sid \<and>
    verify demo demo_bls (demo_container\<lparr>m_schemas := [three_schema]\<rparr>) d sid = Inr True"
proof -
  have r: "replicate 3 x = [x, x, x]" for x :: "'x" by (simp add: numeral_3_eq_3)
  obtain d sid where d: "d_name d = key ''data'' ''7''" "signed_by demo demo_bls (+) (replicate 3 1) d"
    "info_for demo d (replicate 3 (key ''a'' ''1'')) sid"
    by (rule demo_pair [of "replicate 3 1"]) simp_all
  have "verify demo demo_bls (demo_container\<lparr>m_schemas := [three_schema]\<rparr>) d sid = Inr True"
    by (rule verify_repeated_signer [OF bls_laws_demo tlv_laws_demo packet_laws_demo, where schema = three_schema
          and p = "pat ''a'' 3" and n = 3 and s = "key ''a'' ''1''" and k = 1])
      (use d in \<open>simp_all add: schema_match_def demo_schema_def trusted_key_def demo_container_def demo_bls_def\<close>)
  with d show ?thesis by (auto simp: r)
qed

abbreviation "open_schema \<equiv> demo_schema\<lparr>m_signers := [], m_optionalSigners := [], m_minOptionalSigners := 0\<rparr>"

theorem verify_empty_signers_witness:
  "\<exists>d sid. info_for demo d [] sid \<and> verify demo demo_bls (demo_container\<lparr>m_schemas := [open_schema]\<rparr>) d sid =
    ndnBLSVerify_data demo demo_bls 0 d"
proof -
  obtain d sid where d: "d_name d = key ''data'' ''7''" "info_for demo d [] sid"
    by (rule demo_pair [where sks = "[1]" and signers = "[]"]) auto
  have "verify demo demo_bls (demo_container\<lparr>m_schemas := [open_schema]\<rparr>) d sid = ndnBLSVerify_data demo demo_bls (pk_uninit demo_bls) d"
    by (rule verify_empty_signers [OF tlv_laws_demo packet_laws_demo d(2), where schema = open_schema])
      (simp_all add: d(1) schema_match_def demo_schema_def)
  with d(2) show ?thesis by (auto simp: demo_bls_def)
qed

theorem verify_missing_list_throws_witness:
  "\<exists>w. asyncVerify_reply demo demo_bls demo_container
     ((new_data (key ''d'' ''1''))\<lparr>d_sigInfo := Some (bls_sig_info (key ''i'' ''1''))\<rparr>)
     (InfoData ((new_data (key ''i'' ''1''))\<lparr>d_content := block_with demo 21 [Blk 7 []]\<rparr>)) = Inl (Throws w)"
proof -
  let ?d = "(new_data (key ''d'' ''1''))\<lparr>d_sigInfo := Some (bls_sig_info (key ''i'' ''1''))\<rparr>"
  let ?sid = "(new_data (key ''i'' ''1''))\<lparr>d_content := block_with demo 21 [Blk 7 []]\<rparr>"
  have "key_locator_name (d_sigInfo ?d) = Inr (key ''i'' ''1'')" by (simp add: key_locator_name_def bls_sig_info_def)
  moreover have "is_prefix_of (key ''i'' ''1'') (d_name ?sid)" by (simp add: new_data_def)
  moreover have "block_parse demo (d_content ?sid) = Inr [Blk 7 []]" by (simp add: block_parse_with [OF tlv_laws_demo])
  moreover have "\<forall>b \<in> set [Blk 7 []]. blk_type b \<noteq> 200" by simp
  ultimately show ?thesis using verify_missing_list_throws [OF tlv_laws_demo] by blast
qed

text \<open>The reply is a Nack: false is told. The reply is an info packet without a list: nothing is told.\<close>

theorem asyncVerify_once_witness:
  "let d = (new_data (key ''d'' ''1''))\<lparr>d_sigInfo := Some (bls_sig_info (key ''i'' ''1''))\<rparr>;
     sid = (new_data (key ''i'' ''1''))\<lparr>d_content := block_with demo 21 [Blk 7 []]\<rparr> in
   (\<exists>i. asyncVerify d = Inr [ExpressInterest i] \<and> i_name i = key ''i'' ''1'') \<and>
   (\<exists>outs. asyncVerify_reply demo demo_bls demo_container d InfoNack = Inr outs \<and> finish_calls outs = [False]) \<and>
   (\<exists>w. asyncVerify_reply demo demo_bls demo_container d (InfoData sid) = Inl (Throws w) \<and>
      verify demo demo_bls demo_container d sid = Inl (Throws w))"
proof -
  let ?d = "(new_data (key ''d'' ''1''))\<lparr>d_sigInfo := Some (bls_sig_info (key ''i'' ''1''))\<rparr>"
  let ?sid = "(new_data (key ''i'' ''1''))\<lparr>d_content := block_with demo 21 [Blk 7 []]\<rparr>"
  have loc: "key_locator_name (d_sigInfo ?d) = Inr (key ''i'' ''1'')"
    by (simp add: key_locator_name_def bls_sig_info_def)
  have "is_prefix_of (key ''i'' ''1'') (d_name ?sid)" by (simp add: new_data_def)
  moreover have "block_parse demo (d_content ?sid) = Inr [Blk 7 []]" by (simp add: block_parse_with [OF tlv_laws_demo])
  moreover have "\<forall>b \<in> set [Blk 7 []]. blk_type b \<noteq> 200" by simp
  ultimately obtain w where w: "asyncVerify_reply demo demo_bls demo_container ?d (InfoData ?sid) = Inl (Throws w)"
    using verify_missing_list_throws [OF tlv_laws_demo loc] by blast
  obtain i where i: "asyncVerify ?d = Inr [ExpressInterest i]" "i_name i = key ''i'' ''1''"
    and replies: "\<forall>r. case asyncVerify_reply demo demo_bls demo_container ?d r of
        Inr outs \<Rightarrow> finish_calls outs = [\<exists>sid. r = InfoData sid \<and> verify demo demo_bls demo_container ?d sid = Inr True] \<and>
          (\<forall>sid. r = InfoData sid \<longrightarrow> (\<exists>b. verify demo demo_bls demo_container ?d sid = Inr b))
      | Inl e \<Rightarrow> \<exists>sid. r = InfoData sid \<and> verify demo demo_bls demo_container ?d sid = Inl e"
    using asyncVerify_once [of ?d demo demo_bls demo_container] loc by auto
  show ?thesis
    unfolding Let_def using i w replies [rule_format, of InfoNack] replies [rule_format, of "InfoData ?sid"] by auto
qed

end
