(* ===== verification/Signer_Choice.thy ===== *)
theory Signer_Choice
  imports Honest_Run
begin

text \<open>
  The signer list of one run of \<^verbatim>\<open>multiPartySign\<close>, which \<^verbatim>\<open>onUnavailableSigner\<close>
  replaces, and the failures that the run reports. Every event either leaves the list, the
  container and the failures alone, or loses the signer of a call, which then has ended: this is
  the case rule \<open>event_cases\<close>, by which the two invariants are proved. \<open>failures_ok\<close> bounds
  the failures by the calls that have ended; \<open>choice_ok\<close> says that the list holds keys that can
  still be asked, among them what the required patterns need.
\<close>

section \<open>The two kinds of events\<close>

definition ended_calls :: "('c, 'pk, 'priv) initiator_world \<Rightarrow> nat" where
  "ended_calls w = length (filter (\<lambda>ps. ps_phase ps = Ended) (iw_calls w))"

lemma filter_update_length:
  assumes "k < length xs" and "\<not> P (xs ! k)"
  shows "length (filter P (xs[k := x])) = length (filter P xs) + (if P x then 1 else 0)"
  using assms by (induction xs arbitrary: k) (auto simp: nth_Cons split: nat.splits)

lemma ended_set_call:
  assumes "k < length (iw_calls w)" and "is_active (ps_phase (iw_calls w ! k))"
  shows "ended_calls (set_call k ps w) = ended_calls w + (if ps_phase ps = Ended then 1 else 0)"
  using assms filter_update_length [of k "iw_calls w" "\<lambda>ps. ps_phase ps = Ended" ps]
  by (auto simp: ended_calls_def set_call_def is_active_def)

definition kept :: "('c, 'pk, 'priv) initiator_world \<Rightarrow> ('c, 'pk, 'priv) initiator_world \<Rightarrow> bool" where
  "kept w w' \<longleftrightarrow> iw_container w' = iw_container w \<and> g_signers (iw_global w') = g_signers (iw_global w) \<and>
     g_schema (iw_global w') = g_schema (iw_global w) \<and>
     map ps_signerKeyName (iw_calls w') = map ps_signerKeyName (iw_calls w) \<and>
     ended_calls w \<le> ended_calls w' \<and> failures w' = failures w"

lemma kept_more:
  assumes "kept w w'"
  shows "kept w (raise e w')" and "silent outs \<Longrightarrow> kept w (emit outs w')" and "kept w (addSignature api bls kc b w')"
proof -
  show "kept w (raise e w')" using assms by (simp add: kept_def raise_def ended_calls_def failures_def)
  show "kept w (emit outs w')" if "silent outs"
    using assms that by (simp add: kept_def emit_def ended_calls_def failures_def silent_def)
  have "g_signers (iw_global (addSignature api bls kc b w')) = g_signers (iw_global w') \<and>
      iw_calls (addSignature api bls kc b w') = iw_calls w' \<and> failures (addSignature api bls kc b w') = failures w'"
    by (simp add: addSignature_def Let_def failures_def emit_def raise_def split: sum.split)
  then show "kept w (addSignature api bls kc b w')"
    using assms by (simp add: kept_def addSignature_frame ended_calls_def)
qed

lemma kept_set_call:
  assumes "k < length (iw_calls w)" and "is_active (ps_phase (iw_calls w ! k))"
    and "ps_signerKeyName ps = ps_signerKeyName (iw_calls w ! k)"
  shows "kept w (set_call k ps w)"
proof -
  have "map ps_signerKeyName ((iw_calls w)[k := ps]) = map ps_signerKeyName (iw_calls w)"
    using assms(1,3) by (simp add: map_update list_update_same_conv)
  then show ?thesis
    using ended_set_call [OF assms(1,2), of ps] by (simp add: kept_def set_call_def failures_def)
qed

lemma event_cases:
  assumes "initiator_enabled w e"
  obtains (kept) "kept w (initiator_handle api bls ossl kc prefix w e)"
  | (lost) k rnd reason where "k < length (iw_calls w)" "is_active (ps_phase (iw_calls w ! k))"
      "initiator_handle api bls ossl kc prefix w e = onUnavailableSigner api ossl kc prefix rnd reason
         (ps_signerKeyName (iw_calls w ! k)) (set_call k ((iw_calls w ! k)\<lparr>ps_phase := Ended\<rparr>) w)"
proof (cases e)
  case (AckReply k x iv rnd)
  then have k: "k < length (iw_calls w)" "is_active (ps_phase (iw_calls w ! k))" using assms by (auto simp: is_active_def)
  note S = kept_set_call [OF k]
  show ?thesis
  proof (cases x)
    case (FetchedData d)
    have "kept w (onAckData api ossl kc iv k d w)"
      by (cases rule: onAckData_cases [of api ossl kc iv k d w]) (simp_all add: S kept_more)
    then show ?thesis using kept by (simp add: AckReply FetchedData)
  qed (use lost [OF k] in \<open>simp_all add: AckReply onNoReply_def Let_def\<close>)
next
  case (ResultTimer k)
  then have k: "k < length (iw_calls w)" "is_active (ps_phase (iw_calls w ! k))" using assms by (auto simp: is_active_def)
  have "kept w (onResultTimer kc k w)"
    by (simp add: onResultTimer_def Let_def kept_set_call [OF k] kept_more split: sum.split)
  then show ?thesis using kept by (simp add: ResultTimer)
next
  case (ResultReply k x rnd)
  then have k: "k < length (iw_calls w)" "is_active (ps_phase (iw_calls w ! k))" using assms by (auto simp: is_active_def)
  note S = kept_set_call [OF k]
  show ?thesis
  proof (cases x)
    case (FetchedData d)
    then have h: "initiator_handle api bls ossl kc prefix w e = onResultData api bls ossl kc prefix rnd k d w"
      by (simp add: ResultReply)
    show ?thesis
    proof (cases rule: onResultData_cases [of api bls ossl kc prefix rnd k d w])
      case (error reason)
      then show ?thesis using lost [OF k] h by simp
    qed (use kept h in \<open>simp_all add: S kept_more\<close>)
  qed (use lost [OF k] in \<open>simp_all add: ResultReply onNoReply_def Let_def\<close>)
next
  case (ParameterInterest k)
  have "kept w w" by (simp add: kept_def)
  then have "kept w (onParameterInterest k w)" by (simp add: onParameterInterest_def kept_more)
  then show ?thesis using kept by (simp add: ParameterInterest)
qed

text \<open>A lost signer: a failure, or calls for the keys that replace it.\<close>

lemma lost_cases:
  fixes w :: "('c::linorder, 'pk, 'priv) initiator_world"
  assumes "replaceSigner api (iw_container w) (g_signers (iw_global w)) u (g_schema (iw_global w)) = (c, new, diff)"
    and "w' = onUnavailableSigner api ossl kc prefix rnd reason u w"
  obtains (failed) s where "new = []" "iw_container w' = c" "iw_global w' = iw_global w" "iw_calls w' = iw_calls w"
      "failures w' = failures w @ [s]"
  | (replaced) calls where "new \<noteq> []" "iw_container w' = c" "iw_global w' = (iw_global w)\<lparr>g_signers := new\<rparr>"
      "iw_calls w' = iw_calls w @ calls" "ps_signerKeyName ` set calls \<subseteq> set diff"
      "\<forall>ps \<in> set calls. ps_phase ps = AwaitAck" "failures w' = failures w"
proof (cases "new = []")
  case True
  then show ?thesis using assms(1) by (intro failed) (simp_all add: assms(2) onUnavailableSigner_def failures_def)
next
  case False
  let ?w1 = "w\<lparr>iw_container := c, iw_global := (iw_global w)\<lparr>g_signers := new\<rparr>\<rparr>"
  obtain calls outs fs m where p: "performRPCs api ossl kc prefix rnd diff ?w1 =
      ?w1\<lparr>iw_calls := iw_calls ?w1 @ calls, iw_sent := iw_sent ?w1 @ outs, iw_faults := iw_faults ?w1 @ fs\<rparr>"
    "map ps_signerKeyName calls = take m diff" "\<forall>ps \<in> set calls. ps_phase ps = AwaitAck" "silent outs"
    using performRPCs_shape [of api ossl kc prefix rnd diff ?w1] by blast
  have w': "w' = performRPCs api ossl kc prefix rnd diff ?w1" using assms False by (simp add: onUnavailableSigner_def)
  have "ps_signerKeyName ` set calls \<subseteq> set diff" using p(2) by (metis set_map set_take_subset)
  then show ?thesis
    using False p(3,4) by (intro replaced) (simp_all add: w' p(1) failures_def silent_def)
qed

section \<open>How many failures are reported\<close>

definition failures_ok :: "('c, 'pk, 'priv) initiator_world \<Rightarrow> bool" where
  "failures_ok w \<longleftrightarrow> length (failures w) \<le> (if iw_calls w = [] then 1 else ended_calls w)"

lemma failures_ok_kept:
  assumes "failures_ok w" and "kept w w'"
  shows "failures_ok w'"
proof -
  have "iw_calls w' = [] \<longleftrightarrow> iw_calls w = []"
    using assms(2) unfolding kept_def by (metis map_is_Nil_conv)
  with assms show ?thesis by (simp add: failures_ok_def kept_def split: if_splits)
qed

lemma failures_ok_step:
  fixes w :: "('c::linorder, 'pk, 'priv) initiator_world"
  assumes "failures_ok w" and "initiator_enabled w e"
  shows "failures_ok (initiator_handle api bls ossl kc prefix w e)"
  using assms(2)
proof (cases rule: event_cases [where api = api and bls = bls and ossl = ossl and kc = kc and prefix = prefix])
  case kept
  with assms(1) show ?thesis by (rule failures_ok_kept)
next
  case (lost k rnd reason)
  let ?w1 = "set_call k ((iw_calls w ! k)\<lparr>ps_phase := Ended\<rparr>) w"
  let ?u = "ps_signerKeyName (iw_calls w ! k)"
  have ended: "ended_calls ?w1 = Suc (ended_calls w)" using ended_set_call [OF lost(1,2)] by simp
  have ne: "iw_calls w \<noteq> []" using lost(1) by auto
  have "failures ?w1 = failures w" by (simp add: failures_def set_call_def)
  moreover have "length (failures w) \<le> ended_calls w" using assms(1) ne by (simp add: failures_ok_def)
  ultimately have one: "length (failures ?w1) \<le> ended_calls w" by simp
  have ne1: "iw_calls ?w1 \<noteq> []" using ne by (simp add: set_call_def)
  obtain c new diff where "replaceSigner api (iw_container ?w1) (g_signers (iw_global ?w1)) ?u
      (g_schema (iw_global ?w1)) = (c, new, diff)"
    by (metis prod_cases3)
  from this lost(3) show ?thesis
  proof (cases rule: lost_cases)
    case (failed s)
    then show ?thesis using one ne1 ended by (simp add: failures_ok_def ended_calls_def)
  next
    case (replaced calls)
    then show ?thesis using one ne1 ended by (simp add: failures_ok_def ended_calls_def)
  qed
qed

text \<open>How a run starts: a failure when there is no signer, otherwise calls for listed signers.\<close>

lemma run_starts:
  fixes w :: "('a::linorder, 'd, 'e) initiator_world"
  assumes "multiPartySign api ossl kc prefix r rnd c ud schema key = Inr w"
  shows "iw_container w = c" and "g_schema (iw_global w) = schema"
    and "length (failures w) = (if g_signers (iw_global w) = [] then 1 else 0)"
    and "ps_signerKeyName ` set (iw_calls w) \<subseteq> set (g_signers (iw_global w))"
proof -
  obtain signers where sel: "getAvailableSigners api c schema = Inr signers"
    using assms by (auto simp: multiPartySign_def res_bind_Inr_iff)
  obtain td si where p: "prepareUnfinishedDataAndInfoData api r ud prefix = (td, si)" by force
  define w0 :: "('a, 'd, 'e) initiator_world" where "w0 = \<lparr>iw_container = c, iw_global = \<lparr>g_signers = signers,
      g_schema = schema, g_toBeSigned = td, g_signInfo = si, g_fetchedSignatures = [], g_signingKeyName = key\<rparr>,
    iw_calls = [], iw_sent = if length signers = 0 then [FailureCb ''No sufficient number of known signers.''] else [],
    iw_faults = []\<rparr>"
  have w: "w = performRPCs api ossl kc prefix rnd signers w0"
    using assms by (simp add: multiPartySign_def sel p Let_def w0_def)
  obtain new outs fs m where q: "w = w0\<lparr>iw_calls := iw_calls w0 @ new, iw_sent := iw_sent w0 @ outs, iw_faults := iw_faults w0 @ fs\<rparr>"
    "map ps_signerKeyName new = take m signers" "silent outs"
    using performRPCs_shape [of api ossl kc prefix rnd signers w0] unfolding w by blast
  have "ps_signerKeyName ` set new \<subseteq> set signers" using q(2) by (metis set_map set_take_subset)
  with q(1,3) show "iw_container w = c" "g_schema (iw_global w) = schema"
    "length (failures w) = (if g_signers (iw_global w) = [] then 1 else 0)"
    "ps_signerKeyName ` set (iw_calls w) \<subseteq> set (g_signers (iw_global w))"
    by (simp_all add: w0_def failures_def silent_def)
qed

lemma failures_ok_start:
  assumes "multiPartySign api ossl kc prefix r rnd c ud schema key = Inr w"
  shows "failures_ok w"
  using run_starts(3,4) [OF assms] by (auto simp: failures_ok_def)

section \<open>Which signers are listed\<close>

definition choice_ok ::
  "('c::linorder, 'z) packet_api_scheme \<Rightarrow> 'c schema \<Rightarrow> ('c, 'pk, 'priv) initiator_world \<Rightarrow> bool" where
  "choice_ok api schema w \<longleftrightarrow> g_schema (iw_global w) = schema \<and>
     (failures w = [] \<longrightarrow> g_signers (iw_global w) \<noteq> [] \<and>
        (\<forall>n \<in> set (g_signers (iw_global w)). usable (iw_container w) n) \<and>
        required_met api (m_signers schema) (g_signers (iw_global w)) \<and>
        (\<forall>n \<in> ps_signerKeyName ` set (iw_calls w). n \<in> set (g_signers (iw_global w)) \<or>
           n \<in> set (m_unavailableSigners (iw_container w))))"

lemma choice_ok_kept: "choice_ok api schema w \<Longrightarrow> kept w w' \<Longrightarrow> choice_ok api schema w'"
  unfolding choice_ok_def kept_def set_map [symmetric] by simp

lemma choice_ok_start:
  assumes "multiPartySign api ossl kc prefix r rnd c ud schema key = Inr w"
  shows "choice_ok api schema w"
proof -
  have sel: "getAvailableSigners api c schema = Inr (g_signers (iw_global w))"
    by (rule multiPartySign_signers [OF assms])
  have "passSchema api schema (g_signers (iw_global w))" by (rule selection_sound(2) [OF sel])
  then have "required_met api (m_signers schema) (g_signers (iw_global w))" by (simp add: passSchema_iff)
  moreover have "\<forall>n \<in> set (g_signers (iw_global w)). usable c n"
    using selection_sound(3) [OF sel] by (auto simp: from_patterns_def)
  ultimately show ?thesis
    using run_starts [OF assms] by (auto simp: choice_ok_def)
qed

lemma choice_ok_step:
  fixes w :: "('c::linorder, 'pk, 'priv) initiator_world"
  assumes "session_ok api' bls' kc' td kl w" and "choice_ok api schema w" and "initiator_enabled w e"
  shows "choice_ok api schema (initiator_handle api bls ossl kc prefix w e)"
  using assms(3)
proof (cases rule: event_cases [where api = api and bls = bls and ossl = ossl and kc = kc and prefix = prefix])
  case kept
  with assms(2) show ?thesis by (rule choice_ok_kept)
next
  case (lost k rnd reason)
  let ?w1 = "set_call k ((iw_calls w ! k)\<lparr>ps_phase := Ended\<rparr>) w"
  let ?u = "ps_signerKeyName (iw_calls w ! k)"
  have "distinct (g_signers (iw_global w))" "trusted_key (iw_container w) [] = None"
    using assms(1) by (auto simp: session_ok_def calls_ok_def)
  then have t: "distinct (g_signers (iw_global ?w1))" "trusted_key (iw_container ?w1) [] = None"
    by (simp_all add: set_call_def)
  have "kept w ?w1" by (rule kept_set_call [OF lost(1,2)]) simp
  with assms(2) have ok: "choice_ok api schema ?w1" by (rule choice_ok_kept)
  obtain c new diff where rep: "replaceSigner api (iw_container ?w1) (g_signers (iw_global ?w1)) ?u
      (g_schema (iw_global ?w1)) = (c, new, diff)"
    by (metis prod_cases3)
  note frame = replaceSigner_frame [OF rep t(2)]
  from rep lost(3) show ?thesis
  proof (cases rule: lost_cases)
    case (failed s)
    then show ?thesis using ok by (simp add: choice_ok_def)
  next
    case (replaced calls)
    show ?thesis
    proof (cases "failures ?w1 = []")
      case True
      have old: "\<forall>n \<in> set (g_signers (iw_global ?w1)). usable (iw_container ?w1) n"
        "required_met api (m_signers schema) (g_signers (iw_global ?w1))"
        "\<forall>n \<in> ps_signerKeyName ` set (iw_calls ?w1). n \<in> set (g_signers (iw_global ?w1)) \<or>
           n \<in> set (m_unavailableSigners (iw_container ?w1))"
        and schema: "g_schema (iw_global ?w1) = schema"
        using ok True unfolding choice_ok_def by blast+
      have c: "c = mark_unavailable ?u (iw_container ?w1)"
        and new: "set new = (set (g_signers (iw_global ?w1)) - {?u}) \<union> set diff"
        and diff: "\<forall>d \<in> set diff. usable (iw_container ?w1) d \<and> d \<noteq> ?u"
        using frame replaced(1) by blast+
      have "required_met api (m_signers schema) new"
        using replaceSigner_required_met [OF rep t(2,1) _ replaced(1)] old(2) schema by simp
      moreover have "\<forall>n \<in> set new. usable c n" using old(1) new diff by (auto simp: c usable_mark)
      moreover have "\<forall>n \<in> ps_signerKeyName ` set (iw_calls ?w1) \<union> set diff. n \<in> set new \<or> n \<in> set (m_unavailableSigners c)"
        using old(3) new by (auto simp: c mark_unavailable_def)
      then have "\<forall>n \<in> ps_signerKeyName ` set (iw_calls ?w1 @ calls). n \<in> set new \<or> n \<in> set (m_unavailableSigners c)"
        using replaced(5) unfolding set_append image_Un by blast
      ultimately show ?thesis
        using replaced(1-4) schema by (simp add: choice_ok_def)
    qed (use replaced ok in \<open>simp add: choice_ok_def\<close>)
  qed
qed

definition chosen_inv ::
  "('c::linorder, 'z) packet_api_scheme \<Rightarrow> ('sk, 'pk, 'sig, 'y) bls_api_scheme \<Rightarrow> ('c, 'x) keychain_api_scheme \<Rightarrow>
   'c data \<Rightarrow> 'c name \<Rightarrow> 'c schema \<Rightarrow> ('c, 'pk, 'priv) initiator_world \<Rightarrow> bool" where
  "chosen_inv api bls kc td kl schema w \<longleftrightarrow> session_ok api bls kc td kl w \<and> choice_ok api schema w"

interpretation chosen_run: invariant_system initiator_enabled "initiator_handle api bls ossl kc prefix"
    "chosen_inv api bls kc td kl schema"
  for api :: "('c::linorder, 'z) packet_api_scheme" and bls :: "('sk, 'pk, 'sig, 'y) bls_api_scheme"
    and ossl :: "('priv, 'o) ossl_api_scheme" and kc :: "('c, 'x) keychain_api_scheme"
    and prefix kl :: "'c name" and td :: "'c data" and schema :: "'c schema"
  by unfold_locales (auto simp: chosen_inv_def initiator_step_ok intro: choice_ok_step)

text \<open>
  C21: the signer list stays what the policy asks for. In every execution of a run, whatever
  packets, NACKs and timeouts arrive, as long as no failure has been reported the list is not
  empty; every listed key is trusted and not marked unavailable; the list satisfies every required
  pattern of the schema, and the whole schema when it asks for no minimum of optional signers; and
  a key that has been called and is not listed any more is marked unavailable, its call
  ended without a piece.
\<close>

theorem signer_list_policy:
  fixes w :: "('c::linorder, 'pk, 'priv) initiator_world"
  assumes "multiPartySign api ossl kc prefix r rnd c ud schema key = Inr w0" and "trusted_key c [] = None"
    and "exec initiator_enabled (initiator_handle api bls ossl kc prefix) w0 es w" and "failures w = []"
  shows "g_signers (iw_global w) \<noteq> [] \<and>
    (\<forall>n \<in> set (g_signers (iw_global w)). usable (iw_container w) n) \<and>
    required_ok api (m_signers schema) (g_signers (iw_global w)) \<and>
    (m_minOptionalSigners schema = 0 \<longrightarrow> passSchema api schema (g_signers (iw_global w))) \<and>
    (\<forall>ps \<in> set (iw_calls w). ps_signerKeyName ps \<notin> set (g_signers (iw_global w)) \<longrightarrow>
       ps_phase ps = Ended \<and> ps_signerKeyName ps \<in> set (m_unavailableSigners (iw_container w)))"
proof -
  let ?td = "unfinished api r ud prefix" and ?kl = "info_name api r ud prefix"
  have "chosen_inv api bls kc ?td ?kl schema w0"
    using multiPartySign_ok [OF assms(1,2)] choice_ok_start [OF assms(1)] by (simp add: chosen_inv_def)
  from chosen_run.exec_inv [OF assms(3) this]
  have "calls_ok w" "choice_ok api schema w" by (simp_all add: chosen_inv_def session_ok_def)
  with assms(4) show ?thesis
    by (auto simp: choice_ok_def calls_ok_def required_ok_eq passSchema_iff)
qed

text \<open>
  The failure callback is called again. Each signer that is lost without a replacement is
  reported, in a run that has reported a failure before as well.
\<close>

theorem failure_reported_again:
  fixes w :: "('c::linorder, 'pk, 'priv) initiator_world"
  assumes "failures w \<noteq> []" and "initiator_enabled w (AckReply k FetchTimeout iv rnd)"
    and "replaceSigner api (iw_container w) (g_signers (iw_global w)) (ps_signerKeyName (iw_calls w ! k))
      (g_schema (iw_global w)) = (c, [], diff)"
  shows "\<exists>s. failures (initiator_handle api bls ossl kc prefix w (AckReply k FetchTimeout iv rnd)) = failures w @ [s]"
  using assms(3) by (simp add: onNoReply_def Let_def onUnavailableSigner_def failures_def set_call_def)

end
