(* ===== verification/Initiator_Runs.thy ===== *)
theory Initiator_Runs
  imports Signer_Choice
begin

text \<open>
  Several runs of one \<^verbatim>\<open>MPSInitiator\<close>: every call of \<^verbatim>\<open>multiPartySign\<close> starts a run
  with a state of its own, and all runs share the schema container of the object, in which a lost
  signer is marked. The world holds the container once; an event of a run is handled in it, and
  the application may reset or replace it between events. A handler that waits for ever stops the
  event loop for all runs.

  The lemmas lift what \<open>Initiator_Session\<close> shows of one run to all of them, and show that a
  signer lost by one run is not asked by any run that starts later.
\<close>

section \<open>The object\<close>

record ('c, 'pk, 'priv) runs_world =
  rs_container :: "('c, 'pk) container"
  rs_runs :: "('c, 'pk, 'priv) initiator_world list"
  rs_asked :: "(nat \<times> 'c data) list"
  rs_faults :: "fault list"

definition runs_start :: "('c, 'pk) container \<Rightarrow> ('c, 'pk, 'priv) runs_world" where
  "runs_start c = \<lparr>rs_container = c, rs_runs = [], rs_asked = [], rs_faults = []\<rparr>"

text \<open>
  Calls of the application and events of the runs. The container is a public member: the
  application may reset its record of lost signers, or write to it, at any time.
\<close>

datatype ('c, 'pk) runs_event =
    MultiPartySign nat "nat \<Rightarrow> call_random" "'c data" "'c schema" "'c name"
  | InRun nat "'c initiator_event"
  | ResetUnavailable
  | WriteContainer "('c, 'pk) container"

fun writes_container :: "('c, 'pk) runs_event \<Rightarrow> bool" where
  "writes_container ResetUnavailable = True"
| "writes_container (WriteContainer c) = True"
| "writes_container e = False"

definition in_container ::
  "('c, 'pk) container \<Rightarrow> ('c, 'pk, 'priv) initiator_world \<Rightarrow> ('c, 'pk, 'priv) initiator_world" where
  "in_container c w = w\<lparr>iw_container := c\<rparr>"

text \<open>A container that the application may write: the set is one, and no key has the empty name.\<close>

definition writable :: "('c::linorder, 'pk) container \<Rightarrow> bool" where
  "writable c \<longleftrightarrow> sset_ok (m_unavailableSigners c) \<and> trusted_key c [] = None"

fun runs_enabled :: "('c::linorder, 'pk, 'priv) runs_world \<Rightarrow> ('c, 'pk) runs_event \<Rightarrow> bool" where
  "runs_enabled w (MultiPartySign r rnd ud schema key) = (\<not> list_ex blocked (rs_runs w))"
| "runs_enabled w (InRun j e) =
     (\<not> list_ex blocked (rs_runs w) \<and> j < length (rs_runs w) \<and> initiator_enabled (rs_runs w ! j) e)"
| "runs_enabled w ResetUnavailable = (\<not> list_ex blocked (rs_runs w))"
| "runs_enabled w (WriteContainer c) = (\<not> list_ex blocked (rs_runs w) \<and> writable c)"

fun runs_handle ::
  "('c::linorder, 'z) packet_api_scheme \<Rightarrow> ('sk, 'pk, 'sig, 'y) bls_api_scheme \<Rightarrow> ('priv, 'o) ossl_api_scheme \<Rightarrow>
   ('c, 'x) keychain_api_scheme \<Rightarrow> 'c name \<Rightarrow> ('c, 'pk, 'priv) runs_world \<Rightarrow> ('c, 'pk) runs_event \<Rightarrow>
   ('c, 'pk, 'priv) runs_world" where
  "runs_handle api bls ossl kc prefix w (MultiPartySign r rnd ud schema key) =
     (case multiPartySign api ossl kc prefix r rnd (rs_container w) ud schema key of
        Inl e \<Rightarrow> w\<lparr>rs_faults := rs_faults w @ [e]\<rparr>
      | Inr v \<Rightarrow> w\<lparr>rs_runs := rs_runs w @ [v], rs_asked := rs_asked w @ [(r, ud)]\<rparr>)"
| "runs_handle api bls ossl kc prefix w (InRun j e) =
     (let v = initiator_handle api bls ossl kc prefix (in_container (rs_container w) (rs_runs w ! j)) e
      in w\<lparr>rs_container := iw_container v, rs_runs := (rs_runs w)[j := v]\<rparr>)"
| "runs_handle api bls ossl kc prefix w ResetUnavailable = w\<lparr>rs_container := resetCachedUnavailableSigners (rs_container w)\<rparr>"
| "runs_handle api bls ossl kc prefix w (WriteContainer c) = w\<lparr>rs_container := c\<rparr>"

section \<open>What a step leaves alone\<close>

text \<open>
  The signers of a run: those on its list and those it has called. A step of a run may only add
  keys to the signers that the container offers.
\<close>

definition run_signers :: "('c, 'pk, 'priv) initiator_world \<Rightarrow> 'c name set" where
  "run_signers w = set (g_signers (iw_global w)) \<union> ps_signerKeyName ` set (iw_calls w)"

definition container_grows :: "('c, 'pk) container \<Rightarrow> ('c, 'pk) container \<Rightarrow> bool" where
  "container_grows c c' \<longleftrightarrow> m_trustedIds c' = m_trustedIds c \<and> m_schemas c' = m_schemas c \<and>
     set (m_unavailableSigners c) \<subseteq> set (m_unavailableSigners c')"

definition run_step_ok :: "('c::linorder, 'pk, 'priv) initiator_world \<Rightarrow> ('c, 'pk, 'priv) initiator_world \<Rightarrow> bool" where
  "run_step_ok w w' \<longleftrightarrow> container_grows (iw_container w) (iw_container w') \<and>
     run_signers w' \<subseteq> run_signers w \<union> Collect (usable (iw_container w))"

lemma container_grows_refl [simp]: "container_grows c c"
  by (simp add: container_grows_def)

lemma container_grows_trans: "container_grows c d \<Longrightarrow> container_grows d e \<Longrightarrow> container_grows c e"
  by (auto simp: container_grows_def)

lemma grows_mark [simp]: "container_grows c (mark_unavailable u c)"
  by (auto simp: container_grows_def mark_unavailable_def)

lemma grows_trusted: "container_grows c d \<Longrightarrow> trusted_key d n = trusted_key c n"
  by (simp add: container_grows_def trusted_key_def)

lemma run_step_refl:
  "iw_container w' = iw_container w \<Longrightarrow> g_signers (iw_global w') = g_signers (iw_global w) \<Longrightarrow>
   run_signers w' \<subseteq> run_signers w \<Longrightarrow> run_step_ok w w'"
  by (auto simp: run_step_ok_def)

lemma run_signers_simps [simp]:
  "run_signers (emit outs w) = run_signers w" "run_signers (raise e w) = run_signers w"
  by (simp_all add: run_signers_def emit_def raise_def)

lemma set_call_container [simp]: "iw_container (set_call k ps w) = iw_container w"
  "iw_global (set_call k ps w) = iw_global w" "iw_container (emit outs w) = iw_container w"
  "iw_container (raise e w) = iw_container w" "iw_global (emit outs w) = iw_global w" "iw_global (raise e w) = iw_global w"
  by (simp_all add: set_call_def emit_def raise_def)

lemma run_signers_set_call:
  "ps_signerKeyName ps = ps_signerKeyName (iw_calls w ! k) \<Longrightarrow> run_signers (set_call k ps w) \<subseteq> run_signers w"
  using nth_mem [of k "iw_calls w"] set_update_subset_insert [of "iw_calls w" k ps]
  by (cases "k < length (iw_calls w)") (auto simp: run_signers_def set_call_def list_update_beyond)

lemma unavailable_run_step:
  assumes "trusted_key (iw_container w) [] = None" and "distinct (g_signers (iw_global w))"
  shows "run_step_ok w (onUnavailableSigner api ossl kc prefix rnd reason u w)"
proof -
  obtain c new diff where rep: "replaceSigner api (iw_container w) (g_signers (iw_global w)) u
      (g_schema (iw_global w)) = (c, new, diff)"
    by (metis prod_cases3)
  have c: "c = mark_unavailable u (iw_container w)"
    and frame: "new \<noteq> [] \<longrightarrow> set new = (set (g_signers (iw_global w)) - {u}) \<union> set diff \<and>
      (\<forall>d \<in> set diff. usable (iw_container w) d)"
    using replaceSigner_frame [OF rep assms(1)] assms(2) by auto
  let ?w1 = "w\<lparr>iw_container := c, iw_global := (iw_global w)\<lparr>g_signers := new\<rparr>\<rparr>"
  have "run_signers (performRPCs api ossl kc prefix rnd diff ?w1) \<subseteq> set new \<union> ps_signerKeyName ` set (iw_calls w) \<union> set diff"
    using performRPCs_calls [of _ api ossl kc prefix rnd diff ?w1] performRPCs_shape [of api ossl kc prefix rnd diff ?w1]
    by (fastforce simp: run_signers_def)
  moreover have "iw_global (performRPCs api ossl kc prefix rnd diff ?w1) = iw_global ?w1"
    using performRPCs_shape [of api ossl kc prefix rnd diff ?w1] by auto
  ultimately show ?thesis
    using frame onUnavailableSigner_container [OF assms(1), of api ossl kc prefix rnd reason u] rep c
    by (cases "new = []") (auto simp: run_step_ok_def onUnavailableSigner_def run_signers_def)
qed

lemma run_step_from:
  assumes "run_step_ok v w'" and "iw_container v = iw_container w" and "g_signers (iw_global v) = g_signers (iw_global w)"
    and "run_signers v \<subseteq> run_signers w"
  shows "run_step_ok w w'"
  using assms by (auto simp: run_step_ok_def)

lemma run_signers_addSignature:
  "run_signers (addSignature api bls kc b w) = run_signers w"
  "g_signers (iw_global (addSignature api bls kc b w)) = g_signers (iw_global w)"
  by (simp_all add: addSignature_def Let_def run_signers_def emit_def raise_def split: sum.split)

lemma run_step_call:
  assumes "ps_signerKeyName ps = ps_signerKeyName (iw_calls w ! k)"
  shows "run_step_ok w (set_call k ps w)" and "run_step_ok w (raise x (set_call k ps w))"
    and "run_step_ok w (emit outs (set_call k ps w))" and "run_step_ok w (addSignature api bls kc b (set_call k ps w))"
  using run_signers_set_call [OF assms] addSignature_frame(1) [of api bls kc b "set_call k ps w"]
  by (auto intro!: run_step_refl simp: run_signers_addSignature)

lemma unavailable_call_step:
  assumes "session_ok api' bls' kc' td kl w" and "ps_signerKeyName ps = ps_signerKeyName (iw_calls w ! k)"
  shows "run_step_ok w (onUnavailableSigner api ossl kc prefix rnd reason u (set_call k ps w))"
proof -
  have "trusted_key (iw_container w) [] = None" "distinct (g_signers (iw_global w))"
    using assms(1) by (auto simp: session_ok_def calls_ok_def)
  then show ?thesis
    using run_step_from [OF unavailable_run_step _ _ run_signers_set_call [OF assms(2)]] by simp
qed

text \<open>A case of a handler at a time.\<close>

lemma run_step_cases:
  "run_step_ok w x \<Longrightarrow> run_step_ok w y \<Longrightarrow> run_step_ok w (if c then x else y)"
  "(\<And>a. run_step_ok w (f a)) \<Longrightarrow> (\<And>b. run_step_ok w (g b)) \<Longrightarrow> run_step_ok w (case r of Inl a \<Rightarrow> f a | Inr b \<Rightarrow> g b)"
  "(\<And>a b. run_step_ok w (h a b)) \<Longrightarrow> run_step_ok w (case q of (a, b) \<Rightarrow> h a b)"
  by (simp_all split: sum.split prod.split)

lemma onAckData_step: "run_step_ok w (onAckData api ossl kc iv k d w)"
proof (cases "parseAckReply api ossl d ((iw_calls w ! k)\<lparr>ps_phase := Ended\<rparr>)")
  case (Inl e)
  then show ?thesis by (cases e) (simp_all add: onAckData_def Let_def run_step_call)
next
  case (Inr p)
  obtain ps ms where p: "p = (ps, ms)" by fastforce
  have "ps_signerKeyName ps = ps_signerKeyName (iw_calls w ! k)"
    using parseAckReply_key [OF Inr [unfolded p]] by simp
  then show ?thesis
    unfolding onAckData_def Let_def Inr p sum.case prod.case by (intro run_step_cases run_step_call) simp_all
qed

lemma onResultData_step:
  assumes "session_ok api' bls' kc' td kl w"
  shows "run_step_ok w (onResultData api bls ossl kc prefix rnd k d w)"
  unfolding onResultData_def Let_def set_call_twice
  by (intro run_step_cases run_step_call unavailable_call_step [OF assms]) simp_all

text \<open>Every handler.\<close>

lemma run_step:
  assumes "session_ok api' bls' kc' td kl w"
  shows "run_step_ok w (initiator_handle api bls ossl kc prefix w e)"
proof -
  have N: "run_step_ok w (onNoReply api ossl kc prefix rnd what k w)" for rnd what k
    by (simp add: onNoReply_def Let_def unavailable_call_step [OF assms])
  show ?thesis
  proof (cases e)
    case (AckReply k r iv rnd)
    then show ?thesis using N onAckData_step by (cases r) simp_all
  next
    case (ResultTimer k)
    then show ?thesis by (auto simp: onResultTimer_def Let_def intro!: run_step_call split: sum.split)
  next
    case (ResultReply k r rnd)
    then show ?thesis using N onResultData_step [OF assms] by (cases r) simp_all
  next
    case (ParameterInterest k)
    then show ?thesis by (simp add: onParameterInterest_def run_step_refl)
  qed
qed

section \<open>What every run keeps\<close>

lemma in_container_simps [simp]:
  "iw_container (in_container c w) = c" "iw_global (in_container c w) = iw_global w"
  "iw_calls (in_container c w) = iw_calls w" "iw_sent (in_container c w) = iw_sent w"
  "in_container d (in_container c w) = in_container d w" "in_container (iw_container w) w = w"
  "run_signers (in_container c w) = run_signers w"
  by (simp_all add: in_container_def run_signers_def)

lemma failures_ok_container [simp]: "failures_ok (in_container c w) = failures_ok w"
  by (simp add: failures_ok_def failures_def ended_calls_def in_container_def)

lemma session_ok_container:
  assumes "session_ok api bls kc td kl w" and "trusted_key c [] = None"
  shows "session_ok api bls kc td kl (in_container c w)"
proof -
  have "calls_ok (in_container c w)"
    using assms by (simp add: session_ok_def calls_ok_def)
  moreover have "successes (in_container c w) = successes w" "failures (in_container c w) = failures w"
    "hopeless (in_container c w) = hopeless w"
    by (simp_all add: successes_def failures_def hopeless_def)
  ultimately show ?thesis using assms(1) by (simp add: session_ok_def)
qed

definition runs_ok ::
  "('c, 'z) packet_api_scheme \<Rightarrow> ('sk, 'pk, 'sig, 'y) bls_api_scheme \<Rightarrow> ('c, 'x) keychain_api_scheme \<Rightarrow> 'c name \<Rightarrow>
   ('c, 'pk, 'priv) runs_world \<Rightarrow> bool" where
  "runs_ok api bls kc prefix w \<longleftrightarrow> trusted_key (rs_container w) [] = None \<and> length (rs_asked w) = length (rs_runs w) \<and>
     (\<forall>j < length (rs_runs w). session_ok api bls kc (unfinished api (fst (rs_asked w ! j)) (snd (rs_asked w ! j)) prefix)
        (info_name api (fst (rs_asked w ! j)) (snd (rs_asked w ! j)) prefix)
        (in_container (rs_container w) (rs_runs w ! j)))"

text \<open>The signers that a run may have: those it had before, and those that could be selected since.\<close>

definition signers_before :: "('c, 'pk, 'priv) runs_world \<Rightarrow> nat \<Rightarrow> 'c name set" where
  "signers_before w j = (if j < length (rs_runs w) then run_signers (rs_runs w ! j) else {})"

definition runs_told :: "('c, 'pk, 'priv) runs_world \<Rightarrow> bool" where
  "runs_told w \<longleftrightarrow> (\<forall>v \<in> set (rs_runs w). failures_ok v)"

definition runs_grow :: "('c::linorder, 'pk, 'priv) runs_world \<Rightarrow> ('c, 'pk, 'priv) runs_world \<Rightarrow> bool" where
  "runs_grow w w' \<longleftrightarrow> container_grows (rs_container w) (rs_container w') \<and>
     (\<forall>j. signers_before w' j \<subseteq> signers_before w j \<union> Collect (usable (rs_container w)))"

lemma runs_grow_refl: "runs_grow w w"
  by (simp add: runs_grow_def)

lemma usable_antimono: "container_grows c d \<Longrightarrow> usable d n \<Longrightarrow> usable c n"
  by (auto simp: usable_def grows_trusted container_grows_def)

lemma runs_grow_trans: "runs_grow w v \<Longrightarrow> runs_grow v u \<Longrightarrow> runs_grow w u"
  unfolding runs_grow_def using container_grows_trans usable_antimono by blast

lemma multiPartySign_run_signers:
  assumes "multiPartySign api ossl kc prefix r rnd c ud schema key = Inr w"
  shows "run_signers w \<subseteq> Collect (usable c)" and "iw_container w = c"
proof -
  obtain signers w0 where w: "getAvailableSigners api c schema = Inr signers"
    "w = performRPCs api ossl kc prefix rnd signers w0" "iw_calls w0 = []" "g_signers (iw_global w0) = signers" "iw_container w0 = c"
  proof -
    obtain signers where sel: "getAvailableSigners api c schema = Inr signers"
      using assms by (auto simp: multiPartySign_def res_bind_Inr_iff)
    obtain td si where "prepareUnfinishedDataAndInfoData api r ud prefix = (td, si)" by force
    with assms show thesis using sel by (intro that [OF sel]) (auto simp: multiPartySign_def Let_def)
  qed
  have "run_signers w \<subseteq> set signers"
    using performRPCs_calls [of _ api ossl kc prefix rnd signers w0] performRPCs_shape [of api ossl kc prefix rnd signers w0]
    by (fastforce simp: run_signers_def w(2,3,4))
  then show "run_signers w \<subseteq> Collect (usable c)"
    using selection_sound(3) [OF w(1)] by (auto simp: from_patterns_def)
  show "iw_container w = c"
    using performRPCs_shape [of api ossl kc prefix rnd signers w0] w(2,5) by auto
qed

text \<open>A step of one run, in the object.\<close>

lemma in_run_step:
  fixes w :: "('c::linorder, 'pk, 'priv) runs_world"
  assumes "runs_ok api bls kc prefix w" and "runs_enabled w (InRun j e)"
  shows "runs_ok api bls kc prefix (runs_handle api bls ossl kc prefix w (InRun j e)) \<and>
    runs_grow w (runs_handle api bls ossl kc prefix w (InRun j e)) \<and>
    (runs_told w \<longrightarrow> runs_told (runs_handle api bls ossl kc prefix w (InRun j e)))"
proof -
  let ?v = "in_container (rs_container w) (rs_runs w ! j)"
  let ?v' = "initiator_handle api bls ossl kc prefix ?v e"
  let ?td = "\<lambda>k. unfinished api (fst (rs_asked w ! k)) (snd (rs_asked w ! k)) prefix"
  let ?kl = "\<lambda>k. info_name api (fst (rs_asked w ! k)) (snd (rs_asked w ! k)) prefix"
  have ok: "session_ok api bls kc (?td k) (?kl k) (in_container (rs_container w) (rs_runs w ! k))"
    if "k < length (rs_runs w)" for k
    using assms(1) that by (simp add: runs_ok_def)
  have j: "j < length (rs_runs w)" and "initiator_enabled (rs_runs w ! j) e" using assms(2) by simp_all
  then have en: "initiator_enabled ?v e" by (cases e) (simp_all add: blocked_def)
  have step: "container_grows (rs_container w) (iw_container ?v')"
    "run_signers ?v' \<subseteq> run_signers (rs_runs w ! j) \<union> Collect (usable (rs_container w))"
    using run_step [OF ok [OF j], of api bls ossl kc prefix e] by (simp_all add: run_step_ok_def)
  have new: "session_ok api bls kc (?td j) (?kl j) ?v'"
    by (rule initiator_run.preserved [OF ok [OF j] en])
  have w': "runs_handle api bls ossl kc prefix w (InRun j e) =
      w\<lparr>rs_container := iw_container ?v', rs_runs := (rs_runs w)[j := ?v']\<rparr>"
    by (simp add: Let_def)
  have "session_ok api bls kc (?td k) (?kl k) (in_container (iw_container ?v') ((rs_runs w)[j := ?v'] ! k))"
    if "k < length (rs_runs w)" for k
    using new session_ok_container [OF ok [OF that], of "iw_container ?v'"] assms(1) that
    by (cases "k = j") (simp_all add: runs_ok_def grows_trusted [OF step(1)])
  then have "runs_ok api bls kc prefix (runs_handle api bls ossl kc prefix w (InRun j e))"
    using assms(1) unfolding w' runs_ok_def by (simp add: grows_trusted [OF step(1)])
  moreover have "runs_grow w (runs_handle api bls ossl kc prefix w (InRun j e))"
    unfolding w' runs_grow_def signers_before_def using step(1,2) j by (simp add: nth_list_update)
  moreover have "runs_told w \<longrightarrow> runs_told (runs_handle api bls ossl kc prefix w (InRun j e))"
    unfolding w' runs_told_def using failures_ok_step [OF _ en] j
    by (auto simp: failures_ok_container dest!: subsetD [OF set_update_subset_insert])
  ultimately show ?thesis by blast
qed

lemma start_run_step:
  fixes w :: "('c::linorder, 'pk, 'priv) runs_world"
  assumes "runs_ok api bls kc prefix w"
  shows "runs_ok api bls kc prefix (runs_handle api bls ossl kc prefix w (MultiPartySign r rnd ud schema key)) \<and>
    runs_grow w (runs_handle api bls ossl kc prefix w (MultiPartySign r rnd ud schema key)) \<and>
    (runs_told w \<longrightarrow> runs_told (runs_handle api bls ossl kc prefix w (MultiPartySign r rnd ud schema key)))"
proof (cases "multiPartySign api ossl kc prefix r rnd (rs_container w) ud schema key :: ('c, 'pk, 'priv) initiator_world res")
  case (Inl e)
  then show ?thesis using assms by (simp add: runs_ok_def runs_grow_def runs_told_def signers_before_def)
next
  case (Inr v)
  have "session_ok api bls kc (unfinished api r ud prefix) (info_name api r ud prefix) v"
    using assms by (intro multiPartySign_ok [OF Inr]) (simp add: runs_ok_def)
  then have "session_ok api bls kc (unfinished api r ud prefix) (info_name api r ud prefix) (in_container (rs_container w) v)"
    using multiPartySign_run_signers(2) [OF Inr] by (metis in_container_simps(6))
  then show ?thesis
    using assms Inr multiPartySign_run_signers(1) [OF Inr] failures_ok_start [OF Inr]
    by (auto simp: runs_ok_def runs_grow_def runs_told_def signers_before_def nth_append less_Suc_eq)
qed

lemma write_step:
  assumes "runs_ok api bls kc prefix w" and "writes_container e" and "runs_enabled w e"
  shows "runs_ok api bls kc prefix (runs_handle api bls ossl kc prefix w e) \<and>
    (runs_told w \<longrightarrow> runs_told (runs_handle api bls ossl kc prefix w e))"
proof -
  have keep: "runs_ok api bls kc prefix (w\<lparr>rs_container := c\<rparr>)" if "trusted_key c [] = None" for c
    using assms(1) session_ok_container [OF _ that] that by (fastforce simp: runs_ok_def)
  have "trusted_key (resetCachedUnavailableSigners (rs_container w)) [] = None"
    using assms(1) by (simp add: runs_ok_def trusted_key_def resetCachedUnavailableSigners_def)
  with keep assms(2,3) show ?thesis
    by (cases e) (auto simp: writable_def runs_told_def)
qed

lemma runs_step:
  assumes "runs_ok api bls kc prefix w" and "runs_enabled w e"
  shows "runs_ok api bls kc prefix (runs_handle api bls ossl kc prefix w e) \<and>
    (\<not> writes_container e \<longrightarrow> runs_grow w (runs_handle api bls ossl kc prefix w e)) \<and>
    (runs_told w \<longrightarrow> runs_told (runs_handle api bls ossl kc prefix w e))"
proof (cases "writes_container e")
  case True
  then show ?thesis using write_step [OF assms(1) True assms(2)] by blast
next
  case False
  show ?thesis
  proof (cases e)
    case (MultiPartySign r rnd ud schema key)
    show ?thesis unfolding MultiPartySign using start_run_step [OF assms(1)] by blast
  next
    case (InRun j x)
    show ?thesis unfolding InRun using in_run_step [OF assms [unfolded InRun]] by blast
  qed (use False in simp_all)
qed

interpretation initiator_runs: invariant_system runs_enabled "runs_handle api bls ossl kc prefix"
    "runs_ok api bls kc prefix"
  for api :: "('c::linorder, 'z) packet_api_scheme" and bls :: "('sk, 'pk, 'sig, 'y) bls_api_scheme"
    and ossl :: "('priv, 'o) ossl_api_scheme" and kc :: "('c, 'x) keychain_api_scheme" and prefix :: "'c name"
  by unfold_locales (rule runs_step [THEN conjunct1])

interpretation told_runs: invariant_system runs_enabled "runs_handle api bls ossl kc prefix"
    "\<lambda>w. runs_ok api bls kc prefix w \<and> runs_told w"
  for api :: "('c::linorder, 'z) packet_api_scheme" and bls :: "('sk, 'pk, 'sig, 'y) bls_api_scheme"
    and ossl :: "('priv, 'o) ossl_api_scheme" and kc :: "('c, 'x) keychain_api_scheme" and prefix :: "'c name"
  by unfold_locales (use runs_step in blast)

interpretation undisturbed_runs: history_system "\<lambda>w e. runs_enabled w e \<and> \<not> writes_container e"
    "runs_handle api bls ossl kc prefix" "runs_ok api bls kc prefix" runs_grow
  for api :: "('c::linorder, 'z) packet_api_scheme" and bls :: "('sk, 'pk, 'sig, 'y) bls_api_scheme"
    and ossl :: "('priv, 'o) ossl_api_scheme" and kc :: "('c, 'x) keychain_api_scheme" and prefix :: "'c name"
proof (unfold_locales, goal_cases)
  case (1 w e)
  then show ?case using runs_step [THEN conjunct1] by blast
next
  case (2 w)
  show ?case by (rule runs_grow_refl)
next
  case (3 w v u)
  then show ?case by (rule runs_grow_trans)
next
  case (4 w e)
  then show ?case using runs_step by blast
qed

lemma runs_reachable:
  assumes "exec runs_enabled (runs_handle api bls ossl kc prefix) (runs_start c) es w" and "trusted_key c [] = None"
  shows "runs_ok api bls kc prefix w"
  by (rule initiator_runs.exec_inv [OF assms(1)]) (simp add: runs_ok_def runs_start_def assms(2))

section \<open>What an initiator guarantees\<close>

text \<open>
  C9: runs do not disturb each other. However the calls of \<^verbatim>\<open>multiPartySign\<close> on one initiator and
  the events of its runs are interleaved, and whatever the application does to the container,
  the success callback of a call is called at most once, and only with the call's own packet and one
  piece of every signer on its list; the success callback is never called in a run where the failure callback has
  been called, nor the failure callback after success. The failure callback itself may be called
  more than once: at most once for every remote call of the run that has ended without a piece, or
  once when there were no signers to call.
\<close>

theorem several_runs_outcome:
  assumes "exec runs_enabled (runs_handle api bls ossl kc prefix) (runs_start c) es w" and "trusted_key c [] = None"
    and "j < length (rs_runs w)"
  shows "length (successes (rs_runs w ! j)) \<le> 1 \<and> (successes (rs_runs w ! j) = [] \<or> failures (rs_runs w ! j) = []) \<and>
    length (failures (rs_runs w ! j)) \<le> max 1 (ended_calls (rs_runs w ! j)) \<and>
    (\<forall>d i. (d, i) \<in> set (successes (rs_runs w ! j)) \<longrightarrow>
       d\<lparr>d_sigValue := []\<rparr> = unfinished api (fst (rs_asked w ! j)) (snd (rs_asked w ! j)) prefix \<and>
       ndnBLSAggregateSignature_bufs bls (g_fetchedSignatures (iw_global (rs_runs w ! j))) = Inr (d_sigValue d) \<and>
       mset (g_fetchedSignatures (iw_global (rs_runs w ! j))) = mset (pieces (iw_calls (rs_runs w ! j))) \<and>
       distinct (delivered (iw_calls (rs_runs w ! j))) \<and> distinct (g_signers (iw_global (rs_runs w ! j))) \<and>
       set (delivered (iw_calls (rs_runs w ! j))) = set (g_signers (iw_global (rs_runs w ! j))))"
proof -
  have "session_ok api bls kc (unfinished api (fst (rs_asked w ! j)) (snd (rs_asked w ! j)) prefix)
      (info_name api (fst (rs_asked w ! j)) (snd (rs_asked w ! j)) prefix) (in_container (rs_container w) (rs_runs w ! j))"
    using runs_reachable [OF assms(1,2)] assms(3) by (simp add: runs_ok_def)
  note outcome = session_outcome [OF this]
  have "runs_told w"
    using told_runs.exec_inv [OF assms(1)] by (simp add: runs_ok_def runs_told_def runs_start_def assms(2))
  then have "failures_ok (rs_runs w ! j)" using assms(3) by (simp add: runs_told_def)
  then have "length (failures (rs_runs w ! j)) \<le> max 1 (ended_calls (rs_runs w ! j))"
    by (auto simp: failures_ok_def split: if_splits)
  with outcome show ?thesis by (auto simp: successes_def failures_def)
qed

text \<open>
  C25: a lost signer is not asked again. Once a run has marked a signer unavailable, no run of the
  same initiator that starts later, and no replacement in a run that did not have it, lists it or
  calls it, as long as the application leaves the container alone.
\<close>

theorem lost_signer_avoided:
  assumes "exec runs_enabled (runs_handle api bls ossl kc prefix) (runs_start c) es w" and "trusted_key c [] = None"
    and "u \<in> set (m_unavailableSigners (rs_container w))"
    and "exec runs_enabled (runs_handle api bls ossl kc prefix) w fs w'" and "list_all (\<lambda>e. \<not> writes_container e) fs"
    and "j < length (rs_runs w')" and "j < length (rs_runs w) \<longrightarrow> u \<notin> run_signers (rs_runs w ! j)"
  shows "u \<notin> run_signers (rs_runs w' ! j) \<and> u \<in> set (m_unavailableSigners (rs_container w'))"
proof -
  have "runs_grow w w'"
    by (rule undisturbed_runs.exec_rel [OF exec_restrict [OF assms(4,5)] runs_reachable [OF assms(1,2)]])
  then have "signers_before w' j \<subseteq> signers_before w j \<union> Collect (usable (rs_container w))"
    "container_grows (rs_container w) (rs_container w')"
    unfolding runs_grow_def by blast+
  then have "run_signers (rs_runs w' ! j) \<subseteq> signers_before w j \<union> Collect (usable (rs_container w))"
    "container_grows (rs_container w) (rs_container w')"
    using assms(6) by (simp_all add: signers_before_def [of w'])
  moreover have "u \<notin> signers_before w j" using assms(7) by (simp add: signers_before_def)
  moreover have "\<not> usable (rs_container w) u" using assms(3) by (simp add: usable_def)
  ultimately show ?thesis using assms(3) unfolding container_grows_def by blast
qed

text \<open>An execution of one run is one of the object: it leaves the other runs as they are.\<close>

lemma run_in_object:
  fixes w :: "('c::linorder, 'pk, 'priv) runs_world"
  assumes "exec initiator_enabled (initiator_handle api bls ossl kc prefix) v es v'"
    and "j < length (rs_runs w)" and "in_container (rs_container w) (rs_runs w ! j) = v"
    and "\<forall>k < length (rs_runs w). k \<noteq> j \<longrightarrow> \<not> blocked (rs_runs w ! k)"
  shows "\<exists>w'. exec runs_enabled (runs_handle api bls ossl kc prefix) w (map (InRun j) es) w' \<and>
    in_container (rs_container w') (rs_runs w' ! j) = v' \<and> length (rs_runs w') = length (rs_runs w) \<and>
    rs_asked w' = rs_asked w \<and> (\<forall>k < length (rs_runs w). k \<noteq> j \<longrightarrow> rs_runs w' ! k = rs_runs w ! k)"
  using assms
proof (induction arbitrary: w rule: exec.induct)
  case (exec_nil v)
  then show ?case by (intro exI [of _ w]) simp
next
  case (exec_cons v e es v')
  define w1 where "w1 = runs_handle api bls ossl kc prefix w (InRun j e)"
  have w1: "w1 = w\<lparr>rs_container := iw_container (initiator_handle api bls ossl kc prefix v e),
      rs_runs := (rs_runs w)[j := initiator_handle api bls ossl kc prefix v e]\<rparr>"
    by (simp add: w1_def exec_cons.prems(2) Let_def)
  have "\<not> blocked v" using exec_cons.hyps(1) by (cases e) simp_all
  then have "\<not> blocked (rs_runs w ! k)" if "k < length (rs_runs w)" for k
    using exec_cons.prems that by (cases "k = j") (auto simp: blocked_def)
  moreover have "initiator_enabled (rs_runs w ! j) e"
    using exec_cons.hyps(1) exec_cons.prems(2) by (cases e) (auto simp: blocked_def)
  ultimately have en: "runs_enabled w (InRun j e)"
    using exec_cons.prems(1) by (simp add: list_ex_length)
  have "\<exists>w'. exec runs_enabled (runs_handle api bls ossl kc prefix) w1 (map (InRun j) es) w' \<and>
      in_container (rs_container w') (rs_runs w' ! j) = v' \<and> length (rs_runs w') = length (rs_runs w1) \<and>
      rs_asked w' = rs_asked w1 \<and> (\<forall>k < length (rs_runs w1). k \<noteq> j \<longrightarrow> rs_runs w' ! k = rs_runs w1 ! k)"
    using exec_cons.prems by (intro exec_cons.IH) (simp_all add: w1)
  then show ?case using en by (auto simp: w1 w1_def [symmetric] simp del: runs_handle.simps runs_enabled.simps)
qed

lemma new_run_succeeds:
  fixes w :: "('c::linorder, 'pk, 'priv) runs_world"
  assumes "tlv_laws api" and "packet_laws api" and "ossl_laws ossl" and "keychain_laws kc"
    and "exec runs_enabled (runs_handle api bls ossl kc prefix) (runs_start c) es w" and "trusted_key c [] = None"
    and "\<not> list_ex blocked (rs_runs w)"
    and "getAvailableSigners api (rs_container w) schema = Inr signers" and "signers \<noteq> []"
  shows "\<exists>fs w' d i. exec runs_enabled (runs_handle api bls ossl kc prefix) w (MultiPartySign r rnd ud schema key # fs) w' \<and>
    successes (rs_runs w' ! length (rs_runs w)) = [(d, i)] \<and> d\<lparr>d_sigValue := []\<rparr> = unfinished api r ud prefix \<and>
    (\<forall>k < length (rs_runs w). rs_runs w' ! k = rs_runs w ! k) \<and> length (rs_runs w') = Suc (length (rs_runs w))"
proof -
  have "\<exists>v :: ('c, 'pk, 'priv) initiator_world. multiPartySign api ossl kc prefix r rnd (rs_container w) ud schema key = Inr v"
    by (simp add: multiPartySign_def assms(8) Let_def split: prod.split)
  then obtain v :: "('c, 'pk, 'priv) initiator_world"
    where v: "multiPartySign api ossl kc prefix r rnd (rs_container w) ud schema key = Inr v" ..
  have signers: "g_signers (iw_global v) = signers" using multiPartySign_signers [OF v] assms(8) by simp
  obtain gs v' where E: "exec initiator_enabled (initiator_handle api bls ossl kc prefix) v gs v'" "succeeded (\<lambda>_. []) signers v'"
    using honest_run [OF assms(1-4) v, of bls "\<lambda>_. []"] assms(9) signers by auto
  define w1 where "w1 = w\<lparr>rs_runs := rs_runs w @ [v], rs_asked := rs_asked w @ [(r, ud)]\<rparr>"
  have own: "in_container (rs_container w) v = v"
    using multiPartySign_run_signers(2) [OF v] in_container_simps(6) [of v] by simp
  have free: "\<not> blocked (rs_runs w ! k)" if "k < length (rs_runs w)" for k
    using assms(7) that by (auto simp: list_ex_length)
  obtain w' where w': "exec runs_enabled (runs_handle api bls ossl kc prefix) w1 (map (InRun (length (rs_runs w))) gs) w'"
    "in_container (rs_container w') (rs_runs w' ! length (rs_runs w)) = v'"
    "\<forall>k < length (rs_runs w1). k \<noteq> length (rs_runs w) \<longrightarrow> rs_runs w' ! k = rs_runs w1 ! k"
    "length (rs_runs w') = Suc (length (rs_runs w))"
    using run_in_object [OF E(1), of "length (rs_runs w)" w1] own free by (auto simp: w1_def nth_append)
  have "session_ok api bls kc (unfinished api r ud prefix) (info_name api r ud prefix) v'"
    using runs_reachable [OF assms(5,6)]
    by (intro initiator_run.exec_inv [OF E(1)] multiPartySign_ok [OF v]) (simp add: runs_ok_def)
  then obtain d i where "successes v' = [(d, i)]" "d\<lparr>d_sigValue := []\<rparr> = unfinished api r ud prefix"
    using E(2) by (auto simp: session_ok_def succeeded_def)
  moreover have "successes (rs_runs w' ! length (rs_runs w)) = successes v'"
    unfolding w'(2) [symmetric] by (simp add: successes_def)
  moreover have "exec runs_enabled (runs_handle api bls ossl kc prefix) w
      (MultiPartySign r rnd ud schema key # map (InRun (length (rs_runs w))) gs) w'"
    using w'(1) v assms(7) by (simp add: w1_def)
  moreover have "\<forall>k < length (rs_runs w). rs_runs w' ! k = rs_runs w ! k"
    using w'(3) by (auto simp: w1_def nth_append)
  moreover note w'(4)
  ultimately show ?thesis
    by (intro exI [of _ "map (InRun (length (rs_runs w))) gs"] exI [of _ w'] exI [of _ d] exI [of _ i] conjI) (simp | assumption)+
qed

text \<open>
  C6: a new call can always succeed. In whatever state the runs of an initiator are, as long as
  its event loop does not hang, a call of \<^verbatim>\<open>multiPartySign\<close> that selects signers starts a run
  which succeeds with its own packet when they all answer; the other runs stay as they are.
\<close>

theorem new_run_completes:
  fixes w :: "('c::linorder, 'pk, 'priv) runs_world"
  assumes "tlv_laws api" and "packet_laws api" and "ossl_laws ossl" and "keychain_laws kc"
    and "exec runs_enabled (runs_handle api bls ossl kc prefix) (runs_start c) es w" and "trusted_key c [] = None"
    and "\<not> list_ex blocked (rs_runs w)"
    and "getAvailableSigners api (rs_container w) schema = Inr signers" and "signers \<noteq> []"
  shows "\<exists>fs w' d i. exec runs_enabled (runs_handle api bls ossl kc prefix) w (MultiPartySign r rnd ud schema key # fs) w' \<and>
    successes (rs_runs w' ! length (rs_runs w)) = [(d, i)] \<and> d\<lparr>d_sigValue := []\<rparr> = unfinished api r ud prefix \<and>
    (\<forall>k < length (rs_runs w). rs_runs w' ! k = rs_runs w ! k)"
  using new_run_succeeds [OF assms] by blast

end
