(* ===== verification/Run_Witnesses.thy ===== *)
theory Run_Witnesses
  imports Component_Witnesses Initiator_Runs
begin

text \<open>
  Concrete runs of the signer and of the initiator, for their properties: one request of a signer
  that accepts everything, and the run that selects the signers of \<open>demo_schema\<close>.
\<close>

section \<open>The signer\<close>

definition demo_signer :: "(gcomp, nat, nat) bls_signer" where
  "demo_signer = \<lparr>m_verifyToBeSignedCallback = (\<lambda>_. True), m_verifySignRequestCallback = (\<lambda>_. True),
     m_sk = 1, m_pk = 1, m_keyName = key ''s'' ''1'', m_prefix = [GComp 8 ''s'']\<rparr>"

abbreviation "demo_signer_exec \<equiv>
  exec signer_enabled (signer_handle demo demo_bls demo_ossl demo_keychain demo_signer)"

lemma demo_request:
  obtains e w rq where "demo_signer_exec signer_start [e] w" "sw_requests w = [rq]" "rq_fetching rq"
    "m_code (rq_state rq) = Processing" "m_signatureValue (rq_state rq) = []" "length (m_aesKey (rq_state rq)) = 16"
    "m_resultPrefixHandle (rq_state rq)" "length (rq_resultPrefix rq) = 4" "m_version (rq_state rq) = 0"
proof -
  define rr where "rr = \<lparr>rr_ecdh = 5, rr_salt = (\<lambda>_. 1), rr_requestId = 9, rr_iv = (\<lambda>_. 2)\<rparr>"
  define ps where "ps = \<lparr>ps_signerKeyName = key ''s'' ''1'', ps_ecdh = \<lparr>m_privkey = 3 :: nat, m_pubKey = [], m_secret = []\<rparr>,
    ps_aesKey = [], ps_hmacKey = [], ps_paraData = new_data [], ps_paraDataReady = False, ps_nextResultName = [],
    ps_paraPrefixHandle = True, ps_phase = AwaitAck\<rparr>"
  define i where "i = (new_interest [GComp 2 ''digest''])\<lparr>i_appParams := block_with demo 36
    [nested_block demo tlv_ParameterDataName (name_wire demo (key ''p'' ''1'')), Blk tlv_EcdhPub (ossl_pub demo_ossl (m_privkey (ps_ecdh ps)))]\<rparr>"
  have p: "i_appParams i = block_with demo 36
    [nested_block demo tlv_ParameterDataName (name_wire demo (key ''p'' ''1'')), Blk tlv_EcdhPub (ossl_pub demo_ossl (m_privkey (ps_ecdh ps)))]"
    and c: "m_verifySignRequestCallback demo_signer i" "interest_digest_valid demo i"
    by (simp_all add: i_def demo_signer_def new_interest_def)
  obtain st ack where r: "onSignRequest demo demo_bls demo_ossl demo_signer rr i [] =
      ([] @ [\<lparr>rq_resultPrefix = result_name demo (m_prefix demo_signer) (rr_requestId rr), rq_state = st, rq_fetching = True\<rparr>],
       [RegisterFilter (result_name demo (m_prefix demo_signer) (rr_requestId rr)), PutData ack,
        FetchParameter ((new_interest (key ''p'' ''1''))\<lparr>i_canBePrefix := True, i_mustBeFresh := True, i_lifetime := TIMEOUT\<rparr>)], None)"
    "length (m_aesKey st) = 16" "m_code st = Processing" "m_version st = 0" "m_signatureValue st = []" "m_resultPrefixHandle st"
    using handshake_step [OF bls_laws_demo tlv_laws_demo packet_laws_demo ossl_laws_demo p c, of rr "[]"] by metis
  show ?thesis
    by (rule that [of "SignRequest rr i" "signer_handle demo demo_bls demo_ossl demo_keychain demo_signer signer_start (SignRequest rr i)"
          "\<lparr>rq_resultPrefix = result_name demo (m_prefix demo_signer) (rr_requestId rr), rq_state = st, rq_fetching = True\<rparr>"])
      (use r in \<open>simp_all add: signer_start_def result_name_def demo_signer_def\<close>)
qed

text \<open>A parameter packet that carries \<open>u\<close> under the keys of a request.\<close>

lemma demo_parameters:
  assumes "length (m_aesKey st) = 16" and "d_sigInfo u \<noteq> None"
  obtains pd where "hmac_verify demo_keychain (m_hmacKey st) pd" "parseParameterData demo demo_ossl pd st = Inr u"
proof -
  obtain b es where b: "decodeBlockWithAesGcm128 demo demo_ossl b (m_aesKey st) [] = Inr (tlv_encode demo [data_wire demo u])"
    "block_parse demo b = Inr es"
    using encrypt_content [OF tlv_laws_demo packet_laws_demo ossl_laws_demo assms(1)] by metis
  obtain pd where "hmac_verify demo_keychain (m_hmacKey st) pd" "d_content pd = b"
    using hmac_signed_block [OF keychain_laws_demo, of "m_hmacKey st" "(new_data [])\<lparr>d_content := b\<rparr>"] by auto
  then show ?thesis
    using b assms(2) by (intro that [of pd]) (simp_all add: parseParameterData_def data_of_bytes [OF packet_laws_demo]
        data_of_wire [OF packet_laws_demo])
qed

abbreviation "demo_packet \<equiv> (new_data (key ''d'' ''1''))\<lparr>d_sigInfo := Some (bls_sig_info (key ''i'' ''1''))\<rparr>"

theorem signer_signs_only_approved_witness:
  "\<exists>es w rq. demo_signer_exec signer_start es w \<and> sw_requests w = [rq] \<and> m_code (rq_state rq) = OK \<and>
    m_signatureValue (rq_state rq) \<noteq> [] \<and>
    (\<exists>d. ndnGenBLSSignature_data demo demo_bls 1 d = Inr (m_signatureValue (rq_state rq)))"
proof -
  obtain e w rq where w: "demo_signer_exec signer_start [e] w" "sw_requests w = [rq]" "rq_fetching rq"
    "length (m_aesKey (rq_state rq)) = 16"
    by (rule demo_request)
  obtain pd where pd: "hmac_verify demo_keychain (m_hmacKey (rq_state rq)) pd"
    "parseParameterData demo demo_ossl pd (rq_state rq) = Inr demo_packet"
    by (rule demo_parameters [OF w(4), of demo_packet]) simp
  obtain m where m: "data_unsigned demo demo_packet = Inr m"
    using data_ranges_unsigned [OF packet_laws_demo, of demo_packet] by auto
  define v where "v = blsSignatureSerialize demo_bls encodingBuf_size (blsSign demo_bls 1 m)"
  have v: "ndnGenBLSSignature_data demo demo_bls 1 demo_packet = Inr v" "v \<noteq> []"
    using m by (simp_all add: ndnGenBLSSignature_data_def v_def demo_bls_def enc_pair_def enc_nat.simps [of "Suc 0"])
  let ?rq = "rq\<lparr>rq_state := (rq_state rq)\<lparr>m_code := OK, m_signatureValue := v\<rparr>, rq_fetching := False\<rparr>"
  have "\<exists>w2. demo_signer_exec signer_start ([e] @ [ParameterReply 0 (FetchedData pd)]) w2 \<and> sw_requests w2 = [?rq]"
    unfolding exec_append using w pd v by (intro exI conjI) (assumption | simp add: demo_signer_def set_code_def)+
  then obtain w2 where w2: "demo_signer_exec signer_start ([e] @ [ParameterReply 0 (FetchedData pd)]) w2" "sw_requests w2 = [?rq]"
    by blast
  have "?rq \<in> set (sw_requests w2)" by (simp add: w2(2))
  then have "\<exists>d. ndnGenBLSSignature_data demo demo_bls (m_sk demo_signer) d = Inr (m_signatureValue (rq_state ?rq))"
    using signer_signs_only_approved [OF w2(1)] v(2) by fastforce
  then have "\<exists>d. ndnGenBLSSignature_data demo demo_bls 1 d = Inr (m_signatureValue (rq_state ?rq))"
    by (simp add: demo_signer_def)
  moreover have "m_code (rq_state ?rq) = OK" "m_signatureValue (rq_state ?rq) \<noteq> []" using v(2) by simp_all
  ultimately show ?thesis using w2 by blast
qed

theorem signer_result_final_witness:
  "\<exists>es w fs w'. demo_signer_exec signer_start es w \<and> demo_signer_exec w fs w' \<and> fs \<noteq> [] \<and>
    m_code (rq_state (sw_requests w ! 0)) = FailedDependency \<and> m_code (rq_state (sw_requests w' ! 0)) = FailedDependency"
proof -
  obtain e w rq where w: "demo_signer_exec signer_start [e] w" "sw_requests w = [rq]" "rq_fetching rq"
    "m_resultPrefixHandle (rq_state rq)"
    by (rule demo_request)
  let ?w1 = "signer_handle demo demo_bls demo_ossl demo_keychain demo_signer w (ParameterReply 0 FetchNack)"
  let ?e = "ResultInterest 0 (\<lambda>_. 0) (new_interest (rq_resultPrefix rq @ key ''v'' ''h''))"
  let ?w2 = "signer_handle demo demo_bls demo_ossl demo_keychain demo_signer ?w1 ?e"
  have E: "demo_signer_exec signer_start ([e] @ [ParameterReply 0 FetchNack]) ?w1"
    unfolding exec_append using w by (intro exI conjI) (assumption | simp)+
  have w1: "sw_requests ?w1 = [set_code FailedDependency rq\<lparr>rq_fetching := False\<rparr>]" using w by (simp add: set_code_def)
  have "demo_signer_exec ?w1 [?e] ?w2"
    using w1 w(4) by (simp add: set_code_def new_interest_def del: signer_handle.simps)
  moreover have "m_code (rq_state (sw_requests ?w1 ! 0)) = FailedDependency" "0 < length (sw_requests ?w1)"
    using w1 by (simp_all add: set_code_def del: signer_handle.simps)
  ultimately show ?thesis
    using signer_result_final [OF E, of "[?e]" ?w2 0] E by (auto simp: Let_def simp del: signer_handle.simps exec_simps)
qed

theorem signer_bad_hmac_hangs_witness:
  "\<exists>es w. demo_signer_exec signer_start es w \<and> es \<noteq> [] \<and> m_code (rq_state (sw_requests w ! 0)) = Processing \<and>
    \<not> rq_fetching (sw_requests w ! 0)"
proof -
  obtain e w rq where w: "demo_signer_exec signer_start [e] w" "sw_requests w = [rq]" "rq_fetching rq"
    by (rule demo_request)
  let ?d = "(new_data [])\<lparr>d_sigValue := 0 # map byte_of_char (m_hmacKey (rq_state rq))\<rparr>"
  let ?e = "ParameterReply 0 (FetchedData ?d)"
  let ?w1 = "signer_handle demo demo_bls demo_ossl demo_keychain demo_signer w ?e"
  have bad: "\<not> hmac_verify demo_keychain (m_hmacKey (rq_state (sw_requests w ! 0))) ?d"
    using w(2) by (simp add: demo_keychain_def)
  have E1: "demo_signer_exec w [?e] ?w1" using w by (simp del: signer_handle.simps)
  have E: "demo_signer_exec signer_start ([e] @ [?e]) ?w1"
    unfolding exec_append using w(1) E1 by blast
  show ?thesis
    using signer_bad_hmac_hangs [OF w(1), of 0 ?d "[]" ?w1] bad E1 E w(2,3)
    by (auto simp del: signer_handle.simps exec_simps)
qed

theorem signer_ok_without_signature_witness:
  "\<exists>rq pd rq' e. onParameterReply demo demo_bls demo_ossl demo_keychain demo_signer (FetchedData pd) rq = (rq', Some (Throws e)) \<and>
    m_code (rq_state rq') = OK \<and> m_signatureValue (rq_state rq') = []"
proof -
  obtain e w rq where w: "demo_signer_exec signer_start [e] w" "sw_requests w = [rq]" "rq_fetching rq"
    "length (m_aesKey (rq_state rq)) = 16"
    by (rule demo_request)
  have ok: "request_ok demo demo_bls demo_signer rq"
    using signer_reachable [OF w(1)] w(2) by (simp add: signer_inv_def)
  let ?u = "new_data (key ''d'' ''1'')"
  obtain b es where b: "decodeBlockWithAesGcm128 demo demo_ossl b (m_aesKey (rq_state rq)) [] = Inr (tlv_encode demo [data_wire demo ?u])"
    "block_parse demo b = Inr es"
    using encrypt_content [OF tlv_laws_demo packet_laws_demo ossl_laws_demo w(4)] by metis
  obtain pd where pd: "hmac_verify demo_keychain (m_hmacKey (rq_state rq)) pd" "d_content pd = b"
    using hmac_signed_block [OF keychain_laws_demo, of "m_hmacKey (rq_state rq)" "(new_data [])\<lparr>d_content := b\<rparr>"] by auto
  have "data_of_block demo (data_wire demo ?u) = Inr ?u"
    using run_decoder_enc [OF codes_data, of ?u] by (simp add: demo_def)
  then have parse: "parseParameterData demo demo_ossl pd (rq_state rq) = Inr ?u"
    using b by (simp add: parseParameterData_def pd(2) data_of_bytes [OF packet_laws_demo])
  have "data_unsigned demo ?u = Inl (Throws ''no SignatureInfo'')"
    by (simp add: demo_def demo_ranges_def new_data_def)
  note none = this
  have "m_verifyToBeSignedCallback demo_signer ?u" by (simp add: demo_signer_def)
  from signer_ok_without_signature [OF ok w(3) pd(1) parse this none] show ?thesis by blast
qed

theorem onSignRequest_refuses_witness:
  "\<exists>rr ack. onSignRequest demo demo_bls demo_ossl demo_signer rr (new_interest (key ''s'' ''1'')) ([] :: (gcomp, nat) request list) =
      ([], [PutData ack], None) \<and> d_name ack = key ''s'' ''1''"
proof -
  have "\<not> interest_digest_valid demo (new_interest (key ''s'' ''1''))" by (simp add: new_interest_def key_def)
  then obtain ack where "onSignRequest demo demo_bls demo_ossl demo_signer
      \<lparr>rr_ecdh = 5, rr_salt = (\<lambda>_. 1), rr_requestId = 9, rr_iv = (\<lambda>_. 2)\<rparr> (new_interest (key ''s'' ''1'')) [] = ([], [PutData ack], None)"
    "d_name ack = i_name (new_interest (key ''s'' ''1''))"
    using onSignRequest_refuses [OF bls_laws_demo tlv_laws_demo packet_laws_demo] by blast
  then show ?thesis by (auto simp: new_interest_def)
qed

section \<open>The initiator\<close>

definition demo_random :: "nat \<Rightarrow> call_random" where
  "demo_random k = \<lparr>cr_ecdh = k, cr_param = 10 + k\<rparr>"

abbreviation "demo_start c schema \<equiv>
  multiPartySign demo demo_ossl demo_keychain [GComp 8 ''i''] 7 demo_random c (new_data (key ''data'' ''7'')) schema (key ''i'' ''1'')"

abbreviation "demo_initiator_exec \<equiv>
  exec initiator_enabled (initiator_handle demo demo_bls demo_ossl demo_keychain [GComp 8 ''i''])"

abbreviation demo_reach :: "(gcomp, nat, nat) initiator_world \<Rightarrow> bool" where
  "demo_reach \<equiv> initiator_reach demo demo_bls demo_ossl demo_keychain [GComp 8 ''i''] 7 (new_data (key ''data'' ''7''))"

text \<open>The start of a run with a given selection.\<close>

lemma demo_started:
  assumes "getAvailableSigners demo c schema = Inr signers" and "trusted_key c [] = None"
  obtains w :: "(gcomp, nat, nat) initiator_world" where "demo_start c schema = Inr w" "demo_reach w"
    "g_signers (iw_global w) = signers" "iw_container w = c" "g_schema (iw_global w) = schema"
    "length (iw_calls w) = length signers" "progress F signers 0 w"
    "\<forall>ps \<in> set (iw_calls w). ps_paraPrefixHandle ps \<and> \<not> ps_paraDataReady ps"
proof -
  have "\<exists>w :: (gcomp, nat, nat) initiator_world. demo_start c schema = Inr w"
    by (simp add: multiPartySign_def assms(1) Let_def split: prod.split)
  then obtain w :: "(gcomp, nat, nat) initiator_world" where w: "demo_start c schema = Inr w" by blast
  have "g_signers (iw_global w) = signers" using multiPartySign_signers [OF w] assms(1) by simp
  moreover have "demo_reach w"
  proof -
    have "demo_initiator_exec w [] w" by simp
    then show ?thesis unfolding initiator_reach_def using w assms(2) by blast
  qed
  moreover note run_start [OF ossl_laws_demo keychain_laws_demo w, of F]
  ultimately show ?thesis using w that by blast
qed

text \<open>The run for \<open>demo_schema\<close>, at its successful end.\<close>

lemma demo_success:
  obtains w :: "(gcomp, nat, nat) initiator_world" and d i where "demo_reach w" "successes w = [(d, i)]"
    "g_signers (iw_global w) = demo_signers"
    "\<forall>ps \<in> set (iw_calls w). ps_phase ps = Delivered (F (ps_signerKeyName ps))"
proof -
  obtain w :: "(gcomp, nat, nat) initiator_world" where w: "demo_start demo_container demo_schema = Inr w" "g_signers (iw_global w) = demo_signers"
    using demo_started [OF demo_selection demo_no_empty_name] by metis
  obtain es w' where E: "demo_initiator_exec w es w'" "succeeded F demo_signers w'"
    using honest_run [OF demo_laws w(1), where F = F and bls = demo_bls] unfolding w(2) by blast
  have R: "demo_reach w'"
    unfolding initiator_reach_def using w(1) demo_no_empty_name E(1) by blast
  from reach_ok [OF R] obtain d i where "successes w' = [(d, i)]"
    using E(2) by (auto simp: session_ok_def succeeded_def)
  with R E(2) that show ?thesis by (simp add: succeeded_def)
qed

theorem initiator_outcome_witness:
  "\<exists>w d i. demo_reach w \<and> successes w = [(d, i)] \<and> failures w = [] \<and> set (delivered (iw_calls w)) = set demo_signers"
proof -
  obtain w d i where w: "demo_reach w" "successes w = [(d, i)]" "g_signers (iw_global w) = demo_signers"
    by (rule demo_success [of "\<lambda>_. []"])
  show ?thesis using initiator_outcome [OF w(1)] w by (intro exI [of _ w] exI [of _ d] exI [of _ i]) auto
qed

theorem initiator_dead_end_witness:
  "\<exists>w e w'. demo_reach w \<and> demo_initiator_exec w [e] w' \<and> iw_sent w' = iw_sent w \<and>
    g_signers (iw_global w') = demo_signers \<and> successes w' = []"
proof -
  obtain w :: "(gcomp, nat, nat) initiator_world" where w: "demo_reach w" "g_signers (iw_global w) = demo_signers"
    "length (iw_calls w) = length demo_signers" "progress (\<lambda>_. []) demo_signers 0 w"
    by (rule demo_started [OF demo_selection demo_no_empty_name])
  let ?e = "AckReply 0 (FetchedData (new_data [] :: gcomp data)) (\<lambda>_. 0) demo_random"
  let ?w' = "initiator_handle demo demo_bls demo_ossl demo_keychain [GComp 8 ''i''] w ?e"
  have "block_parse demo (d_content (new_data [] :: gcomp data)) = Inl (Throws ''malformed'')"
    by (simp add: block_parse_def demo_def new_data_def run_decoder_def dec_list_def)
  then have d: "dead_end demo demo_ossl demo_keychain w ?e" by (simp add: parseAckReply_def)
  have "initiator_enabled w ?e" using w(3,4) by (simp add: progress_def)
  then have E: "demo_initiator_exec w [?e] ?w'" by (simp del: initiator_enabled.simps initiator_handle.simps)
  from initiator_dead_end [OF w(1) d E] w(1,2) E show ?thesis by metis
qed

abbreviation "small_container \<equiv> demo_container\<lparr>m_trustedIds := [(key ''a'' ''1'', 1)]\<rparr>"
abbreviation "one_schema \<equiv> demo_schema\<lparr>m_signers := [pat ''a'' 1], m_optionalSigners := [], m_minOptionalSigners := 0\<rparr>"

lemma small_selection: "getAvailableSigners demo small_container one_schema = Inr [key ''a'' ''1'']"
  by (simp add: policy_eval)

lemma small_replacement: "\<exists>c. replaceSigner demo small_container [key ''a'' ''1''] (key ''a'' ''1'') one_schema = (c, [], [])"
  by (simp add: policy_eval replaceSigner_def findANewKeyForPattern_def count_matching_eq)

theorem initiator_failure_final_witness:
  "\<exists>w w'. demo_reach w \<and> failures w \<noteq> [] \<and> demo_initiator_exec w [ParameterInterest 0] w' \<and> successes w' = []"
proof -
  have t: "trusted_key small_container [] = None" by (simp add: trusted_key_def)
  obtain w :: "(gcomp, nat, nat) initiator_world" where w: "demo_start small_container one_schema = Inr w"
    "g_signers (iw_global w) = [key ''a'' ''1'']" "iw_container w = small_container" "g_schema (iw_global w) = one_schema"
    "length (iw_calls w) = length [key ''a'' ''1'']" "progress (\<lambda>_. []) [key ''a'' ''1''] 0 w"
    "\<forall>ps \<in> set (iw_calls w). ps_paraPrefixHandle ps \<and> \<not> ps_paraDataReady ps"
    using demo_started [OF small_selection t] by metis
  obtain ps where c: "iw_calls w = [ps]" using w(5) by (auto simp: length_Suc_conv)
  have ps: "ps_signerKeyName ps = key ''a'' ''1''" "ps_phase ps = AwaitAck" "\<not> blocked w" "ps_paraPrefixHandle ps"
    using w(6,7) c by (simp_all add: progress_def)
  obtain c' where rep: "replaceSigner demo small_container [key ''a'' ''1''] (key ''a'' ''1'') one_schema = (c', [], [])"
    using small_replacement by blast
  let ?e = "AckReply 0 FetchTimeout (\<lambda>_. 0) demo_random"
  define w1 where "w1 = initiator_handle demo demo_bls demo_ossl demo_keychain [GComp 8 ''i''] w ?e"
  have E: "demo_initiator_exec w [?e] w1"
    using c ps by (simp add: w1_def del: initiator_handle.simps)
  obtain msg where w1: "w1 = (set_call 0 (ps\<lparr>ps_phase := Ended\<rparr>) w)\<lparr>iw_container := c', iw_sent := iw_sent w @ [FailureCb msg]\<rparr>"
    using rep c ps(1) w(2,3,4) by (simp add: w1_def onNoReply_def Let_def onUnavailableSigner_def) (simp add: set_call_def)
  have reach: "demo_reach w1"
    unfolding initiator_reach_def using w(1) t E by blast
  have f: "failures w1 \<noteq> []" by (simp add: w1 failures_def)
  define w2 where "w2 = initiator_handle demo demo_bls demo_ossl demo_keychain [GComp 8 ''i''] w1 (ParameterInterest 0)"
  have "initiator_enabled w1 (ParameterInterest 0)"
    using ps c by (simp add: w1 set_call_def blocked_def)
  then have E2: "demo_initiator_exec w1 [ParameterInterest 0] w2"
    by (simp add: w2_def del: initiator_enabled.simps initiator_handle.simps)
  from initiator_failure_final [OF reach f E2] reach f E2 show ?thesis by blast
qed

theorem initiator_deadlock_witness:
  "\<exists>w w' e. demo_reach w \<and> demo_initiator_exec w [ParameterInterest 0] w' \<and> iw_sent w' = iw_sent w @ [WaitForever] \<and>
    e = ResultTimer 0 \<and> \<not> initiator_enabled w' e"
proof -
  obtain w :: "(gcomp, nat, nat) initiator_world" where w: "demo_reach w"
    "length (iw_calls w) = length demo_signers" "progress (\<lambda>_. []) demo_signers 0 w"
    "\<forall>ps \<in> set (iw_calls w). ps_paraPrefixHandle ps \<and> \<not> ps_paraDataReady ps"
    by (rule demo_started [OF demo_selection demo_no_empty_name])
  have en: "initiator_enabled w (ParameterInterest 0)" "\<not> ps_paraDataReady (iw_calls w ! 0)"
    using w(2-4) by (simp_all add: progress_def)
  let ?w' = "initiator_handle demo demo_bls demo_ossl demo_keychain [GComp 8 ''i''] w (ParameterInterest 0)"
  have E: "demo_initiator_exec w [ParameterInterest 0] ?w'"
    using en(1) by (simp del: initiator_enabled.simps initiator_handle.simps)
  from initiator_deadlock [OF en E] w(1) E show ?thesis by blast
qed

abbreviation "pair_schema \<equiv> demo_schema\<lparr>m_signers := [pat ''b'' 1], m_optionalSigners := [pat ''c'' 1], m_minOptionalSigners := 0\<rparr>"
abbreviation "pair_signers \<equiv> [key ''b'' ''1'', key ''c'' ''1'']"

lemma pair_selection: "getAvailableSigners demo demo_container pair_schema = Inr pair_signers"
  by (simp add: policy_eval)

lemma pair_replacement:
  "\<exists>c. replaceSigner demo demo_container pair_signers (key ''c'' ''1'') pair_schema = (c, [key ''b'' ''1''], [])"
  by (simp add: policy_eval replaceSigner_def findANewKeyForPattern_def count_matching_eq)

text \<open>The second signer does not answer, after the first has delivered.\<close>

theorem initiator_misses_completion_witness:
  "\<exists>w e w'. demo_reach w \<and> demo_initiator_exec w [e] w' \<and> g_signers (iw_global w') = [key ''b'' ''1''] \<and>
    set (delivered (iw_calls w')) = {key ''b'' ''1''} \<and> successes w' = []"
proof -
  obtain w :: "(gcomp, nat, nat) initiator_world" where w: "demo_start demo_container pair_schema = Inr w"
    "iw_container w = demo_container" "g_schema (iw_global w) = pair_schema"
    "length (iw_calls w) = length pair_signers" "progress (\<lambda>_. []) pair_signers 0 w"
    using demo_started [OF pair_selection demo_no_empty_name] by metis
  obtain es w1 where E1: "demo_initiator_exec w es w1"
    and w1: "if Suc 0 < length (iw_calls w) then progress (\<lambda>_. []) pair_signers (Suc 0) w1 else succeeded (\<lambda>_. []) pair_signers w1"
      "length (iw_calls w1) = length (iw_calls w)" "iw_container w1 = iw_container w" "g_schema (iw_global w1) = g_schema (iw_global w)"
    by (rule progress_step [OF demo_laws w(5)]) (use w(4) in simp)
  have p1: "\<not> blocked w1" "g_signers (iw_global w1) = pair_signers" "map ps_signerKeyName (iw_calls w1) = pair_signers"
    "length (g_fetchedSignatures (iw_global w1)) = 1" "ps_phase (iw_calls w1 ! 1) = AwaitAck" "1 < length (iw_calls w1)"
    using w1(1,2) w(4) by (simp_all add: progress_def)
  have name: "ps_signerKeyName (iw_calls w1 ! 1) = key ''c'' ''1''"
    using arg_cong [OF p1(3), of "\<lambda>xs. xs ! 1"] p1(6) by simp
  obtain fs w2 ps where E2: "demo_initiator_exec w1 fs w2"
    and w2: "iw_calls w2 = (iw_calls w1)[1 := ps]" "iw_global w2 = iw_global w1" "iw_container w2 = iw_container w1"
      "ps_phase ps = AwaitResult" "ps_signerKeyName ps = key ''c'' ''1''" "\<not> blocked w2"
    by (rule call_to_result [OF demo_laws p1(6,5,1), unfolded name])
  have "demo_initiator_exec w (es @ fs) w2" unfolding exec_append using E1 E2 by blast
  then have reach: "demo_reach w2"
    unfolding initiator_reach_def using w(1) demo_no_empty_name by blast
  let ?e = "ResultReply 1 FetchTimeout demo_random"
  have call: "iw_calls w2 ! 1 = ps" using p1(6) by (simp add: w2(1))
  have en: "initiator_enabled w2 ?e" using p1(6) w2 by simp
  obtain c where rep: "replaceSigner demo (iw_container w2) (g_signers (iw_global w2)) (ps_signerKeyName (iw_calls w2 ! 1))
      (g_schema (iw_global w2)) = (c, [key ''b'' ''1''], [])"
    using pair_replacement unfolding call w2(2,3,5) w1(3,4) w(2,3) p1(2) by blast
  define w3 where "w3 = initiator_handle demo demo_bls demo_ossl demo_keychain [GComp 8 ''i''] w2 ?e"
  have E3: "demo_initiator_exec w2 [?e] w3"
    using en by (simp add: w3_def del: initiator_enabled.simps initiator_handle.simps)
  have "length (g_fetchedSignatures (iw_global w2)) = length [key ''b'' ''1'']" using p1(4) by (simp add: w2(2))
  from initiator_misses_completion [OF reach en rep _ this E3] show ?thesis
    using reach E3 by (intro exI [of _ w2] exI [of _ ?e] exI [of _ w3]) simp
qed

section \<open>Several runs\<close>

abbreviation "demo_runs_exec \<equiv>
  exec runs_enabled (runs_handle demo demo_bls demo_ossl demo_keychain [GComp 8 ''i''])"

abbreviation demo_call :: "gcomp schema \<Rightarrow> (gcomp, nat) runs_event" where
  "demo_call schema \<equiv> MultiPartySign 7 demo_random (new_data (key ''data'' ''7'')) schema (key ''i'' ''1'')"

text \<open>A first run, waiting for its acknowledgements.\<close>

lemma demo_first_run:
  assumes "getAvailableSigners demo c schema = Inr signers" and "trusted_key c [] = None"
  obtains w :: "(gcomp, nat, nat) runs_world" and v where "demo_runs_exec (runs_start c) [demo_call schema] w"
    "rs_runs w = [v]" "rs_container w = c" "\<not> blocked v" "iw_container v = c" "g_schema (iw_global v) = schema"
    "g_signers (iw_global v) = signers" "length (iw_calls v) = length signers"
    "map ps_signerKeyName (iw_calls v) = signers" "\<forall>k < length signers. ps_phase (iw_calls v ! k) = AwaitAck"
proof -
  obtain v :: "(gcomp, nat, nat) initiator_world" where v: "demo_start c schema = Inr v"
    "g_signers (iw_global v) = signers" "iw_container v = c" "g_schema (iw_global v) = schema"
    "length (iw_calls v) = length signers" "progress (\<lambda>_. []) signers 0 v"
    using demo_started [OF assms] by metis
  show thesis
    by (rule that [of "(runs_start c)\<lparr>rs_runs := [v], rs_asked := [(7, new_data (key ''data'' ''7''))]\<rparr>" v])
      (use v in \<open>simp_all add: runs_start_def progress_def\<close>)
qed

theorem several_runs_outcome_witness:
  "\<exists>es w. demo_runs_exec (runs_start demo_container) es w \<and> length (rs_runs w) = 2 \<and>
    successes (rs_runs w ! 1) \<noteq> [] \<and> failures (rs_runs w ! 1) = []"
proof -
  obtain w v where w: "demo_runs_exec (runs_start demo_container) [demo_call demo_schema] w"
    "rs_runs w = [v]" "rs_container w = demo_container" "\<not> blocked v"
    by (rule demo_first_run [OF demo_selection demo_no_empty_name])
  have sel: "getAvailableSigners demo (rs_container w) demo_schema = Inr demo_signers"
    using demo_selection by (simp add: w(3))
  obtain fs w' d i where w': "demo_runs_exec w (demo_call demo_schema # fs) w'"
    "successes (rs_runs w' ! length (rs_runs w)) = [(d, i)]" "length (rs_runs w') = Suc (length (rs_runs w))"
    using new_run_succeeds [OF demo_laws w(1) demo_no_empty_name _ sel,
      of 7 demo_random "new_data (key ''data'' ''7'')" "key ''i'' ''1''"] w(2,4)
    by (auto simp del: runs_handle.simps exec_simps)
  have E: "demo_runs_exec (runs_start demo_container) ([demo_call demo_schema] @ demo_call demo_schema # fs) w'"
    unfolding exec_append using w(1) w'(1) by blast
  have "successes (rs_runs w' ! 1) = [(d, i)]" "length (rs_runs w') = 2" using w' w(2) by simp_all
  with several_runs_outcome [OF E demo_no_empty_name, of 1]
  show ?thesis using E by (intro exI conjI) (assumption | simp)+
qed

theorem new_run_completes_witness:
  "\<exists>w fs w' d i. rs_runs w \<noteq> [] \<and> demo_runs_exec w (demo_call demo_schema # fs) w' \<and>
    successes (rs_runs w' ! 1) = [(d, i)] \<and> rs_runs w' ! 0 = rs_runs w ! 0"
proof -
  obtain w v where w: "demo_runs_exec (runs_start demo_container) [demo_call demo_schema] w"
    "rs_runs w = [v]" "rs_container w = demo_container" "\<not> blocked v"
    by (rule demo_first_run [OF demo_selection demo_no_empty_name])
  have sel: "getAvailableSigners demo (rs_container w) demo_schema = Inr demo_signers"
    using demo_selection by (simp add: w(3))
  have "\<not> list_ex blocked (rs_runs w)" using w(2,4) by simp
  from new_run_completes [OF demo_laws w(1) demo_no_empty_name this sel,
      of 7 demo_random "new_data (key ''data'' ''7'')" "key ''i'' ''1''"] w(2)
  show ?thesis by (intro exI [of _ w]) (auto simp del: runs_handle.simps exec_simps)
qed

lemma pair_selection_without_c:
  "getAvailableSigners demo (mark_unavailable (key ''c'' ''1'') demo_container) pair_schema = Inr [key ''b'' ''1'']"
  by (simp add: policy_eval mark_unavailable_def)

text \<open>The first run loses its second signer and goes on with the first.\<close>

abbreviation "lost_container \<equiv> mark_unavailable (key ''c'' ''1'') demo_container"

lemma demo_lost_run:
  obtains es and w :: "(gcomp, nat, nat) runs_world" and v where "demo_runs_exec (runs_start demo_container) es w"
    "rs_runs w = [v]" "rs_container w = lost_container" "\<not> blocked v" "g_signers (iw_global v) = [key ''b'' ''1'']"
    "key ''c'' ''1'' \<in> run_signers v"
proof -
  let ?u = "key ''c'' ''1''" and ?e = "AckReply 1 FetchTimeout (\<lambda>_. 0) demo_random"
  obtain w v where w: "demo_runs_exec (runs_start demo_container) [demo_call pair_schema] w"
    "rs_runs w = [v]" "rs_container w = demo_container" "\<not> blocked v" "iw_container v = demo_container"
    "g_schema (iw_global v) = pair_schema" "g_signers (iw_global v) = pair_signers" "length (iw_calls v) = length pair_signers"
    "map ps_signerKeyName (iw_calls v) = pair_signers" "\<forall>k < length pair_signers. ps_phase (iw_calls v ! k) = AwaitAck"
    by (rule demo_first_run [OF pair_selection demo_no_empty_name])
  have call: "ps_signerKeyName (iw_calls v ! 1) = ?u"
    using arg_cong [OF w(9), of "\<lambda>xs. xs ! 1"] w(8) by simp
  define v' where "v' = initiator_handle demo demo_bls demo_ossl demo_keychain [GComp 8 ''i''] v ?e"
  have "replaceSigner demo demo_container pair_signers ?u pair_schema = (lost_container, [key ''b'' ''1''], [])"
    using pair_replacement replaceSigner_frame [OF _ demo_no_empty_name] by blast
  then have v': "v' = (set_call 1 ((iw_calls v ! 1)\<lparr>ps_phase := Ended\<rparr>) v)
      \<lparr>iw_container := lost_container, iw_global := (iw_global v)\<lparr>g_signers := [key ''b'' ''1'']\<rparr>\<rparr>"
    using call w(5,6,7) by (simp add: v'_def onNoReply_def Let_def onUnavailableSigner_def)
  define w1 where "w1 = w\<lparr>rs_container := lost_container, rs_runs := [v']\<rparr>"
  have own: "in_container demo_container v = v" using in_container_simps(6) [of v] w(5) by simp
  have "iw_container v' = lost_container" by (simp add: v')
  then have "runs_handle demo demo_bls demo_ossl demo_keychain [GComp 8 ''i''] w (InRun 0 ?e) = w1"
    using w(2,3) by (simp add: own w1_def v'_def Let_def del: initiator_handle.simps)
  moreover have "runs_enabled w (InRun 0 ?e)" using w(2,4,8,10) by simp
  ultimately have "demo_runs_exec w [InRun 0 ?e] w1"
    by (simp del: runs_handle.simps runs_enabled.simps)
  then have E: "demo_runs_exec (runs_start demo_container) ([demo_call pair_schema] @ [InRun 0 ?e]) w1"
    unfolding exec_append using w(1) by blast
  have "\<not> blocked v'" using w(4) by (simp add: v' blocked_def set_call_def)
  moreover have "?u \<in> ps_signerKeyName ` set (iw_calls v')"
    using call w(8) by (force simp: v' set_call_def set_conv_nth nth_list_update)
  then have "?u \<in> run_signers v'" by (simp add: run_signers_def)
  ultimately show thesis
    by (intro that [OF E]) (simp_all add: w1_def, simp add: v')
qed

theorem lost_signer_avoided_witness:
  "\<exists>es w w'. demo_runs_exec (runs_start demo_container) es w \<and> demo_runs_exec w [demo_call pair_schema] w' \<and>
    key ''c'' ''1'' \<in> run_signers (rs_runs w' ! 0) \<and> key ''c'' ''1'' \<notin> run_signers (rs_runs w' ! 1)"
proof -
  obtain es w v where w: "demo_runs_exec (runs_start demo_container) es w" "rs_runs w = [v]" "rs_container w = lost_container"
    "\<not> blocked v" "key ''c'' ''1'' \<in> run_signers v"
    by (rule demo_lost_run)
  have "trusted_key lost_container [] = None" by (simp add: grows_trusted [OF grows_mark] demo_no_empty_name)
  note start = demo_started [OF pair_selection_without_c this]
  obtain v2 :: "(gcomp, nat, nat) initiator_world" where v2: "demo_start (rs_container w) pair_schema = Inr v2"
    by (rule start) (rule that, simp add: w(3))
  define w2 where "w2 = w\<lparr>rs_runs := [v, v2], rs_asked := rs_asked w @ [(7, new_data (key ''data'' ''7''))]\<rparr>"
  have E2: "demo_runs_exec w [demo_call pair_schema] w2" using w(2,4) v2 by (simp add: w2_def)
  have "key ''c'' ''1'' \<in> set (m_unavailableSigners (rs_container w))" by (simp add: w(3) mark_unavailable_def)
  from lost_signer_avoided [OF w(1) demo_no_empty_name this E2, of 1]
  have "key ''c'' ''1'' \<notin> run_signers (rs_runs w2 ! 1)" by (simp add: w2_def w(2))
  moreover have "key ''c'' ''1'' \<in> run_signers (rs_runs w2 ! 0)" using w(5) by (simp add: w2_def)
  ultimately show ?thesis using w(1) E2 by blast
qed

section \<open>The list of one run\<close>

text \<open>The first signer does not answer; two others take its place.\<close>

theorem signer_list_policy_witness:
  "\<exists>es (w :: (gcomp, nat, nat) initiator_world). (\<exists>w0. demo_start demo_container demo_schema = Inr w0 \<and> demo_initiator_exec w0 es w) \<and>
    g_signers (iw_global w) = [key ''a'' ''2'', key ''a'' ''3'', key ''b'' ''1'', key ''c'' ''1''] \<and>
    required_ok demo (m_signers demo_schema) (g_signers (iw_global w)) \<and> usable (iw_container w) (key ''a'' ''3'') \<and>
    (\<exists>ps \<in> set (iw_calls w). ps_signerKeyName ps = key ''a'' ''1'' \<and> ps_phase ps = Ended)"
proof -
  let ?e = "AckReply 0 FetchTimeout (\<lambda>_. 0) demo_random" and ?new = "[key ''a'' ''2'', key ''a'' ''3'', key ''b'' ''1'', key ''c'' ''1'']"
  obtain w0 :: "(gcomp, nat, nat) initiator_world" where w0: "demo_start demo_container demo_schema = Inr w0"
    "g_signers (iw_global w0) = demo_signers" "iw_container w0 = demo_container" "g_schema (iw_global w0) = demo_schema"
    "length (iw_calls w0) = length demo_signers" "progress (\<lambda>_. []) demo_signers 0 w0"
    using demo_started [OF demo_selection demo_no_empty_name] by metis
  have p: "map ps_signerKeyName (iw_calls w0) = demo_signers" "\<not> blocked w0" "ps_phase (iw_calls w0 ! 0) = AwaitAck"
    using w0(5,6) by (simp_all add: progress_def)
  have name: "ps_signerKeyName (iw_calls w0 ! 0) = key ''a'' ''1''"
    using arg_cong [OF p(1), of "\<lambda>xs. xs ! 0"] w0(5) by simp
  define w where "w = initiator_handle demo demo_bls demo_ossl demo_keychain [GComp 8 ''i''] w0 ?e"
  have E: "demo_initiator_exec w0 [?e] w"
    using w0(5) p(2,3) by (simp add: w_def del: initiator_handle.simps)
  let ?w1 = "set_call 0 ((iw_calls w0 ! 0)\<lparr>ps_phase := Ended\<rparr>) w0"
  have w: "w = onUnavailableSigner demo demo_ossl demo_keychain [GComp 8 ''i''] demo_random
      (''Interest timeout'' @ '' when requesting signer '' @ name_uri demo (name_prefix_neg (key ''a'' ''1'') 2)) (key ''a'' ''1'') ?w1"
    by (simp add: w_def onNoReply_def Let_def name del: demo_simps)
  have rep: "replaceSigner demo (iw_container ?w1) (g_signers (iw_global ?w1)) (key ''a'' ''1'') (g_schema (iw_global ?w1)) =
      (demo_container\<lparr>m_unavailableSigners := [key ''a'' ''1'']\<rparr>, ?new, [key ''a'' ''3'', key ''c'' ''1''])"
    using demo_replacement w0(2-4) by (simp add: set_call_def)
  have "failures w0 = []" using run_starts(3) [OF w0(1)] w0(2) by simp
  then have f1: "failures ?w1 = []" by (simp add: failures_def set_call_def)
  from rep w show ?thesis
  proof (cases rule: lost_cases)
    case (replaced calls)
    have "failures w = []" using replaced f1 by simp
    note P = signer_list_policy [OF w0(1) demo_no_empty_name E this]
    have list: "g_signers (iw_global w) = ?new" using replaced by simp
    have "(iw_calls w0 ! 0)\<lparr>ps_phase := Ended\<rparr> \<in> set (iw_calls w)"
      using replaced(4) w0(5) set_update_memI [of 0 "iw_calls w0"] by (simp add: set_call_def)
    moreover have "required_ok demo (m_signers demo_schema) (g_signers (iw_global w))" "usable (iw_container w) (key ''a'' ''3'')"
      using P list by (blast, simp)
    moreover have "ps_signerKeyName ((iw_calls w0 ! 0)\<lparr>ps_phase := Ended\<rparr>) = key ''a'' ''1''"
      "ps_phase ((iw_calls w0 ! 0)\<lparr>ps_phase := Ended\<rparr>) = Ended"
      by (simp_all add: name)
    ultimately show ?thesis using w0(1) E list by blast
  qed simp
qed

text \<open>Two required signers, neither of them replaceable, do not answer: two failures are reported.\<close>

abbreviation "required_pair \<equiv> demo_schema\<lparr>m_signers := [pat ''b'' 1, pat ''c'' 1], m_optionalSigners := [], m_minOptionalSigners := 0\<rparr>"

lemma required_pair_selection: "getAvailableSigners demo demo_container required_pair = Inr pair_signers"
  by (simp add: policy_eval)

lemma required_pair_replacement:
  "\<exists>c'. replaceSigner demo demo_container pair_signers (key ''b'' ''1'') required_pair = (c', [], [])"
  "\<exists>c'. replaceSigner demo (mark_unavailable (key ''b'' ''1'') demo_container) pair_signers (key ''c'' ''1'') required_pair = (c', [], [])"
  by (simp_all add: policy_eval replaceSigner_def findANewKeyForPattern_def count_matching_eq mark_unavailable_def)

theorem failure_reported_again_witness:
  "\<exists>es (w :: (gcomp, nat, nat) initiator_world). (\<exists>w0. demo_start demo_container required_pair = Inr w0 \<and> demo_initiator_exec w0 es w) \<and>
    length (failures w) = 2"
proof -
  let ?e = "\<lambda>k. AckReply k FetchTimeout (\<lambda>_. 0) demo_random"
  let ?h = "initiator_handle demo demo_bls demo_ossl demo_keychain [GComp 8 ''i'']"
  obtain w0 :: "(gcomp, nat, nat) initiator_world" where w0: "demo_start demo_container required_pair = Inr w0"
    "g_signers (iw_global w0) = pair_signers" "iw_container w0 = demo_container" "g_schema (iw_global w0) = required_pair"
    "length (iw_calls w0) = length pair_signers" "progress (\<lambda>_. []) pair_signers 0 w0"
    using demo_started [OF required_pair_selection demo_no_empty_name] by metis
  have p: "map ps_signerKeyName (iw_calls w0) = pair_signers" "\<not> blocked w0" "\<forall>k < 2. ps_phase (iw_calls w0 ! k) = AwaitAck"
    using w0(5,6) by (simp_all add: progress_def)
  have name: "ps_signerKeyName (iw_calls w0 ! 0) = key ''b'' ''1''" "ps_signerKeyName (iw_calls w0 ! 1) = key ''c'' ''1''"
    using arg_cong [OF p(1), of "\<lambda>xs. xs ! 0"] arg_cong [OF p(1), of "\<lambda>xs. xs ! 1"] w0(5) by simp_all
  have "failures w0 = []" using run_starts(3) [OF w0(1)] w0(2) by simp
  let ?w1 = "set_call 0 ((iw_calls w0 ! 0)\<lparr>ps_phase := Ended\<rparr>) w0"
  define w where "w = ?h w0 (?e 0)"
  have E1: "demo_initiator_exec w0 [?e 0] w" using w0(5) p(2,3) by (simp add: w_def del: initiator_handle.simps)
  have w: "w = onUnavailableSigner demo demo_ossl demo_keychain [GComp 8 ''i''] demo_random
      (''Interest timeout'' @ '' when requesting signer '' @ name_uri demo (name_prefix_neg (key ''b'' ''1'') 2)) (key ''b'' ''1'') ?w1"
    by (simp add: w_def onNoReply_def Let_def name del: demo_simps)
  obtain c' where rep: "replaceSigner demo (iw_container ?w1) (g_signers (iw_global ?w1)) (key ''b'' ''1'') (g_schema (iw_global ?w1)) = (c', [], [])"
    using required_pair_replacement(1) w0(2-4) by (auto simp: set_call_def)
  have c': "c' = mark_unavailable (key ''b'' ''1'') demo_container"
    using replaceSigner_frame [OF rep] demo_no_empty_name w0(3) by (simp add: set_call_def)
  from rep w obtain s where w1: "iw_container w = c'" "iw_global w = iw_global w0" "iw_calls w = iw_calls ?w1" "failures w = [s]"
  proof (cases rule: lost_cases)
    case (failed s)
    then show thesis using that \<open>failures w0 = []\<close> by (simp add: set_call_def failures_def)
  qed simp
  have "iw_sent w = iw_sent w0 @ [FailureCb (''Interest timeout'' @ '' when requesting signer '' @
      name_uri demo (name_prefix_neg (key ''b'' ''1'') 2) @ '' And we cannot find replacements for the unavailable signer'')]"
    using rep by (simp add: w onUnavailableSigner_def set_call_def del: demo_simps)
  then have "\<not> blocked w" using p(2) by (simp add: blocked_def)
  then have en: "initiator_enabled w (?e 1)" using w0(5) p(3) w1(3) by (simp add: set_call_def)
  obtain c2 where "replaceSigner demo (iw_container w) (g_signers (iw_global w)) (ps_signerKeyName (iw_calls w ! 1))
      (g_schema (iw_global w)) = (c2, [], [])"
    using required_pair_replacement(2) w0 w1 name c' by (auto simp: set_call_def)
  from failure_reported_again [OF _ en this, of demo_bls demo_ossl demo_keychain "[GComp 8 ''i'']"] w1(4)
  have "length (failures (?h w (?e 1))) = 2" by auto
  moreover have "demo_initiator_exec w0 [?e 0, ?e 1] (?h w (?e 1))"
    using E1 en by (simp del: initiator_handle.simps initiator_enabled.simps)
  ultimately show ?thesis using w0(1) by blast
qed

end
