(* ===== verification/Ord_Map.thy ===== *)
theory Ord_Map
  imports Mps_Prelude
begin

text \<open>
  \<^verbatim>\<open>std::map\<close> as the prototype players use it: \<^verbatim>\<open>find\<close>, \<^verbatim>\<open>emplace\<close> (which
  keeps an entry that is there), assignment through \<^verbatim>\<open>operator[]\<close>, \<^verbatim>\<open>erase\<close>,
  and iteration by ascending key. The locale \<open>ordered_map\<close> is the contract, with the facts its
  clients use; the interpretation \<open>omap\<close> gives them for the list of entries in iteration order.
\<close>

section \<open>The contract\<close>

locale ordered_map =
  fixes emp :: "'m"
    and look :: "'m \<Rightarrow> 'k::linorder \<Rightarrow> 'v option"
    and emplace :: "'k \<Rightarrow> 'v \<Rightarrow> 'm \<Rightarrow> 'm"
    and put :: "'k \<Rightarrow> 'v \<Rightarrow> 'm \<Rightarrow> 'm"
    and era :: "'k \<Rightarrow> 'm \<Rightarrow> 'm"
    and entries :: "'m \<Rightarrow> ('k \<times> 'v) list"
    and invar :: "'m \<Rightarrow> bool"
  assumes entries_emp: "entries emp = []"
    and entries_order: "invar m \<Longrightarrow> sorted (map fst (entries m)) \<and> distinct (map fst (entries m))"
    and look_entries: "invar m \<Longrightarrow> look m k = map_of (entries m) k"
    and look_put: "invar m \<Longrightarrow> look (put k v m) k' = (if k' = k then Some v else look m k')"
    and look_era: "invar m \<Longrightarrow> look (era k m) k' = (if k' = k then None else look m k')"
    and emplace_eq: "emplace k v m = (case look m k of None \<Rightarrow> put k v m | Some _ \<Rightarrow> m)"
    and invar_emp: "invar emp"
    and invar_put: "invar m \<Longrightarrow> invar (put k v m)"
    and invar_era: "invar m \<Longrightarrow> invar (era k m)"
begin

lemma invar_emplace: "invar m \<Longrightarrow> invar (emplace k v m)"
  by (simp add: emplace_eq invar_put split: option.split)

lemma look_emp: "look emp k = None"
  using look_entries [OF invar_emp] by (simp add: entries_emp)

lemma look_emplace:
  "invar m \<Longrightarrow> look (emplace k v m) k' =
    (if k' = k then Some (case look m k of None \<Rightarrow> v | Some w \<Rightarrow> w) else look m k')"
  by (simp add: emplace_eq look_put split: option.split)

lemma emplace_twice: "invar m \<Longrightarrow> emplace k w (emplace k v m) = emplace k v m"
  by (simp add: emplace_eq [of k w] look_emplace)

lemma look_Some_iff: "invar m \<Longrightarrow> look m k = Some v \<longleftrightarrow> (k, v) \<in> set (entries m)"
  using entries_order [of m] by (simp add: look_entries)

lemma look_None_iff: "invar m \<Longrightarrow> look m k = None \<longleftrightarrow> k \<notin> fst ` set (entries m)"
  by (simp add: look_entries map_of_eq_None_iff)

lemma distinct_keys: "invar m \<Longrightarrow> distinct (map fst (entries m))"
  by (simp add: entries_order)

end

section \<open>The list of entries\<close>

type_synonym ('k, 'v) smap = "('k \<times> 'v) list"

fun smap_put :: "'k::linorder \<Rightarrow> 'v \<Rightarrow> ('k, 'v) smap \<Rightarrow> ('k, 'v) smap" where
  "smap_put k v [] = [(k, v)]"
| "smap_put k v ((k', v') # m) =
     (if k < k' then (k, v) # (k', v') # m else if k = k' then (k, v) # m else (k', v') # smap_put k v m)"

definition smap_find :: "('k::linorder, 'v) smap \<Rightarrow> 'k \<Rightarrow> 'v option" where
  "smap_find m k = map_of m k"

definition smap_emplace :: "'k::linorder \<Rightarrow> 'v \<Rightarrow> ('k, 'v) smap \<Rightarrow> ('k, 'v) smap" where
  "smap_emplace k v m = (case smap_find m k of None \<Rightarrow> smap_put k v m | Some _ \<Rightarrow> m)"

definition smap_erase :: "'k::linorder \<Rightarrow> ('k, 'v) smap \<Rightarrow> ('k, 'v) smap" where
  "smap_erase k m = filter (\<lambda>e. fst e \<noteq> k) m"

definition smap_count :: "('k::linorder, 'v) smap \<Rightarrow> 'k \<Rightarrow> nat" where
  "smap_count m k = (if smap_find m k = None then 0 else 1)"

definition smap_ok :: "('k::linorder, 'v) smap \<Rightarrow> bool" where
  "smap_ok m \<longleftrightarrow> sorted (map fst m) \<and> distinct (map fst m)"

lemma smap_put_keys: "fst ` set (smap_put k v m) = insert k (fst ` set m)"
  by (induction k v m rule: smap_put.induct) auto

lemma smap_put_ok: "smap_ok m \<Longrightarrow> smap_ok (smap_put k v m)"
proof (induction k v m rule: smap_put.induct)
  case (2 k v k' v' m)
  then have m: "smap_ok m" and above: "\<forall>x \<in> fst ` set m. k' < x"
    by (auto simp: smap_ok_def less_le)
  have keys: "set (map fst (smap_put k v m)) = insert k (fst ` set m)"
    using smap_put_keys [of k v m] by simp
  show ?case
  proof (cases "k' < k")
    case True
    then have "smap_ok (smap_put k v m)" using 2 m by auto
    with True above show ?thesis
      by (auto simp: smap_ok_def less_le keys smap_put_keys)
  next
    case False
    with 2(2) m above show ?thesis by (force simp: smap_ok_def)
  qed
qed (simp add: smap_ok_def)

lemma smap_find_put:
  "smap_ok m \<Longrightarrow> smap_find (smap_put k v m) k' = (if k' = k then Some v else smap_find m k')"
  by (induction k v m rule: smap_put.induct) (auto simp: smap_find_def smap_ok_def)

lemma smap_put_twice: "smap_ok m \<Longrightarrow> smap_put k w (smap_put k v m) = smap_put k w m"
  by (induction k v m rule: smap_put.induct) (auto simp: smap_ok_def)

lemma smap_find_erase: "smap_find (smap_erase k m) k' = (if k' = k then None else smap_find m k')"
  by (induction m) (auto simp: smap_find_def smap_erase_def)

lemma smap_erase_ok: "smap_ok m \<Longrightarrow> smap_ok (smap_erase k m)"
  unfolding smap_ok_def smap_erase_def
  by (auto simp: sorted_filter distinct_map intro: inj_on_subset)

interpretation omap: ordered_map "[]" smap_find smap_emplace smap_put smap_erase "\<lambda>m. m" smap_ok
proof
  show "smap_ok ([] :: ('a, 'b) smap)" by (simp add: smap_ok_def)
next
  fix m :: "('a, 'b) smap"
  assume "smap_ok m"
  then show "sorted (map fst m) \<and> distinct (map fst m)" by (simp add: smap_ok_def)
qed (simp_all add: smap_find_put smap_find_erase smap_put_ok smap_erase_ok smap_emplace_def, simp add: smap_find_def)

lemma smap_count_iff [simp]:
  "smap_count m k = 0 \<longleftrightarrow> smap_find m k = None"
  "smap_count m k = 1 \<longleftrightarrow> smap_find m k \<noteq> None"
  "smap_count m k = Suc 0 \<longleftrightarrow> smap_find m k \<noteq> None"
  by (simp_all add: smap_count_def)

section \<open>The entries as a multiset\<close>

lemma smap_find_member: "smap_find m k = Some v \<Longrightarrow> (k, v) \<in> set m"
  by (simp add: smap_find_def map_of_SomeD)

lemma smap_erase_absent: "smap_find m k = None \<Longrightarrow> smap_erase k m = m"
  by (induction m) (auto simp: smap_find_def smap_erase_def split: if_splits)

lemma mset_smap_erase:
  assumes "smap_ok m" and "smap_find m k = Some v"
  shows "mset m = add_mset (k, v) (mset (smap_erase k m))"
  using assms
proof (induction m)
  case (Cons e m)
  obtain k' v' where e: "e = (k', v')" by fastforce
  show ?case
  proof (cases "k' = k")
    case True
    then have "smap_find m k = None" using Cons.prems(1) by (auto simp: smap_ok_def e smap_find_def map_of_eq_None_iff)
    then show ?thesis
      using True Cons.prems smap_erase_absent [of m k] by (simp add: e smap_find_def smap_erase_def)
  next
    case False
    then show ?thesis using Cons by (auto simp: e smap_find_def smap_erase_def smap_ok_def)
  qed
qed (simp add: smap_find_def)

lemma mset_smap_put:
  assumes "smap_ok m"
  shows "mset (smap_put k v m) = add_mset (k, v) (mset (smap_erase k m))"
  using assms
proof (induction k v m rule: smap_put.induct)
  case (2 k v k' v' m)
  then have m: "smap_ok m" and above: "\<forall>x \<in> fst ` set m. k' < x"
    by (auto simp: smap_ok_def less_le)
  have "smap_erase k m = m" if "k \<le> k'"
    using that above by (intro smap_erase_absent) (fastforce simp: smap_find_def map_of_eq_None_iff)
  moreover have "k' < k \<Longrightarrow> mset (smap_put k v m) = add_mset (k, v) (mset (smap_erase k m))"
    using 2 m by auto
  ultimately show ?case by (cases k k' rule: linorder_cases) (auto simp: smap_erase_def)
qed (simp add: smap_erase_def)

lemma mset_smap_update:
  assumes "smap_ok m" and "smap_find m k = Some v"
  shows "add_mset (k, v) (mset (smap_put k w m)) = add_mset (k, w) (mset m)"
  using assms by (simp add: mset_smap_put mset_smap_erase)

lemma mset_smap_emplace:
  assumes "smap_ok m"
  shows "mset (smap_emplace k v m) = (if smap_find m k = None then add_mset (k, v) (mset m) else mset m)"
  using assms by (simp add: smap_emplace_def mset_smap_put smap_erase_absent split: option.split)

end
