(* ===== verification/Crypto_Players.thy ===== *)
theory Crypto_Players
  imports Verifier Ord_Map
begin

text \<open>
  \<^verbatim>\<open>temp/crypto-players.cpp\<close>, the first half of the prototype the library grew from:
  \<^verbatim>\<open>MpsSigner\<close>, \<^verbatim>\<open>MpsVerifier\<close> and \<^verbatim>\<open>MpsAggregator\<close>, which sign,
  verify and aggregate packets without the network. Unlike \<^verbatim>\<open>bls-helpers.cpp\<close> it looks at
  the result codes of the BLS library, which \<open>bls_codes\<close> adds to the interface.

  The prototype calls a version of \<^verbatim>\<open>MultipartySchema\<close> that is not in the repository
  (\<^verbatim>\<open>isSatisfied\<close>, \<^verbatim>\<open>getKeyMatches\<close>, \<^verbatim>\<open>getMinSigners\<close>): these
  functions are the parameter record \<open>schema_ops\<close>, with the test of a validity period against
  the clock.

  The lemmas give the round trips of signing and verifying, relate \<^verbatim>\<open>readyToVerify\<close> to
  \<^verbatim>\<open>itemsToFetch\<close>, and reduce the verification to that of \<^verbatim>\<open>bls-helpers.cpp\<close>.
\<close>

section \<open>The libraries\<close>

abbreviation (input) "TLV_SignatureValue \<equiv> (23::nat)"

record ('sk, 'pk, 'sig) bls_codes = "('sk, 'pk, 'sig) bls_api" +
  blsSignatureDeserialize_code :: "bytes \<Rightarrow> nat"
  blsPublicKeyDeserialize :: "'pk \<Rightarrow> bytes \<Rightarrow> 'pk \<times> nat"
  blsSecretKeyDeserialize :: "bytes \<Rightarrow> 'sk \<times> nat"
  blsGetSerializedSignatureByteSize :: nat
  blsGetSerializedPublicKeyByteSize :: nat
  blsAggregateSignature :: "'sig list \<Rightarrow> 'sig"
  sig_zero :: 'sig

text \<open>
  What the BLS library documents: a buffer of the announced size holds a signature or a key, which
  reads back with a result code that is not 0; an aggregate is the sum; the structure of zeros,
  which \<^verbatim>\<open>std::vector\<close> stores in a new element, is the neutral point; and
  \<^verbatim>\<open>blsVerify\<close> returns 0 or 1.
\<close>

definition bls_code_laws :: "('sk, 'pk, 'sig, 'y) bls_codes_scheme \<Rightarrow> bool" where
  "bls_code_laws bls \<longleftrightarrow>
     (\<forall>s. let b = blsSignatureSerialize bls (blsGetSerializedSignatureByteSize bls) s in
        b \<noteq> [] \<and> blsSignatureDeserialize_code bls b \<noteq> 0 \<and>
        (\<forall>old. blsSignatureDeserialize bls old b = s)) \<and>
     (\<forall>k. let b = blsPublicKeySerialize bls (blsGetSerializedPublicKeyByteSize bls) k in
        b \<noteq> [] \<and> (\<forall>old. \<exists>n. blsPublicKeyDeserialize bls old b = (k, n) \<and> n \<noteq> 0)) \<and>
     (\<forall>s ss. blsAggregateSignature bls (s # ss) = foldl (blsSignatureAdd bls) s ss) \<and>
     (\<forall>s. blsSignatureAdd bls (sig_zero bls) s = s) \<and>
     (\<forall>s k m. blsVerify bls s k m \<in> {0, 1})"

lemma bls_code_lawsD:
  assumes "bls_code_laws bls"
  shows sig_bytes: "blsSignatureSerialize bls (blsGetSerializedSignatureByteSize bls) s \<noteq> []"
    and sig_code: "blsSignatureDeserialize_code bls
      (blsSignatureSerialize bls (blsGetSerializedSignatureByteSize bls) s) \<noteq> 0"
    and sig_reads: "blsSignatureDeserialize bls old
      (blsSignatureSerialize bls (blsGetSerializedSignatureByteSize bls) s) = s"
    and pk_bytes: "blsPublicKeySerialize bls (blsGetSerializedPublicKeyByteSize bls) k \<noteq> []"
    and pk_reads: "\<exists>n. blsPublicKeyDeserialize bls oldk
      (blsPublicKeySerialize bls (blsGetSerializedPublicKeyByteSize bls) k) = (k, n) \<and> n \<noteq> 0"
    and aggregate_sum: "blsAggregateSignature bls (s # ss) = foldl (blsSignatureAdd bls) s ss"
    and add_zero: "blsSignatureAdd bls (sig_zero bls) s = s"
    and verify_bool: "blsVerify bls s k m = 0 \<or> blsVerify bls s k m = 1"
  using assms unfolding bls_code_laws_def Let_def by blast+

lemma verify_nonzero: "bls_code_laws bls \<Longrightarrow> blsVerify bls s k m \<noteq> 0 \<longleftrightarrow> blsVerify bls s k m = 1"
  using verify_bool [of bls s k m] by auto

record ('c, 's) schema_ops =
  isSatisfied :: "'s \<Rightarrow> 'c name list \<Rightarrow> bool"
  getKeyMatches :: "'s \<Rightarrow> 'c name \<Rightarrow> 'c name list"
  getMinSigners :: "'s \<Rightarrow> 'c name list \<Rightarrow> 'c name list"
  schema_of_signer :: "'c name \<Rightarrow> 's"
  validity_isValid :: "nat \<times> nat \<Rightarrow> bool"

section \<open>MpsSigner\<close>

text \<open>The flag \<^verbatim>\<open>BLS_INITIALIZED\<close> is the state.\<close>

definition bls_library_init :: "('sk, 'pk, 'sig, 'y) bls_codes_scheme \<Rightarrow> bool \<Rightarrow> bool res" where
  "bls_library_init bls BLS_INITIALIZED =
     (if \<not> BLS_INITIALIZED
      then (if blsInit bls \<noteq> 0 then Inl (Throws ''Fail to call blsInit, error code: '') else Inr True)
      else Inr BLS_INITIALIZED)"

record ('c, 'sk, 'pk) mps_signer =
  ms_signerName :: "'c name"
  ms_sk :: 'sk
  ms_pk :: 'pk

text \<open>The secret key of the first constructor comes from the random generator.\<close>

definition MpsSigner_new ::
  "('sk, 'pk, 'sig, 'y) bls_codes_scheme \<Rightarrow> bool \<Rightarrow> 'sk \<Rightarrow> 'c name \<Rightarrow> ('c, 'sk, 'pk) mps_signer res" where
  "MpsSigner_new bls flag sk signerName =
     res_bind (bls_library_init bls flag) (\<lambda>_.
       Inr \<lparr>ms_signerName = signerName, ms_sk = sk, ms_pk = blsGetPublicKey bls sk\<rparr>)"

definition MpsSigner_of_buf ::
  "('sk, 'pk, 'sig, 'y) bls_codes_scheme \<Rightarrow> bool \<Rightarrow> 'c name \<Rightarrow> bytes \<Rightarrow> ('c, 'sk, 'pk) mps_signer res" where
  "MpsSigner_of_buf bls flag signerName secretKeyBuf =
     res_bind (bls_library_init bls flag) (\<lambda>_.
       (case blsSecretKeyDeserialize bls secretKeyBuf of (sk, ret) \<Rightarrow>
         if ret = 0 then Inl (Throws ''Fail to read secret key in Signer::initKey()'')
         else Inr \<lparr>ms_signerName = signerName, ms_sk = sk, ms_pk = blsGetPublicKey bls sk\<rparr>))"

definition getpublicKeyStr ::
  "('sk, 'pk, 'sig, 'y) bls_codes_scheme \<Rightarrow> ('c, 'sk, 'pk) mps_signer \<Rightarrow> bytes res" where
  "getpublicKeyStr bls signer =
     (let outputBuf = blsPublicKeySerialize bls (blsGetSerializedPublicKeyByteSize bls) (ms_pk signer)
      in if length outputBuf = 0 then Inl (Throws ''Fail to write public key in Signer::getpublicKeyStr()'')
         else Inr outputBuf)"

text \<open>Serialising a signature into a buffer of the announced size.\<close>

definition signature_buffer ::
  "('sk, 'pk, 'sig, 'y) bls_codes_scheme \<Rightarrow> string \<Rightarrow> 'sig \<Rightarrow> bytes res" where
  "signature_buffer bls what sig =
     (let signatureBuf = blsSignatureSerialize bls (blsGetSerializedSignatureByteSize bls) sig
      in if length signatureBuf = 0 then Inl (Throws what) else Inr signatureBuf)"

text \<open>\<^verbatim>\<open>getSignature\<close> of a packet without signature info is the invalid block.\<close>

definition getSignature ::
  "('c, 'z) packet_api_scheme \<Rightarrow> ('sk, 'pk, 'sig, 'y) bls_codes_scheme \<Rightarrow> ('c, 'sk, 'pk) mps_signer \<Rightarrow>
   'c data \<Rightarrow> block res" where
  "getSignature api bls signer d =
     (if d_sigInfo d = None then Inr (Blk (tlv_invalid api) [])
      else res_bind (data_unsigned api d) (\<lambda>m.
        res_bind (signature_buffer bls ''Error on serializing signature'' (blsSign bls (ms_sk signer) m)) (\<lambda>signatureBuf.
          Inr (Blk TLV_SignatureValue signatureBuf))))"

definition getSignature_info ::
  "('c, 'z) packet_api_scheme \<Rightarrow> ('sk, 'pk, 'sig, 'y) bls_codes_scheme \<Rightarrow> ('c, 'sk, 'pk) mps_signer \<Rightarrow>
   'c data \<Rightarrow> 'c sig_info \<Rightarrow> block res" where
  "getSignature_info api bls signer d sigInfo =
     (if si_type sigInfo \<noteq> SignatureSha256WithBls then Inl (Throws ''Signer got non-BLS signature type'')
      else getSignature api bls signer (d\<lparr>d_sigInfo := Some sigInfo\<rparr>))"

definition sign_data_info ::
  "('c, 'z) packet_api_scheme \<Rightarrow> ('sk, 'pk, 'sig, 'y) bls_codes_scheme \<Rightarrow> ('c, 'sk, 'pk) mps_signer \<Rightarrow>
   'c data \<Rightarrow> 'c sig_info \<Rightarrow> 'c data res" where
  "sign_data_info api bls signer d sigInfo =
     (if si_type sigInfo \<noteq> SignatureSha256WithBls then Inl (Throws ''Bad signature type from signature info '')
      else res_bind (getSignature_info api bls signer d sigInfo) (\<lambda>signature.
        Inr (d\<lparr>d_sigInfo := Some sigInfo, d_sigValue := blk_value signature\<rparr>)))"

text \<open>An empty key locator name stands for the signer's own name.\<close>

definition signer_info :: "('c, 'sk, 'pk) mps_signer \<Rightarrow> 'c name \<Rightarrow> 'c sig_info" where
  "signer_info signer keyLocatorName =
     bls_sig_info (if keyLocatorName = [] then ms_signerName signer else keyLocatorName)"

definition sign_data ::
  "('c, 'z) packet_api_scheme \<Rightarrow> ('sk, 'pk, 'sig, 'y) bls_codes_scheme \<Rightarrow> ('c, 'sk, 'pk) mps_signer \<Rightarrow>
   'c data \<Rightarrow> 'c name \<Rightarrow> 'c data res" where
  "sign_data api bls signer d keyLocatorName =
     sign_data_info api bls signer d (signer_info signer keyLocatorName)"

text \<open>One signed range is used in place, several are copied together.\<close>

definition joined_ranges :: "bytes list \<Rightarrow> bytes" where
  "joined_ranges buf = (case buf of [arr] \<Rightarrow> arr | _ \<Rightarrow> foldl (\<lambda>encoder arr. encoder @ arr) [] buf)"

definition sign_interest_info ::
  "('c, 'z) packet_api_scheme \<Rightarrow> ('sk, 'pk, 'sig, 'y) bls_codes_scheme \<Rightarrow> ('c, 'sk, 'pk) mps_signer \<Rightarrow>
   'c interest \<Rightarrow> 'c sig_info \<Rightarrow> 'c interest res" where
  "sign_interest_info api bls signer i sigInfo =
     (if si_type sigInfo \<noteq> SignatureSha256WithBls then Inl (Throws ''Bad signature type from signature info '')
      else (let i = i\<lparr>i_sigInfo := Some sigInfo\<rparr> in
        res_bind (interest_ranges api i) (\<lambda>buf.
        res_bind (signature_buffer bls ''Error on serializing signature'' (blsSign bls (ms_sk signer) (joined_ranges buf))) (\<lambda>signatureBuf.
          Inr (interest_sealed api (i\<lparr>i_sigValue := signatureBuf\<rparr>))))))"

definition sign_interest ::
  "('c, 'z) packet_api_scheme \<Rightarrow> ('sk, 'pk, 'sig, 'y) bls_codes_scheme \<Rightarrow> ('c, 'sk, 'pk) mps_signer \<Rightarrow>
   'c interest \<Rightarrow> 'c name \<Rightarrow> 'c interest res" where
  "sign_interest api bls signer i keyLocatorName =
     sign_interest_info api bls signer i (signer_info signer keyLocatorName)"

definition getSelfSignCert ::
  "('c, 'z) packet_api_scheme \<Rightarrow> ('sk, 'pk, 'sig, 'y) bls_codes_scheme \<Rightarrow> ('c, 'sk, 'pk) mps_signer \<Rightarrow>
   nat \<Rightarrow> nat \<times> nat \<Rightarrow> 'c data res" where
  "getSelfSignCert api bls signer random period =
     (let certName = ms_signerName signer @ [comp_of_string api ''self-sign'', comp_of_string api (digits_of random)]
      in res_bind (getpublicKeyStr bls signer) (\<lambda>pubKey.
        (let newCert = (new_data certName)\<lparr>d_contentType := ContentType_Key, d_content := Blk TLV_Content pubKey\<rparr>;
             signatureInfo = (bls_sig_info (ms_signerName signer))\<lparr>si_validity := Some period\<rparr>
         in sign_data_info api bls signer newCert signatureInfo)))"

section \<open>MpsVerifier\<close>

record ('c, 'pk) mps_verifier =
  m_certs :: "('c name, 'pk) smap"
  m_signLists :: "('c name, 'c signer_list) smap"
  m_aggregateKey :: "('c name, 'pk) smap"

definition MpsVerifier_new :: "('sk, 'pk, 'sig, 'y) bls_codes_scheme \<Rightarrow> bool \<Rightarrow> ('c, 'pk) mps_verifier res" where
  "MpsVerifier_new bls flag = res_bind (bls_library_init bls flag) (\<lambda>_.
     Inr \<lparr>m_certs = [], m_signLists = [], m_aggregateKey = []\<rparr>)"

definition addCert :: "'c::linorder name \<Rightarrow> 'pk \<Rightarrow> ('c, 'pk) mps_verifier \<Rightarrow> ('c, 'pk) mps_verifier" where
  "addCert keyName pk v = v\<lparr>m_certs := smap_emplace keyName pk (m_certs v)\<rparr>"

text \<open>
  \<^verbatim>\<open>Certificate::getKeyName\<close> drops the issuer and the version, the last two components.
\<close>

definition cert_keyName :: "'c data \<Rightarrow> 'c name" where
  "cert_keyName cert = name_prefix_neg (d_name cert) 2"

definition addCert_certificate ::
  "('sk, 'pk, 'sig, 'y) bls_codes_scheme \<Rightarrow> 'c::linorder data \<Rightarrow> ('c, 'pk) mps_verifier \<Rightarrow>
   ('c, 'pk) mps_verifier res" where
  "addCert_certificate bls cert v =
     (case blsPublicKeyDeserialize bls (pk_uninit bls) (blk_value (d_content cert)) of (pk, ret) \<Rightarrow>
       if ret = 0 then Inl (Throws ''not a BLS key in the certificate'')
       else Inr (v\<lparr>m_certs := smap_emplace (cert_keyName cert) pk (m_certs v)\<rparr>))"

definition addSignerList ::
  "'c::linorder name \<Rightarrow> 'c signer_list \<Rightarrow> ('c, 'pk) mps_verifier \<Rightarrow> ('c, 'pk) mps_verifier" where
  "addSignerList listName lst v = v\<lparr>m_signLists := smap_emplace listName lst (m_signLists v)\<rparr>"

text \<open>\<^verbatim>\<open>hasKeyLocator() && getKeyLocator().getType() == tlv::Name\<close>, with the name.\<close>

definition locator_name :: "'c data \<Rightarrow> 'c name option" where
  "locator_name d = (case d_sigInfo d of
     Some si \<Rightarrow> (case si_keyLocator si of KL_Name n \<Rightarrow> Some n | _ \<Rightarrow> None) | None \<Rightarrow> None)"

definition readyToVerify :: "('c::linorder, 'pk) mps_verifier \<Rightarrow> 'c data \<Rightarrow> bool" where
  "readyToVerify v d = (case locator_name d of
     Some n \<Rightarrow>
       (if smap_count (m_certs v) n = 1 then True
        else (case smap_find (m_signLists v) n of
                None \<Rightarrow> False
              | Some item \<Rightarrow> list_all (\<lambda>signers. smap_count (m_certs v) signers \<noteq> 0) item))
   | None \<Rightarrow> False)"

definition itemsToFetch :: "('c::linorder, 'pk) mps_verifier \<Rightarrow> 'c data \<Rightarrow> 'c name list" where
  "itemsToFetch v d = (case locator_name d of
     Some n \<Rightarrow>
       (if smap_count (m_certs v) n = 1 then []
        else (case smap_find (m_signLists v) n of
                None \<Rightarrow> [n]
              | Some item \<Rightarrow> foldl (\<lambda>ans signers. if smap_count (m_certs v) signers = 0 then ans @ [n] else ans) [] item))
   | None \<Rightarrow> [])"

text \<open>The loop that adds the keys: \<open>None\<close> is the return of false for a key that is not known.\<close>

fun add_certs ::
  "('sk, 'pk, 'sig, 'y) bls_codes_scheme \<Rightarrow> ('c::linorder name, 'pk) smap \<Rightarrow> 'c signer_list \<Rightarrow> 'pk \<times> bool \<Rightarrow> 'pk option" where
  "add_certs bls certs [] (aggKey, aggKeyInitialized) = Some aggKey"
| "add_certs bls certs (signer # rest) (aggKey, aggKeyInitialized) = (case smap_find certs signer of
     None \<Rightarrow> None
   | Some pk \<Rightarrow> (if aggKeyInitialized then add_certs bls certs rest (blsPublicKeyAdd bls aggKey pk, True)
                else add_certs bls certs rest (pk, True)))"

definition check_value ::
  "('sk, 'pk, 'sig, 'y) bls_codes_scheme \<Rightarrow> bytes \<Rightarrow> bytes list res \<Rightarrow> 'pk \<Rightarrow> bool res" where
  "check_value bls sigValue signedRanges aggKey =
     (if blsSignatureDeserialize_code bls sigValue = 0 then Inr False
      else res_bind signedRanges (\<lambda>rs.
        Inr (blsVerify bls (blsSignatureDeserialize bls (sig_uninit bls) sigValue) aggKey (joined_ranges rs) \<noteq> 0)))"

definition expired :: "('c, 's) schema_ops \<Rightarrow> 'c sig_info \<Rightarrow> bool" where
  "expired ops si \<longleftrightarrow> (case si_validity si of Some p \<Rightarrow> \<not> validity_isValid ops p | None \<Rightarrow> False)"

text \<open>
  From the locator on: the policy, the sum of the keys unless there is one already, the signature.
\<close>

definition verify_located ::
  "('c::linorder, 'z) packet_api_scheme \<Rightarrow> ('sk, 'pk, 'sig, 'y) bls_codes_scheme \<Rightarrow> ('c, 's) schema_ops \<Rightarrow>
   ('c, 'pk) mps_verifier \<Rightarrow> 'c data \<Rightarrow> 's \<Rightarrow> 'c signer_list \<Rightarrow> 'pk option \<Rightarrow> bool res" where
  "verify_located api bls ops v d schema locator aggKey =
     (if \<not> isSatisfied ops schema locator then Inr False
      else (case (case aggKey of Some k \<Rightarrow> Some k | None \<Rightarrow> add_certs bls (m_certs v) locator (pk_uninit bls, False)) of
              None \<Rightarrow> Inr False
            | Some k \<Rightarrow> check_value bls (d_sigValue d) (data_ranges api d) k))"

definition verifySignature ::
  "('c::linorder, 'z) packet_api_scheme \<Rightarrow> ('sk, 'pk, 'sig, 'y) bls_codes_scheme \<Rightarrow> ('c, 's) schema_ops \<Rightarrow>
   ('c, 'pk) mps_verifier \<Rightarrow> 'c data \<Rightarrow> 's \<Rightarrow> bool res" where
  "verifySignature api bls ops v d schema =
     (case d_sigInfo d of
        None \<Rightarrow> Inl (Throws ''KeyLocator does not exist'')
      | Some sigInfo \<Rightarrow>
         (if expired ops sigInfo then Inr False
          else (case si_keyLocator sigInfo of
              KL_Empty \<Rightarrow> Inl (Throws ''KeyLocator does not exist'')
            | KL_Digest _ \<Rightarrow> verify_located api bls ops v d schema [] None
            | KL_Name n \<Rightarrow>
               (case smap_find (m_signLists v) n of
                  Some locator \<Rightarrow> verify_located api bls ops v d schema locator (smap_find (m_aggregateKey v) n)
                | None \<Rightarrow> (case smap_find (m_certs v) n of
                     Some pk \<Rightarrow> verify_located api bls ops v d schema [n] (Some pk)
                   | None \<Rightarrow> Inr False)))))"

definition verifySignature_interest ::
  "('c::linorder, 'z) packet_api_scheme \<Rightarrow> ('sk, 'pk, 'sig, 'y) bls_codes_scheme \<Rightarrow> ('c, 's) schema_ops \<Rightarrow>
   ('c, 'pk) mps_verifier \<Rightarrow> 'c interest \<Rightarrow> bool res" where
  "verifySignature_interest api bls ops v i =
     (case i_sigInfo i of
        None \<Rightarrow> Inr False
      | Some sigInfo \<Rightarrow>
         (if expired ops sigInfo then Inr False
          else (case si_keyLocator sigInfo of
              KL_Empty \<Rightarrow> Inl (Throws ''KeyLocator does not exist'')
            | KL_Digest _ \<Rightarrow> Inr False
            | KL_Name n \<Rightarrow> (case smap_find (m_certs v) n of
                None \<Rightarrow> Inr False
              | Some aggKey \<Rightarrow> check_value bls (i_sigValue i) (interest_ranges api i) aggKey))))"

definition verifySignaturePiece ::
  "('c::linorder, 'z) packet_api_scheme \<Rightarrow> ('sk, 'pk, 'sig, 'y) bls_codes_scheme \<Rightarrow> ('c, 's) schema_ops \<Rightarrow>
   ('c, 'pk) mps_verifier \<Rightarrow> 'c data \<Rightarrow> 'c name \<Rightarrow> block \<Rightarrow> bool res" where
  "verifySignaturePiece api bls ops v dataWithInfo signedBy signaturePiece =
     (case d_sigInfo dataWithInfo of
        None \<Rightarrow> Inl (Throws ''Signer got non-BLS signature type'')
      | Some sigInfo \<Rightarrow>
         (if expired ops sigInfo then Inr False
          else if si_type sigInfo \<noteq> SignatureSha256WithBls then Inl (Throws ''Signer got non-BLS signature type'')
          else (case smap_find (m_certs v) signedBy of
              None \<Rightarrow> Inr False
            | Some publicKey \<Rightarrow>
                (if blsSignatureDeserialize_code bls (blk_value signaturePiece) = 0 then Inr False
                 else res_bind (data_unsigned api dataWithInfo) (\<lambda>m.
                   Inr (blsVerify bls (blsSignatureDeserialize bls (sig_uninit bls) (blk_value signaturePiece))
                     publicKey m \<noteq> 0))))))"

definition verifySignaturePiece_info ::
  "('c::linorder, 'z) packet_api_scheme \<Rightarrow> ('sk, 'pk, 'sig, 'y) bls_codes_scheme \<Rightarrow> ('c, 's) schema_ops \<Rightarrow>
   ('c, 'pk) mps_verifier \<Rightarrow> 'c data \<Rightarrow> 'c sig_info \<Rightarrow> 'c name \<Rightarrow> block \<Rightarrow> bool res" where
  "verifySignaturePiece_info api bls ops v d sigInfo signedBy signaturePiece =
     (if si_type sigInfo \<noteq> SignatureSha256WithBls then Inl (Throws ''Signer got non-BLS signature type'')
      else verifySignaturePiece api bls ops v (d\<lparr>d_sigInfo := Some sigInfo\<rparr>) signedBy signaturePiece)"

text \<open>The static functions make a verifier that knows one certificate.\<close>

definition verifySignature_cert ::
  "('c::linorder, 'z) packet_api_scheme \<Rightarrow> ('sk, 'pk, 'sig, 'y) bls_codes_scheme \<Rightarrow> ('c, 's) schema_ops \<Rightarrow>
   bool \<Rightarrow> 'c data \<Rightarrow> 'c data \<Rightarrow> bool res" where
  "verifySignature_cert api bls ops flag d cert =
     res_bind (MpsVerifier_new bls flag) (\<lambda>verifier.
     res_bind (addCert_certificate bls cert verifier) (\<lambda>verifier.
       verifySignature api bls ops verifier d (schema_of_signer ops (cert_keyName cert))))"

definition verifySignature_interest_cert ::
  "('c::linorder, 'z) packet_api_scheme \<Rightarrow> ('sk, 'pk, 'sig, 'y) bls_codes_scheme \<Rightarrow> ('c, 's) schema_ops \<Rightarrow>
   bool \<Rightarrow> 'c interest \<Rightarrow> 'c data \<Rightarrow> bool res" where
  "verifySignature_interest_cert api bls ops flag i cert =
     res_bind (MpsVerifier_new bls flag) (\<lambda>verifier.
     res_bind (addCert_certificate bls cert verifier) (\<lambda>verifier.
       verifySignature_interest api bls ops verifier i))"

section \<open>MpsAggregator\<close>

definition buildMultiSignature ::
  "('c, 'z) packet_api_scheme \<Rightarrow> ('sk, 'pk, 'sig, 'y) bls_codes_scheme \<Rightarrow> 'c data \<Rightarrow> 'sig list \<Rightarrow> 'c data res" where
  "buildMultiSignature api bls dataWithInfo collectedPiece =
     (if d_sigInfo dataWithInfo = None then Inl (Throws ''No signature info for the data'')
      else res_bind (data_unsigned api dataWithInfo) (\<lambda>_.
        res_bind (signature_buffer bls ''Error on serializing'' (blsAggregateSignature bls collectedPiece)) (\<lambda>sigBuffer.
          Inr (dataWithInfo\<lparr>d_sigValue := sigBuffer\<rparr>))))"

definition buildMultiSignature_info ::
  "('c, 'z) packet_api_scheme \<Rightarrow> ('sk, 'pk, 'sig, 'y) bls_codes_scheme \<Rightarrow> 'c data \<Rightarrow> 'c sig_info \<Rightarrow>
   'sig list \<Rightarrow> 'c data res" where
  "buildMultiSignature_info api bls d sigInfo collectedPiece =
     buildMultiSignature api bls (d\<lparr>d_sigInfo := Some sigInfo\<rparr>) collectedPiece"

section \<open>Correctness\<close>

lemma joined_ranges_concat [simp]: "joined_ranges buf = concat buf"
  by (auto simp: joined_ranges_def foldl_append_concat split: list.split)

lemma signature_buffer_ok:
  assumes "bls_code_laws bls"
  shows "signature_buffer bls what sig =
    Inr (blsSignatureSerialize bls (blsGetSerializedSignatureByteSize bls) sig)"
  using sig_bytes [OF assms] by (simp add: signature_buffer_def)

lemma check_value_sig:
  assumes "bls_code_laws bls" and "ranges = Inr rs"
  shows "check_value bls (blsSignatureSerialize bls (blsGetSerializedSignatureByteSize bls) sig) ranges k =
    Inr (blsVerify bls sig k (concat rs) \<noteq> 0)"
  by (simp add: check_value_def assms(2) sig_code [OF assms(1)] sig_reads [OF assms(1)])

lemma getSignature_ok:
  assumes "bls_code_laws bls" and "d_sigInfo d \<noteq> None" and "data_unsigned api d = Inr m"
  shows "getSignature api bls signer d = Inr (Blk TLV_SignatureValue
    (blsSignatureSerialize bls (blsGetSerializedSignatureByteSize bls) (blsSign bls (ms_sk signer) m)))"
  using assms(2,3) by (auto simp: getSignature_def signature_buffer_ok [OF assms(1)])

text \<open>The signed ranges of a packet do not change when its signature value does.\<close>

lemma ranges_of_unsigned:
  assumes "packet_laws api" and "d_sigInfo d \<noteq> None" and "data_unsigned api d = Inr m"
  obtains rs where "data_ranges api (d\<lparr>d_sigValue := v\<rparr>) = Inr rs" and "concat rs = m"
proof -
  have "d_sigInfo (d\<lparr>d_sigValue := v\<rparr>) \<noteq> None" using assms(2) by simp
  with data_ranges_unsigned [OF assms(1)] obtain rs where
    "data_ranges api (d\<lparr>d_sigValue := v\<rparr>) = Inr rs" "data_unsigned api (d\<lparr>d_sigValue := v\<rparr>) = Inr (concat rs)"
    by blast
  with assms(3) that show ?thesis by (simp add: data_unsigned_sigValue [OF assms(1)])
qed

lemma sign_data_info_ok:
  assumes "bls_laws bls skAdd" and "bls_code_laws bls" and "packet_laws api"
    and "si_type info = SignatureSha256WithBls"
  obtains d' rs where "sign_data_info api bls signer d info = Inr d'"
    and "d' = d\<lparr>d_sigInfo := Some info, d_sigValue := d_sigValue d'\<rparr>"
    and "check_value bls (d_sigValue d') (data_ranges api d') (blsGetPublicKey bls (ms_sk signer)) = Inr True"
proof -
  let ?d = "d\<lparr>d_sigInfo := Some info\<rparr>"
  obtain m where m: "data_unsigned api ?d = Inr m"
    using data_ranges_unsigned [OF assms(3), of ?d] by auto
  let ?v = "blsSignatureSerialize bls (blsGetSerializedSignatureByteSize bls) (blsSign bls (ms_sk signer) m)"
  obtain rs where rs: "data_ranges api (?d\<lparr>d_sigValue := ?v\<rparr>) = Inr rs" "concat rs = m"
    using ranges_of_unsigned [OF assms(3) _ m] by auto
  show ?thesis
  proof (rule that [of "?d\<lparr>d_sigValue := ?v\<rparr>"])
    show "sign_data_info api bls signer d info = Inr (?d\<lparr>d_sigValue := ?v\<rparr>)"
      using assms(4) getSignature_ok [OF assms(2) _ m] by (simp add: sign_data_info_def getSignature_info_def)
    show "check_value bls (d_sigValue (?d\<lparr>d_sigValue := ?v\<rparr>)) (data_ranges api (?d\<lparr>d_sigValue := ?v\<rparr>))
        (blsGetPublicKey bls (ms_sk signer)) = Inr True"
      using rs(2) verify_sign [OF assms(1)] by (simp add: check_value_sig [OF assms(2) rs(1)])
  qed simp
qed

text \<open>
  What an \<^verbatim>\<open>MpsSigner\<close> signs, an \<^verbatim>\<open>MpsVerifier\<close> accepts: a packet signed with an
  explicit or the default key locator, and an Interest, verify when the public key of the signer
  is stored under the locator's name and, for a packet, no signer list has this name and the
  schema is satisfied by the one signer.
\<close>

theorem mps_signed_verifies:
  assumes "bls_laws bls skAdd" and "bls_code_laws bls" and "packet_laws api"
    and "n = (if loc = [] then ms_signerName signer else loc)"
    and "smap_find (m_certs v) n = Some (blsGetPublicKey bls (ms_sk signer))"
    and "smap_find (m_signLists v) n = None" and "isSatisfied ops schema [n]"
  shows "\<exists>d' i'. sign_data api bls signer d loc = Inr d' \<and> verifySignature api bls ops v d' schema = Inr True \<and>
    sign_interest api bls signer i loc = Inr i' \<and> verifySignature_interest api bls ops v i' = Inr True"
proof -
  let ?info = "signer_info signer loc"
  have info: "?info = bls_sig_info n" by (simp add: signer_info_def assms(4))
  have type: "si_type ?info = SignatureSha256WithBls" by (simp add: info bls_sig_info_def)
  obtain d' where d': "sign_data_info api bls signer d ?info = Inr d'"
    "d' = d\<lparr>d_sigInfo := Some ?info, d_sigValue := d_sigValue d'\<rparr>"
    "check_value bls (d_sigValue d') (data_ranges api d') (blsGetPublicKey bls (ms_sk signer)) = Inr True"
    using sign_data_info_ok [OF assms(1-3) type] by metis
  have "d_sigInfo d' = Some (bls_sig_info n)" using arg_cong [OF d'(2), of d_sigInfo] by (simp add: info)
  then have data: "verifySignature api bls ops v d' schema = Inr True"
    using assms(5-7) d'(3) by (simp add: verifySignature_def expired_def bls_sig_info_def verify_located_def)
  let ?i = "i\<lparr>i_sigInfo := Some ?info\<rparr>"
  obtain rs where rs: "interest_ranges api ?i = Inr rs"
    using interest_ranges_sealed [OF assms(3), of ?i] by auto
  let ?v = "blsSignatureSerialize bls (blsGetSerializedSignatureByteSize bls) (blsSign bls (ms_sk signer) (concat rs))"
  let ?s = "interest_sealed api (?i\<lparr>i_sigValue := ?v\<rparr>)"
  obtain rs' where "interest_ranges api ?s = Inr rs'" "concat rs' = concat rs"
    using interest_ranges_sealed [OF assms(3), of ?i ?v] rs by auto
  then have "verifySignature_interest api bls ops v ?s = Inr True"
    using assms(5) verify_sign [OF assms(1)]
    by (simp add: verifySignature_interest_def sealed_sigInfo [OF assms(3)] sealed_sigValue [OF assms(3)] info
        expired_def bls_sig_info_def check_value_sig [OF assms(2)])
  moreover have "sign_interest api bls signer i loc = Inr ?s"
    using rs type by (simp add: sign_interest_def sign_interest_info_def signature_buffer_ok [OF assms(2)])
  ultimately show ?thesis using data d'(1) by (simp add: sign_data_def)
qed

lemma foldl_collect: "foldl (\<lambda>ans x. if P x then ans @ [n] else ans) acc xs = acc @ replicate (count_if P xs) n"
  by (induction xs arbitrary: acc) (simp_all add: replicate_append_same)

lemma itemsToFetch_eq:
  "itemsToFetch v d = (case locator_name d of
     None \<Rightarrow> []
   | Some n \<Rightarrow> (if smap_find (m_certs v) n \<noteq> None then []
       else (case smap_find (m_signLists v) n of
          None \<Rightarrow> [n]
        | Some l \<Rightarrow> replicate (count_if (\<lambda>x. smap_find (m_certs v) x = None) l) n)))"
  by (simp add: itemsToFetch_def foldl_collect split: option.split)

lemma itemsToFetch_locator: "set (itemsToFetch v d) \<subseteq> set_option (locator_name d)"
  by (auto simp: itemsToFetch_eq split: option.split if_splits)

lemma ready_iff_items: "readyToVerify v d \<longleftrightarrow> locator_name d \<noteq> None \<and> itemsToFetch v d = []"
proof -
  have "list_all (\<lambda>x. smap_count m x \<noteq> 0) l \<longleftrightarrow> count_if (\<lambda>x. smap_find m x = None) l = 0"
    for m :: "('a name, 'b) smap" and l
    by (auto simp: count_if_def filter_empty_conv list_all_iff)
  then show ?thesis
    by (auto simp: readyToVerify_def itemsToFetch_eq split: option.split if_splits)
qed

text \<open>
  \<^verbatim>\<open>readyToVerify\<close> and \<^verbatim>\<open>itemsToFetch\<close> agree: a packet can be verified exactly
  when its key locator is a name and nothing has to be fetched. What is to be fetched is always
  the locator's own name, once for each key that is missing: the name of a missing key is never
  asked for.
\<close>

theorem ready_iff_nothing_to_fetch:
  "(readyToVerify v d \<longleftrightarrow> locator_name d \<noteq> None \<and> itemsToFetch v d = []) \<and>
   set (itemsToFetch v d) \<subseteq> set_option (locator_name d)"
  using ready_iff_items itemsToFetch_locator by blast

section \<open>Aggregates\<close>

lemma add_certs_known:
  assumes "\<forall>s \<in> set ss. smap_find certs (f s) = Some (pk s)"
  shows "add_certs bls certs (map f ss) (k, True) = Some (foldl (blsPublicKeyAdd bls) k (map pk ss))"
  using assms by (induction ss arbitrary: k) auto

lemma add_certs_unknown:
  assumes "x \<in> set l" and "smap_find certs x = None"
  shows "add_certs bls certs l st = None"
  using assms by (induction bls certs l st rule: add_certs.induct) (auto split: option.split)

lemma add_certs_start:
  assumes "\<forall>x \<in> set (s # ss). smap_find certs (f x) = Some (pk x)"
  shows "add_certs bls certs (map f (s # ss)) (u, False) =
    Some (foldl (blsPublicKeyAdd bls) (pk s) (map pk ss))"
  using assms add_certs_known [of ss certs f pk bls "pk s"] by simp

lemma aggregate_signs:
  assumes "bls_laws bls skAdd" and "bls_code_laws bls"
  shows "blsAggregateSignature bls (map (\<lambda>s. blsSign bls (sk s) m) (s # ss)) =
    blsSign bls (foldl skAdd (sk s) (map sk ss)) m"
  using foldl_sig_sks [OF assms(1), of "sk s" m "map sk ss"]
  by (simp add: aggregate_sum [OF assms(2)] o_def)

text \<open>The verification of a packet whose locator names a known list without a cached key.\<close>

lemma verifySignature_list:
  assumes "d_sigInfo d = Some info" and "\<not> expired ops info" and "si_keyLocator info = KL_Name n"
    and "smap_find (m_signLists v) n = Some l" and "smap_find (m_aggregateKey v) n = None"
  shows "verifySignature api bls ops v d schema =
    (if \<not> isSatisfied ops schema l then Inr False
     else (case add_certs bls (m_certs v) l (pk_uninit bls, False) of
         None \<Rightarrow> Inr False
       | Some k \<Rightarrow> check_value bls (d_sigValue d) (data_ranges api d) k))"
  using assms by (simp add: verifySignature_def verify_located_def)

text \<open>
  C17: the prototype's multi-signatures: every piece that one of the signers makes of the packet
  passes \<^verbatim>\<open>verifySignaturePiece\<close>, and the packet that \<^verbatim>\<open>buildMultiSignature\<close> makes of
  the deserialised pieces passes \<^verbatim>\<open>verifySignature\<close>, whenever the list under the packet's
  locator is that of the signers and the schema accepts it.
\<close>

theorem mps_multi_signature_verifies:
  assumes "bls_laws bls skAdd" and "bls_code_laws bls" and "packet_laws api"
    and "d_sigInfo d = Some info" and "si_type info = SignatureSha256WithBls" and "\<not> expired ops info"
    and "si_keyLocator info = KL_Name n"
    and "smap_find (m_signLists v) n = Some (map ms_signerName signers)"
    and "smap_find (m_aggregateKey v) n = None" and "signers \<noteq> []"
    and "\<forall>s \<in> set signers. smap_find (m_certs v) (ms_signerName s) = Some (blsGetPublicKey bls (ms_sk s))"
    and "isSatisfied ops schema (map ms_signerName signers)"
  shows "\<exists>pieces d'.
    list_all2 (\<lambda>s piece. getSignature api bls s d = Inr piece \<and>
      verifySignaturePiece api bls ops v d (ms_signerName s) piece = Inr True) signers pieces \<and>
    buildMultiSignature api bls d (map (\<lambda>b. blsSignatureDeserialize bls (sig_uninit bls) (blk_value b)) pieces) = Inr d' \<and>
    verifySignature api bls ops v d' schema = Inr True"
proof -
  obtain m where m: "data_unsigned api d = Inr m"
    using data_ranges_unsigned [OF assms(3), of d] assms(4) by auto
  obtain s ss where ss: "signers = s # ss" using assms(10) by (cases signers) auto
  let ?ser = "\<lambda>sig. blsSignatureSerialize bls (blsGetSerializedSignatureByteSize bls) sig"
  let ?piece = "\<lambda>s. Blk TLV_SignatureValue (?ser (blsSign bls (ms_sk s) m))"
  let ?k = "foldl skAdd (ms_sk s) (map ms_sk ss)"
  let ?d = "d\<lparr>d_sigValue := ?ser (blsSign bls ?k m)\<rparr>"
  have "list_all2 (\<lambda>s piece. getSignature api bls s d = Inr piece \<and>
      verifySignaturePiece api bls ops v d (ms_signerName s) piece = Inr True) signers (map ?piece signers)"
    using assms(4-6,11) m verify_sign [OF assms(1)]
    by (auto simp: list_all2_map2 list_all2_same getSignature_ok [OF assms(2) _ m] verifySignaturePiece_def
        sig_code [OF assms(2)] sig_reads [OF assms(2)])
  moreover have "buildMultiSignature api bls d
      (map (\<lambda>b. blsSignatureDeserialize bls (sig_uninit bls) (blk_value b)) (map ?piece signers)) = Inr ?d"
    using assms(4) m aggregate_signs [OF assms(1,2), of ms_sk m s ss]
    by (simp add: buildMultiSignature_def signature_buffer_ok [OF assms(2)] sig_reads [OF assms(2)] o_def ss)
  moreover have "verifySignature api bls ops v ?d schema = Inr True"
  proof -
    obtain rs where rs: "data_ranges api ?d = Inr rs" "concat rs = m"
      using ranges_of_unsigned [OF assms(3) _ m] assms(4) by auto
    have "add_certs bls (m_certs v) (map ms_signerName signers) (pk_uninit bls, False) = Some (blsGetPublicKey bls ?k)"
      using add_certs_start [OF assms(11) [unfolded ss], of bls "pk_uninit bls"]
        foldl_pk_sks [OF assms(1), of "ms_sk s" "map ms_sk ss"] by (simp add: ss o_def)
    then show ?thesis
      using assms(4,6-9,12) rs verify_sign [OF assms(1)]
      by (simp add: verifySignature_list [of ?d info ops n v] check_value_sig [OF assms(2) refl])
  qed
  ultimately show ?thesis by blast
qed

text \<open>
  C18: the prototype and the library decide alike. When the verifier of the prototype holds, under the
  packet's key locator, the same non-empty signer list that the info packet carries, knows the
  same keys for it and has the same policy, then \<^verbatim>\<open>MpsVerifier::verifySignature\<close> and
  \<^verbatim>\<open>BLSVerifier::verify\<close> return the same, exceptions included, for every packet whose
  signature value can be read and whose signature info is not out of its validity period.
\<close>

theorem prototype_verifies_alike:
  assumes "bls_code_laws bls" and "d_sigInfo d = Some info" and "\<not> expired ops info"
    and "si_keyLocator info = KL_Name n" and "blsSignatureDeserialize_code bls (d_sigValue d) \<noteq> 0"
    and "is_prefix_of n (d_name sid)" and "block_parse api (d_content sid) = Inr es"
    and "tlv_get api es tlv_MpsSignerList = Inr b" and "blk_valid api b" and "signers_wireDecode api b = Inr l"
    and "l \<noteq> []" and "smap_find (m_signLists v) n = Some l" and "smap_find (m_aggregateKey v) n = None"
    and "\<forall>x \<in> set l. trusted_key c x = smap_find (m_certs v) x"
    and "container_passSchema api c (d_name d) l \<longleftrightarrow>
      isSatisfied ops schema l \<and> (\<forall>x \<in> set l. smap_find (m_certs v) x \<noteq> None)"
  shows "verifySignature api bls ops v d schema = verify api bls c d sid"
proof -
  have kl: "key_locator_name (d_sigInfo d) = Inr n" using assms(2,4) by (simp add: key_locator_name_def)
  note new = verify_with_list [OF kl assms(6-10), of bls c]
  show ?thesis
  proof (cases "\<forall>x \<in> set l. smap_find (m_certs v) x \<noteq> None")
    case True
    then have known: "\<forall>x \<in> set l. smap_find (m_certs v) x = Some (the (trusted_key c x))"
      using assms(14) by auto
    have trusted: "\<forall>x \<in> set l. trusted_key c x \<noteq> None" using True assms(14) by auto
    obtain a as where l: "l = a # as" using assms(11) by (cases l) auto
    let ?k = "foldl (blsPublicKeyAdd bls) (the (trusted_key c a)) (map (\<lambda>x. the (trusted_key c x)) as)"
    have agg: "aggregateKey bls c l = Inr ?k" using aggregate_trusted [OF trusted l] .
    have old: "add_certs bls (m_certs v) l (pk_uninit bls, False) = Some ?k"
      using add_certs_start [of a as "m_certs v" "\<lambda>x. x" "\<lambda>x. the (trusted_key c x)" bls] known
      unfolding l by simp
    have "check_value bls (d_sigValue d) (data_ranges api d) ?k = ndnBLSVerify_data api bls ?k d"
      using assms(5) verify_bool [OF assms(1)]
      by (cases "data_ranges api d") (auto simp: check_value_def ndnBLSVerify_data_def foldl_append_concat)
    with True new agg old assms(15) verifySignature_list [OF assms(2-4,12,13), of api bls schema]
    show ?thesis by simp
  next
    case False
    then have "add_certs bls (m_certs v) l (pk_uninit bls, False) = None" using add_certs_unknown by metis
    moreover have "\<not> container_passSchema api c (d_name d) l" using False assms(15) by blast
    ultimately show ?thesis
      using new verifySignature_list [OF assms(2-4,12,13), of api bls schema] by simp
  qed
qed

section \<open>Certificates\<close>

text \<open>
  The certificate a signer makes for itself carries its key under its name: a verifier that adds
  it knows the key of the signer, and the certificate verifies against itself as long as its
  validity period lasts, and not outside it.
\<close>

theorem self_cert_verifies:
  assumes "bls_laws bls skAdd" and "bls_code_laws bls" and "packet_laws api" and "flag \<or> blsInit bls = 0"
    and "ms_pk signer = blsGetPublicKey bls (ms_sk signer)"
    and "isSatisfied ops (schema_of_signer ops (ms_signerName signer)) [ms_signerName signer]"
  shows "\<exists>cert. getSelfSignCert api bls signer random period = Inr cert \<and>
    (\<forall>v. addCert_certificate bls cert v = Inr (addCert (ms_signerName signer) (ms_pk signer) v)) \<and>
    verifySignature_cert api bls ops flag cert cert = Inr (validity_isValid ops period)"
proof -
  let ?n = "ms_signerName signer"
  let ?info = "(bls_sig_info ?n)\<lparr>si_validity := Some period\<rparr>"
  let ?name = "?n @ [comp_of_string api ''self-sign'', comp_of_string api (digits_of random)]"
  let ?b = "blsPublicKeySerialize bls (blsGetSerializedPublicKeyByteSize bls) (ms_pk signer)"
  let ?new = "(new_data ?name)\<lparr>d_contentType := ContentType_Key, d_content := Blk TLV_Content ?b\<rparr>"
  have type: "si_type ?info = SignatureSha256WithBls" by (simp add: bls_sig_info_def)
  obtain cert where cert: "sign_data_info api bls signer ?new ?info = Inr cert"
    "cert = ?new\<lparr>d_sigInfo := Some ?info, d_sigValue := d_sigValue cert\<rparr>"
    "check_value bls (d_sigValue cert) (data_ranges api cert) (blsGetPublicKey bls (ms_sk signer)) = Inr True"
    using sign_data_info_ok [OF assms(1-3) type] by metis
  have fields: "d_name cert = ?name" "d_content cert = Blk TLV_Content ?b" "d_sigInfo cert = Some ?info"
    using arg_cong [OF cert(2), of d_name] arg_cong [OF cert(2), of d_content] arg_cong [OF cert(2), of d_sigInfo]
    by (simp_all add: new_data_def)
  then have name: "cert_keyName cert = ?n" by (simp add: cert_keyName_def)
  obtain r where r: "blsPublicKeyDeserialize bls (pk_uninit bls) ?b = (ms_pk signer, r)" "r \<noteq> 0"
    using pk_reads [OF assms(2)] by blast
  have add: "addCert_certificate bls cert v = Inr (addCert ?n (ms_pk signer) v)" for v
    using r by (simp add: addCert_certificate_def addCert_def fields name)
  have "verifySignature_cert api bls ops flag cert cert = Inr (validity_isValid ops period)"
    using assms(4-6) cert(3) add
    by (auto simp: verifySignature_cert_def MpsVerifier_new_def bls_library_init_def addCert_def name
        verifySignature_def fields(3) expired_def bls_sig_info_def verify_located_def smap_emplace_def smap_find_def)
  with add cert(1) show ?thesis
    using pk_bytes [OF assms(2)] by (auto simp: getSelfSignCert_def getpublicKeyStr_def)
qed

end
