(* ===== verification/Players_Signer.thy ===== *)
theory Players_Signer
  imports Crypto_Players Signer
begin

text \<open>
  The signer of the prototype, \<^verbatim>\<open>Signer\<close> of \<^verbatim>\<open>temp/players.cpp\<close>: it answers a
  sign request with an acknowledgement, fetches the wrapped packet, and keeps the results in a map
  by request identifier until they are fetched. The packets carry no encryption. A handler returns
  the changed object, what it sends, and the exception that leaves it.

  \<open>players_api\<close> adds to the interface of ndn-cxx what only the prototype calls. An empty
  \<^verbatim>\<open>std::function\<close> is \<open>None\<close>.
\<close>

section \<open>The library\<close>

record 'c players_api = "'c packet_api" +
  isImplicitSha256Digest :: "'c \<Rightarrow> bool"
  isParametersSha256Digest :: "'c \<Rightarrow> bool"
  isVersion :: "'c \<Rightarrow> bool"
  toVersion :: "'c \<Rightarrow> nat res"
  comp_to_number :: "'c \<Rightarrow> nat res"
  getFullName :: "'c data \<Rightarrow> 'c name"
  isValidName :: "'c name \<Rightarrow> bool"

text \<open>
  The readers of number and version components invert their makers; the full name of a packet
  adds its implicit digest to the name.
\<close>

definition players_laws :: "('c, 'z) players_api_scheme \<Rightarrow> bool" where
  "players_laws api \<longleftrightarrow>
     (\<forall>n < 2 ^ 64. comp_to_number api (comp_of_number api n) = Inr n) \<and>
     (\<forall>n < 2 ^ 64. isVersion api (comp_of_version api n) \<and> toVersion api (comp_of_version api n) = Inr n) \<and>
     (\<forall>n. \<not> isVersion api (comp_of_number api n)) \<and>
     (\<forall>d. \<exists>c. getFullName api d = d_name d @ [c] \<and> isImplicitSha256Digest api c)"

lemma players_lawsD:
  assumes "players_laws api"
  shows number_reads: "n < 2 ^ 64 \<Longrightarrow> comp_to_number api (comp_of_number api n) = Inr n"
    and version_is: "n < 2 ^ 64 \<Longrightarrow> isVersion api (comp_of_version api n)"
    and version_reads: "n < 2 ^ 64 \<Longrightarrow> toVersion api (comp_of_version api n) = Inr n"
    and number_no_version: "\<not> isVersion api (comp_of_number api n)"
    and full_name: "\<exists>c. getFullName api d = d_name d @ [c] \<and> isImplicitSha256Digest api c"
  using assms unfolding players_laws_def by blast+

section \<open>State\<close>

record request_instance =
  ri_code :: ReplyCode
  ri_signatureValue :: bytes
  ri_version :: nat

record ('c, 'sk, 'pk) signer_object =
  so_dataVerifyCallback :: "('c data \<Rightarrow> bool) option"
  so_interestVerifyCallback :: "('c interest \<Rightarrow> bool) option"
  so_results :: "(nat, request_instance) smap"
  so_sk :: 'sk
  so_pk :: 'pk
  so_keyName :: "'c name"
  so_prefix :: "'c name"

datatype 'c signer_effect = SetFilter "'c name" | Put "'c data" | Express "'c interest"

type_synonym ('c, 'sk, 'pk) signer_result = "('c, 'sk, 'pk) signer_object \<times> 'c signer_effect list \<times> fault option"

section \<open>The operations\<close>

text \<open>The constructor; the secret key comes from the random generator.\<close>

definition Signer_new ::
  "('c, 'z) players_api_scheme \<Rightarrow> ('sk, 'pk, 'sig, 'y) bls_codes_scheme \<Rightarrow> 'sk \<Rightarrow> 'c name \<Rightarrow> 'c name \<Rightarrow>
   ('c, 'sk, 'pk) signer_object \<times> 'c signer_effect list" where
  "Signer_new api bls sk prefix keyName =
     (\<lparr>so_dataVerifyCallback = None, so_interestVerifyCallback = None, so_results = [], so_sk = sk,
       so_pk = blsGetPublicKey bls sk, so_keyName = keyName, so_prefix = prefix\<rparr>,
      [SetFilter (prefix @ [comp_of_string api ''mps'', comp_of_string api ''sign'']),
       SetFilter (prefix @ [comp_of_string api ''mps'', comp_of_string api ''result''])])"

definition setDataVerifyCallback ::
  "('c data \<Rightarrow> bool) option \<Rightarrow> ('c, 'sk, 'pk) signer_object \<Rightarrow> ('c, 'sk, 'pk) signer_object" where
  "setDataVerifyCallback func so = so\<lparr>so_dataVerifyCallback := func\<rparr>"

definition setSignatureVerifyCallback ::
  "('c interest \<Rightarrow> bool) option \<Rightarrow> ('c, 'sk, 'pk) signer_object \<Rightarrow> ('c, 'sk, 'pk) signer_object" where
  "setSignatureVerifyCallback func so = so\<lparr>so_interestVerifyCallback := func\<rparr>"

text \<open>Calling a callback that may be empty: \<^verbatim>\<open>f && f(x)\<close>.\<close>

definition accepted :: "('a \<Rightarrow> bool) option \<Rightarrow> 'a \<Rightarrow> bool" where
  "accepted f x = (case f of None \<Rightarrow> False | Some g \<Rightarrow> g x)"

text \<open>The status of an acknowledgement is that of \<^verbatim>\<open>Processing\<close>, whatever the code.\<close>

definition generateAck ::
  "('c, 'z) players_api_scheme \<Rightarrow> ('sk, 'pk, 'sig, 'y) bls_codes_scheme \<Rightarrow> ('c, 'sk, 'pk) signer_object \<Rightarrow>
   'c name \<Rightarrow> ReplyCode \<Rightarrow> nat \<Rightarrow> 'c data res" where
  "generateAck api bls so interestName code requestId =
     (let status = str_block api tlv_Status (code_text Processing);
          contentBlock = (if code = Processing
            then [status, nn_block api tlv_ResultAfter ESTIMATE_PROCESS_TIME,
                  nested_block api tlv_ResultName (name_wire api (so_prefix so @
                    [comp_of_string api ''mps'', comp_of_string api ''result'', comp_of_number api requestId]))]
            else [status]);
          ack = (new_data interestName)\<lparr>d_content := content_of api (block_with api TLV_Content contentBlock),
            d_freshness := TIMEOUT\<rparr>
      in ndnBLSSign_data api bls (so_sk so) ack (so_keyName so))"

definition put_ack ::
  "('c, 'z) players_api_scheme \<Rightarrow> ('sk, 'pk, 'sig, 'y) bls_codes_scheme \<Rightarrow> ('c, 'sk, 'pk) signer_object \<Rightarrow>
   'c name \<Rightarrow> ReplyCode \<Rightarrow> ('c, 'sk, 'pk) signer_result" where
  "put_ack api bls so interestName code =
     (case generateAck api bls so interestName code 0 of
        Inl e \<Rightarrow> (so, [], Some e) | Inr ack \<Rightarrow> (so, [Put ack], None))"

text \<open>
  The \<^verbatim>\<open>try\<close> block of \<^verbatim>\<open>onSignRequest\<close>: \<^verbatim>\<open>Name::at\<close> throws out of range,
  \<^verbatim>\<open>Name::get\<close> is undefined there.
\<close>

definition parse_wrapper_name ::
  "('c, 'z) players_api_scheme \<Rightarrow> ('c, 'sk, 'pk) signer_object \<Rightarrow> 'c interest \<Rightarrow> block list \<Rightarrow> 'c name res" where
  "parse_wrapper_name api so interest paramBlock =
     res_bind (tlv_get api paramBlock tlv_ParameterDataName) (\<lambda>nameBlock.
       if \<not> blk_valid api nameBlock
       then Inl (Throws ''Block Element not found or Bad element type in signer's request'')
       else
     res_bind (res_bind (block_from_value api nameBlock) (name_of_block api)) (\<lambda>wrapperName.
       if wrapperName = [] then Inl (Throws ''Name::at'')
       else if \<not> isImplicitSha256Digest api (last wrapperName) then Inl (Throws ''digest not found for data'')
       else if length (i_name interest) \<le> length (so_prefix so) + 2 then Inl (Undefined ''Name::get'')
       else if \<not> isParametersSha256Digest api (i_name interest ! (length (so_prefix so) + 2))
       then Inl (Throws ''interest not end with parameter digest.'')
       else Inr wrapperName))"

definition signer_onSignRequest ::
  "('c, 'z) players_api_scheme \<Rightarrow> ('sk, 'pk, 'sig, 'y) bls_codes_scheme \<Rightarrow> nat \<Rightarrow> 'c interest \<Rightarrow>
   ('c, 'sk, 'pk) signer_object \<Rightarrow> ('c, 'sk, 'pk) signer_result" where
  "signer_onSignRequest api bls randomId interest so =
     (if \<not> accepted (so_interestVerifyCallback so) interest
      then put_ack api bls so (i_name interest) Unauthorized
      else (case block_parse api (i_appParams interest) of
        Inl e \<Rightarrow> (so, [], Some e)
      | Inr paramBlock \<Rightarrow>
         (case parse_wrapper_name api so interest paramBlock of
            Inl (Throws _) \<Rightarrow> put_ack api bls so (i_name interest) BadRequest
          | Inl (Undefined u) \<Rightarrow> (so, [], Some (Undefined u))
          | Inr wrapperName \<Rightarrow>
             (let so = so\<lparr>so_results := smap_emplace randomId
                    \<lparr>ri_code = Processing, ri_signatureValue = [], ri_version = 0\<rparr> (so_results so)\<rparr>
              in (case generateAck api bls so (i_name interest) Processing randomId of
                    Inl e \<Rightarrow> (so, [], Some e)
                  | Inr ack \<Rightarrow> (so, [Put ack, Express ((new_interest wrapperName)
                      \<lparr>i_canBePrefix := False, i_mustBeFresh := True, i_lifetime := TIMEOUT\<rparr>)], None))))))"

text \<open>
  The continuations of the fetch capture the local variable \<^verbatim>\<open>randomId\<close> by reference, and run
  when the function has returned: \<open>randomId\<close> is here whatever they read in its place.
  \<^verbatim>\<open>m_results[randomId]\<close> makes a new entry when there is none. After a decoding error the
  callback sees what \<^verbatim>\<open>wireDecode\<close> left of the packet, \<open>partial\<close>.
\<close>

definition result_at :: "(nat, request_instance) smap \<Rightarrow> nat \<Rightarrow> request_instance" where
  "result_at results k = (case smap_find results k of
     Some r \<Rightarrow> r | None \<Rightarrow> \<lparr>ri_code = Processing, ri_signatureValue = [], ri_version = 0\<rparr>)"

definition set_result_code :: "nat \<Rightarrow> ReplyCode \<Rightarrow> ('c, 'sk, 'pk) signer_object \<Rightarrow> ('c, 'sk, 'pk) signer_object" where
  "set_result_code k code so = so\<lparr>so_results := smap_put k ((result_at (so_results so) k)\<lparr>ri_code := code\<rparr>) (so_results so)\<rparr>"

datatype 'c signer_fetch = Fetched "'c data" | FetchFailed

fun signer_onFetched ::
  "('c, 'z) players_api_scheme \<Rightarrow> ('sk, 'pk, 'sig, 'y) bls_codes_scheme \<Rightarrow> 'c data \<Rightarrow> nat \<Rightarrow> 'c signer_fetch \<Rightarrow>
   ('c, 'sk, 'pk) signer_object \<Rightarrow> ('c, 'sk, 'pk) signer_object \<times> fault option" where
  "signer_onFetched api bls partial randomId (Fetched d) so =
     (case res_bind (block_from_value api (d_content d)) (data_of_block api) of
        Inl (Undefined u) \<Rightarrow> (so, Some (Undefined u))
      | r \<Rightarrow>
         (let (unsignedData, code) = (case r of Inr x \<Rightarrow> (x, OK) | Inl _ \<Rightarrow> (partial, FailedDependency));
              code = (if \<not> accepted (so_dataVerifyCallback so) unsignedData then Unauthorized else code);
              so = set_result_code randomId code so
          in if code \<noteq> OK then (so, None)
             else (case ndnGenBLSSignature_data api bls (so_sk so) unsignedData of
                 Inl e \<Rightarrow> (so, Some e)
               | Inr sigValue \<Rightarrow> (so\<lparr>so_results := smap_put randomId
                   ((result_at (so_results so) randomId)\<lparr>ri_signatureValue := sigValue\<rparr>) (so_results so)\<rparr>, None))))"
| "signer_onFetched api bls partial randomId FetchFailed so = (set_result_code randomId FailedDependency so, None)"

text \<open>
  The reply to a fetch by its code: the elements of the content, and the results that are left. A
  final code is told once.
\<close>

definition result_content ::
  "('c, 'z) players_api_scheme \<Rightarrow> ('c, 'sk, 'pk) signer_object \<Rightarrow> nat \<Rightarrow> request_instance \<Rightarrow>
   (nat, request_instance) smap \<times> block list" where
  "result_content api so resultId requestInstance =
     (let status = str_block api tlv_Status (code_text (ri_code requestInstance)) in
      if ri_code requestInstance = Processing
      then (let version = (ri_version requestInstance + 1) mod 2 ^ 64 in
            (smap_put resultId (requestInstance\<lparr>ri_version := version\<rparr>) (so_results so),
             [status, nn_block api tlv_ResultAfter ESTIMATE_PROCESS_TIME,
              nested_block api tlv_ResultName (name_wire api
                (result_name api (so_prefix so) resultId @ [comp_of_version api version]))]))
      else if ri_code requestInstance = OK
      then (smap_erase resultId (so_results so),
            [status, Blk TLV_SignatureValue (ri_signatureValue requestInstance)])
      else (smap_erase resultId (so_results so), [status]))"

definition signer_onResultFetch ::
  "('c, 'z) players_api_scheme \<Rightarrow> ('sk, 'pk, 'sig, 'y) bls_codes_scheme \<Rightarrow> 'c interest \<Rightarrow>
   ('c, 'sk, 'pk) signer_object \<Rightarrow> ('c, 'sk, 'pk) signer_result" where
  "signer_onResultFetch api bls interest so =
     (if length (i_name interest) \<noteq> length (so_prefix so) + 3 then (so, [], None)
      else (case comp_to_number api (i_name interest ! (length (so_prefix so) + 2)) of
        Inl e \<Rightarrow> (so, [], Some e)
      | Inr resultId \<Rightarrow>
         (case smap_find (so_results so) resultId of
            None \<Rightarrow> (so, [], None)
          | Some requestInstance \<Rightarrow>
             (case result_content api so resultId requestInstance of (results, contentBlock) \<Rightarrow>
               (let so = so\<lparr>so_results := results\<rparr>;
                    result = (new_data (i_name interest))
                      \<lparr>d_content := content_of api (block_with api TLV_Content contentBlock), d_freshness := TIMEOUT\<rparr>
                in (case ndnBLSSign_data api bls (so_sk so) result (so_keyName so) of
                      Inl e \<Rightarrow> (so, [], Some e) | Inr result \<Rightarrow> (so, [Put result], None)))))))"

section \<open>Correctness\<close>

lemma ndnBLSSign_data_ok:
  assumes "bls_laws bls skAdd" and "packet_laws api"
  obtains d' where "ndnBLSSign_data api bls k d n = Inr d'" and "d_name d' = d_name d" and "d_content d' = d_content d"
    and "ndnBLSVerify_data api bls (blsGetPublicKey bls k) d' = Inr True"
proof -
  let ?d = "d\<lparr>d_sigInfo := Some (bls_sig_info n)\<rparr>"
  obtain m where m: "data_unsigned api ?d = Inr m"
    using data_ranges_unsigned [OF assms(2), of ?d] by auto
  show ?thesis
    using that [of "?d\<lparr>d_sigValue := blsSignatureSerialize bls encodingBuf_size (blsSign bls k m)\<rparr>"]
      verify_data_signed [OF assms _ m, of k] m
    by (simp add: ndnBLSSign_data_def ndnBLSSign_data_info_def ndnGenBLSSignature_data_def bls_sig_info_def)
qed

lemma content_elements:
  assumes "tlv_laws api" and "packet_laws api"
  shows "block_parse api (content_of api (block_with api TLV_Content es)) = Inr es"
  by (simp add: content_of_eq [OF assms(2)] block_parse_with [OF assms(1)])

lemma wrong_length_dropped:
  assumes "length (i_name i) \<noteq> length (so_prefix so) + 3"
  shows "signer_onResultFetch api bls i so = (so, [], None)"
  using assms by (simp add: signer_onResultFetch_def)

lemma result_fetch:
  assumes "bls_laws bls skAdd" and "tlv_laws api" and "packet_laws api" and "players_laws api"
    and "rid < 2 ^ 64" and "i_name i = result_name api (so_prefix so) rid"
    and "smap_find (so_results so) rid = Some r"
  obtains d where "signer_onResultFetch api bls i so =
      (so\<lparr>so_results := fst (result_content api so rid r)\<rparr>, [Put d], None)"
    and "d_name d = i_name i" and "block_parse api (d_content d) = Inr (snd (result_content api so rid r))"
    and "ndnBLSVerify_data api bls (blsGetPublicKey bls (so_sk so)) d = Inr True"
proof -
  obtain results es where rc: "result_content api so rid r = (results, es)" by fastforce
  let ?d = "(new_data (i_name i))\<lparr>d_content := content_of api (block_with api TLV_Content es), d_freshness := TIMEOUT\<rparr>"
  obtain d where d: "ndnBLSSign_data api bls (so_sk so) ?d (so_keyName so) = Inr d" "d_name d = d_name ?d"
    "d_content d = d_content ?d" "ndnBLSVerify_data api bls (blsGetPublicKey bls (so_sk so)) d = Inr True"
    using ndnBLSSign_data_ok [OF assms(1,3)] by metis
  have "comp_to_number api (i_name i ! (length (so_prefix so) + 2)) = Inr rid"
    using number_reads [OF assms(4,5)] by (simp add: assms(6) result_name_def nth_append)
  moreover have "length (i_name i) = length (so_prefix so) + 3" by (simp add: assms(6) result_name_def)
  ultimately have "signer_onResultFetch api bls i so = (so\<lparr>so_results := results\<rparr>, [Put d], None)"
    using assms(7) d(1) by (simp add: signer_onResultFetch_def rc)
  with d(2-4) show ?thesis
    by (intro that) (simp_all add: rc new_data_def content_elements [OF assms(2,3)])
qed

lemma unknown_result_dropped:
  assumes "players_laws api" and "rid < 2 ^ 64" and "i_name i = result_name api (so_prefix so) rid"
    and "smap_find (so_results so) rid = None"
  shows "signer_onResultFetch api bls i so = (so, [], None)"
  using number_reads [OF assms(1,2)] assms(3,4)
  by (simp add: signer_onResultFetch_def result_name_def nth_append)

text \<open>
  C29: a final result is told once. When the request \<open>rid\<close> has a final code, the Interest for its
  result is answered by a packet that verifies under the signer's key and carries the code, and
  for \<^verbatim>\<open>OK\<close> the signature piece; the request is then forgotten, and the same Interest
  gets no answer any more.
\<close>

theorem prototype_result_once:
  assumes "bls_laws bls skAdd" and "tlv_laws api" and "packet_laws api" and "players_laws api"
    and "rid < 2 ^ 64" and "i_name i = result_name api (so_prefix so) rid"
    and "smap_find (so_results so) rid = Some r" and "ri_code r \<noteq> Processing"
  shows "\<exists>so' d es b. signer_onResultFetch api bls i so = (so', [Put d], None) \<and>
    d_name d = i_name i \<and> ndnBLSVerify_data api bls (blsGetPublicKey bls (so_sk so)) d = Inr True \<and>
    block_parse api (d_content d) = Inr es \<and>
    tlv_get api es tlv_Status = Inr b \<and> read_string api b = code_text (ri_code r) \<and>
    (ri_code r = OK \<longrightarrow> tlv_get api es TLV_SignatureValue = Inr (Blk TLV_SignatureValue (ri_signatureValue r))) \<and>
    signer_onResultFetch api bls i so' = (so', [], None)"
proof -
  let ?so = "so\<lparr>so_results := fst (result_content api so rid r)\<rparr>"
  obtain d where d: "signer_onResultFetch api bls i so = (?so, [Put d], None)" "d_name d = i_name i"
    "block_parse api (d_content d) = Inr (snd (result_content api so rid r))"
    "ndnBLSVerify_data api bls (blsGetPublicKey bls (so_sk so)) d = Inr True"
    using result_fetch [OF assms(1-7)] by metis
  let ?b = "str_block api tlv_Status (code_text (ri_code r))"
  have "tlv_get api (snd (result_content api so rid r)) tlv_Status = Inr ?b"
    using assms(8) by (auto simp: result_content_def Let_def str_block_type [OF assms(2)] intro!: tlv_get_found [OF assms(2)])
  moreover have "ri_code r = OK \<longrightarrow> tlv_get api (snd (result_content api so rid r)) TLV_SignatureValue =
      Inr (Blk TLV_SignatureValue (ri_signatureValue r))"
    by (auto simp: result_content_def Let_def str_block_type [OF assms(2)] protocol_tlvs intro!: tlv_get_found [OF assms(2)])
  moreover have "signer_onResultFetch api bls i ?so = (?so, [], None)"
    using assms(6,8) by (intro unknown_result_dropped [OF assms(4,5)])
      (auto simp: result_content_def Let_def smap_find_erase)
  ultimately show ?thesis using d read_str_block [OF assms(2)] by blast
qed

text \<open>
  C30: a slow signer is lost. While a request is in the code \<^verbatim>\<open>Processing\<close>, the answer to the
  Interest for its result announces a new name, the old one with a version; and no Interest of
  this or a longer name is ever answered by the signer, whatever has become of the request: the
  handler drops every name that has not exactly three components more than the prefix.
\<close>

theorem prototype_slow_signer_lost:
  assumes "bls_laws bls skAdd" and "tlv_laws api" and "packet_laws api" and "players_laws api"
    and "rid < 2 ^ 64" and "i_name i = result_name api (so_prefix so) rid"
    and "smap_find (so_results so) rid = Some r" and "ri_code r = Processing"
  shows "\<exists>so' d es b b' announced. signer_onResultFetch api bls i so = (so', [Put d], None) \<and>
    block_parse api (d_content d) = Inr es \<and> tlv_get api es tlv_ResultName = Inr b \<and>
    block_from_value api b = Inr b' \<and> name_of_block api b' = Inr announced \<and>
    is_prefix_of (i_name i) announced \<and>
    (\<forall>later i' suffix. so_prefix later = so_prefix so \<and> i_name i' = announced @ suffix \<longrightarrow>
      signer_onResultFetch api bls i' later = (later, [], None))"
proof -
  let ?v = "(ri_version r + 1) mod 2 ^ 64" and ?rn = "result_name api (so_prefix so) rid"
  let ?n = "?rn @ [comp_of_version api ?v]"
  let ?so = "so\<lparr>so_results := fst (result_content api so rid r)\<rparr>"
  obtain d where d: "signer_onResultFetch api bls i so = (?so, [Put d], None)"
    "block_parse api (d_content d) = Inr (snd (result_content api so rid r))"
    using result_fetch [OF assms(1-7)] by metis
  let ?b = "nested_block api tlv_ResultName (name_wire api ?n)"
  have get: "tlv_get api (snd (result_content api so rid r)) tlv_ResultName = Inr ?b"
    using assms(8) by (auto simp: result_content_def protocol_tlvs str_block_type [OF assms(2)]
        nn_block_type [OF assms(2)] nested_block_type [OF assms(2)] Let_def intro!: tlv_get_found [OF assms(2)])
  have "length ?n \<noteq> length (so_prefix so) + 3" by (simp add: result_name_def)
  then have "signer_onResultFetch api bls i' later = (later, [], None)"
    if "so_prefix later = so_prefix so" and "i_name i' = ?n @ suffix" for later i' suffix
    using that by (intro wrong_length_dropped) (simp add: result_name_def)
  with d get show ?thesis
    using assms(6) from_nested_block [OF assms(2)] name_of_wire [OF assms(2)] is_prefix_of_append by metis
qed

end
