(* ===== verification/Players_Verifier.thy ===== *)
theory Players_Verifier
  imports Players_Signer Name_Set
begin

text \<open>
  The verifier of the prototype, \<^verbatim>\<open>Verifier\<close> of \<^verbatim>\<open>temp/players.cpp\<close>: it queues
  the packets it cannot verify yet, fetches what is missing, and tries again when everything has
  come. \<open>vo_index\<close> maps a name that is being fetched to the identifiers of the records that
  wait for it. A callback is known by a number; calls of it and Interests are the effects.

  The loop of \<^verbatim>\<open>satisfyItem\<close> iterates over a set that the calls in its body may extend: it
  goes on to the smallest identifier behind the present one, in the set as it then is.
\<close>

section \<open>State\<close>

record ('c, 's) verification_record =
  vr_data :: "'c data"
  vr_schema :: 's
  vr_callback :: nat
  vr_itemLeft :: "32 word"

record ('c, 'pk, 's) verifier_object =
  vo_queue :: "(32 word, ('c, 's) verification_record) smap"
  vo_index :: "('c name, 32 word list) smap"
  vo_certVerifyCallback :: "('c data \<Rightarrow> bool) option"
  vo_fetchKeys :: bool
  vo_verifier :: "('c, 'pk) mps_verifier"

datatype 'c verifier_effect = Fetch "'c interest" | Callback nat bool

type_synonym ('c, 'pk, 's) verifier_result =
  "('c, 'pk, 's) verifier_object \<times> 'c verifier_effect list \<times> fault option"

section \<open>The operations\<close>

definition Verifier_new :: "('c, 'pk) mps_verifier \<Rightarrow> bool \<Rightarrow> ('c, 'pk, 's) verifier_object" where
  "Verifier_new v fetchKeys = \<lparr>vo_queue = [], vo_index = [], vo_certVerifyCallback = None,
     vo_fetchKeys = fetchKeys, vo_verifier = v\<rparr>"

definition setCertVerifyCallback ::
  "('c data \<Rightarrow> bool) option \<Rightarrow> ('c, 'pk, 's) verifier_object \<Rightarrow> ('c, 'pk, 's) verifier_object" where
  "setCertVerifyCallback func vo = vo\<lparr>vo_certVerifyCallback := func\<rparr>"

text \<open>The identifiers that wait for a name, as \<^verbatim>\<open>operator[]\<close> of the index gives them.\<close>

definition waiting :: "('c::linorder, 'pk, 's) verifier_object \<Rightarrow> 'c name \<Rightarrow> 32 word list" where
  "waiting vo n = (case smap_find (vo_index vo) n of Some ids \<Rightarrow> ids | None \<Rightarrow> [])"

text \<open>One turn of the loop over the items to fetch.\<close>

definition request_item ::
  "32 word \<Rightarrow> 'c::linorder name \<Rightarrow> ('c, 'pk, 's) verifier_object \<times> ('c, 's) verification_record \<times> 'c verifier_effect list \<Rightarrow>
   ('c, 'pk, 's) verifier_object \<times> ('c, 's) verification_record \<times> 'c verifier_effect list" where
  "request_item currentId item st = (case st of (vo, r, outs) \<Rightarrow>
     (vo\<lparr>vo_index := smap_put item (sset_insert currentId (waiting vo item)) (vo_index vo)\<rparr>,
      r\<lparr>vr_itemLeft := vr_itemLeft r + 1\<rparr>,
      outs @ [Fetch ((new_interest item)\<lparr>i_canBePrefix := True, i_mustBeFresh := True, i_lifetime := TIMEOUT\<rparr>)]))"

definition asyncVerifySignature ::
  "('c::linorder, 'z) players_api_scheme \<Rightarrow> ('sk, 'pk, 'sig, 'y) bls_codes_scheme \<Rightarrow> ('c, 's) schema_ops \<Rightarrow>
   32 word \<Rightarrow> 'c data \<Rightarrow> 's \<Rightarrow> nat \<Rightarrow> ('c, 'pk, 's) verifier_object \<Rightarrow> ('c, 'pk, 's) verifier_result" where
  "asyncVerifySignature api bls ops currentId d schema callback vo =
     (if readyToVerify (vo_verifier vo) d
      then (case verifySignature api bls ops (vo_verifier vo) d schema of
          Inl e \<Rightarrow> (vo, [], Some e)
        | Inr b \<Rightarrow> (vo, [Callback callback b], None))
      else (case fold (request_item currentId) (itemsToFetch (vo_verifier vo) d)
              (vo, \<lparr>vr_data = d, vr_schema = schema, vr_callback = callback, vr_itemLeft = 0\<rparr>, []) of
          (vo, r, outs) \<Rightarrow> (vo\<lparr>vo_queue := smap_emplace currentId r (vo_queue vo)\<rparr>, outs, None)))"

definition fail_one ::
  "32 word \<Rightarrow> ('c, 'pk, 's) verifier_object \<times> 'c verifier_effect list \<Rightarrow>
   ('c, 'pk, 's) verifier_object \<times> 'c verifier_effect list" where
  "fail_one i st = (case st of (vo, outs) \<Rightarrow> (case smap_find (vo_queue vo) i of
     None \<Rightarrow> (vo, outs)
   | Some r \<Rightarrow> (vo\<lparr>vo_queue := smap_erase i (vo_queue vo)\<rparr>, outs @ [Callback (vr_callback r) False])))"

definition removeAll_waiting ::
  "'c::linorder name \<Rightarrow> ('c, 'pk, 's) verifier_object \<Rightarrow> ('c, 'pk, 's) verifier_object \<times> 'c verifier_effect list" where
  "removeAll_waiting n vo = (case fold fail_one (waiting vo n) (vo, []) of
     (vo, outs) \<Rightarrow> (vo\<lparr>vo_index := smap_erase n (vo_index vo)\<rparr>, outs))"

text \<open>
  The loop of \<^verbatim>\<open>satisfyItem\<close>, from the first identifier not below \<open>bound\<close> on. Its calls
  of \<^verbatim>\<open>asyncVerifySignature\<close> draw their identifiers from \<open>rnd\<close>.
\<close>

function satisfy_loop ::
  "('c::linorder, 'z) players_api_scheme \<Rightarrow> ('sk, 'pk, 'sig, 'y) bls_codes_scheme \<Rightarrow> ('c, 's) schema_ops \<Rightarrow>
   'c name \<Rightarrow> nat \<Rightarrow> (nat \<Rightarrow> 32 word) \<Rightarrow> ('c, 'pk, 's) verifier_object \<Rightarrow> ('c, 'pk, 's) verifier_result" where
  "satisfy_loop api bls ops itemName bound rnd vo =
     (case find (\<lambda>i. bound \<le> unat i) (waiting vo itemName) of
        None \<Rightarrow> (vo, [], None)
      | Some i \<Rightarrow> (case smap_find (vo_queue vo) i of
          None \<Rightarrow> satisfy_loop api bls ops itemName (Suc (unat i)) rnd vo
        | Some r \<Rightarrow>
           (if vr_itemLeft r = 1
            then (case asyncVerifySignature api bls ops (rnd 0) (vr_data r) (vr_schema r) (vr_callback r)
                     (vo\<lparr>vo_queue := smap_erase i (vo_queue vo)\<rparr>) of
                (vo, outs, Some e) \<Rightarrow> (vo, outs, Some e)
              | (vo, outs, None) \<Rightarrow>
                 (case satisfy_loop api bls ops itemName (Suc (unat i)) (\<lambda>k. rnd (Suc k)) vo of
                    (vo, outs', f) \<Rightarrow> (vo, outs @ outs', f)))
            else satisfy_loop api bls ops itemName (Suc (unat i)) rnd
              (vo\<lparr>vo_queue := smap_put i (r\<lparr>vr_itemLeft := vr_itemLeft r - 1\<rparr>) (vo_queue vo)\<rparr>))))"
  by pat_completeness auto

lemma find_bound: "find (\<lambda>i :: 32 word. bound \<le> unat i) ids = Some i \<Longrightarrow> bound \<le> unat i \<and> unat i < 4294967296"
  using unsigned_less [of i, where ?'a = nat] by (auto simp: find_Some_iff)

termination satisfy_loop
  by (relation "measure (\<lambda>(_, _, _, _, bound, _, _). 4294967296 - bound)") (auto dest!: find_bound)

declare satisfy_loop.simps [simp del]

definition satisfyItem ::
  "('c::linorder, 'z) players_api_scheme \<Rightarrow> ('sk, 'pk, 'sig, 'y) bls_codes_scheme \<Rightarrow> ('c, 's) schema_ops \<Rightarrow>
   (nat \<Rightarrow> 32 word) \<Rightarrow> 'c name \<Rightarrow> ('c, 'pk, 's) verifier_object \<Rightarrow> ('c, 'pk, 's) verifier_result" where
  "satisfyItem api bls ops rnd itemName vo =
     (if smap_find (vo_index vo) itemName = None then (vo, [], Some (Throws ''map::at''))
      else (case satisfy_loop api bls ops itemName 0 rnd vo of
          (vo, outs, Some e) \<Rightarrow> (vo, outs, Some e)
        | (vo, outs, None) \<Rightarrow> (vo\<lparr>vo_index := smap_erase itemName (vo_index vo)\<rparr>, outs, None)))"

text \<open>
  A certificate: when its key cannot be read, the records that wait for it fail, and the code goes
  on with the key it could not read.
\<close>

definition onCertificate ::
  "('c::linorder, 'z) players_api_scheme \<Rightarrow> ('sk, 'pk, 'sig, 'y) bls_codes_scheme \<Rightarrow> ('c, 's) schema_ops \<Rightarrow>
   (nat \<Rightarrow> 32 word) \<Rightarrow> 'c name \<Rightarrow> 'c data \<Rightarrow> ('c, 'pk, 's) verifier_object \<Rightarrow> ('c, 'pk, 's) verifier_result" where
  "onCertificate api bls ops rnd interestName d vo =
     (if accepted (vo_certVerifyCallback vo) d
      then (case blsPublicKeyDeserialize bls (pk_uninit bls) (blk_value (d_content d)) of (key, ret) \<Rightarrow>
        (let (vo, outs) = (if ret = 0 then removeAll_waiting interestName vo else (vo, []));
             vo = vo\<lparr>vo_verifier := addCert interestName key (vo_verifier vo)\<rparr>
         in (case satisfyItem api bls ops rnd interestName vo of (vo, outs', f) \<Rightarrow> (vo, outs @ outs', f))))
      else (case removeAll_waiting interestName vo of (vo, outs) \<Rightarrow> (vo, outs, None)))"

text \<open>
  A signer list. Exceptions of \<^verbatim>\<open>std::exception\<close> are logged: the changes before them stand.
  \<^verbatim>\<open>Block::get\<close> throws when there is no list, so the test behind it never fails.
\<close>

definition onSignerList ::
  "('c::linorder, 'z) players_api_scheme \<Rightarrow> ('sk, 'pk, 'sig, 'y) bls_codes_scheme \<Rightarrow> ('c, 's) schema_ops \<Rightarrow>
   (nat \<Rightarrow> 32 word) \<Rightarrow> 'c name \<Rightarrow> 'c data \<Rightarrow> ('c, 'pk, 's) verifier_object \<Rightarrow> ('c, 'pk, 's) verifier_result" where
  "onSignerList api bls ops rnd interestName d vo =
     (let r = (case res_bind (block_parse api (d_content d)) (\<lambda>es. tlv_get api es tlv_MpsSignerList) of
          Inl e \<Rightarrow> (vo, [], Some e)
        | Inr listBlock \<Rightarrow>
           (if blk_valid api listBlock
            then (case signers_wireDecode api listBlock of
                Inl e \<Rightarrow> (vo, [], Some e)
              | Inr lst \<Rightarrow> satisfyItem api bls ops rnd interestName
                  (vo\<lparr>vo_verifier := addSignerList interestName lst (vo_verifier vo)\<rparr>))
            else (case removeAll_waiting interestName vo of (vo, outs) \<Rightarrow> (vo, outs, None))))
      in (case r of (vo, outs, Some (Throws _)) \<Rightarrow> (vo, outs, None) | _ \<Rightarrow> r))"

definition verifier_onData ::
  "('c::linorder, 'z) players_api_scheme \<Rightarrow> ('sk, 'pk, 'sig, 'y) bls_codes_scheme \<Rightarrow> ('c, 's) schema_ops \<Rightarrow>
   (nat \<Rightarrow> 32 word) \<Rightarrow> 'c name \<Rightarrow> 'c data \<Rightarrow> ('c, 'pk, 's) verifier_object \<Rightarrow> ('c, 'pk, 's) verifier_result" where
  "verifier_onData api bls ops rnd interestName d vo =
     (if vo_fetchKeys vo \<and> isValidName api (d_name d)
      then onCertificate api bls ops rnd interestName d vo
      else onSignerList api bls ops rnd interestName d vo)"

text \<open>\<^verbatim>\<open>onNack\<close> and \<^verbatim>\<open>onTimeout\<close> do the same.\<close>

definition verifier_onNoReply ::
  "'c::linorder name \<Rightarrow> ('c, 'pk, 's) verifier_object \<Rightarrow> ('c, 'pk, 's) verifier_result" where
  "verifier_onNoReply interestName vo = (case removeAll_waiting interestName vo of (vo, outs) \<Rightarrow> (vo, outs, None))"

section \<open>The verifier as an event system\<close>

text \<open>
  A run of the verifier: calls of \<^verbatim>\<open>asyncVerifySignature\<close> by the application, replies and
  their absence, in any order. \<open>vw_started\<close> holds the calls (callback, packet and schema) and
  \<open>vw_effects\<close> what the object did; \<open>vw_verifiers\<close> lists the states that its \<^verbatim>\<open>MpsVerifier\<close>
  had at the start and after every event.
\<close>

record ('c, 'pk, 's) verifier_world =
  vw_object :: "('c, 'pk, 's) verifier_object"
  vw_started :: "(nat \<times> 'c data \<times> 's) multiset"
  vw_effects :: "'c verifier_effect list"
  vw_verifiers :: "('c, 'pk) mps_verifier list"
  vw_faults :: "fault list"

datatype ('c, 's) verifier_event =
    Start "32 word" "'c data" 's nat
  | Reply "'c name" "'c data" "nat \<Rightarrow> 32 word"
  | NoReply "'c name"

definition verifier_start :: "('c, 'pk, 's) verifier_object \<Rightarrow> ('c, 'pk, 's) verifier_world" where
  "verifier_start vo = \<lparr>vw_object = vo, vw_started = {#}, vw_effects = [], vw_verifiers = [vo_verifier vo], vw_faults = []\<rparr>"

definition record_result ::
  "('c, 'pk, 's) verifier_result \<Rightarrow> ('c, 'pk, 's) verifier_world \<Rightarrow> ('c, 'pk, 's) verifier_world" where
  "record_result r w = (case r of (vo, outs, f) \<Rightarrow>
     w\<lparr>vw_object := vo, vw_effects := vw_effects w @ outs, vw_verifiers := vw_verifiers w @ [vo_verifier vo],
       vw_faults := vw_faults w @ (case f of None \<Rightarrow> [] | Some e \<Rightarrow> [e])\<rparr>)"

fun verifier_handle ::
  "('c::linorder, 'z) players_api_scheme \<Rightarrow> ('sk, 'pk, 'sig, 'y) bls_codes_scheme \<Rightarrow> ('c, 's) schema_ops \<Rightarrow>
   ('c, 'pk, 's) verifier_world \<Rightarrow> ('c, 's) verifier_event \<Rightarrow> ('c, 'pk, 's) verifier_world" where
  "verifier_handle api bls ops w (Start i d schema callback) =
     record_result (asyncVerifySignature api bls ops i d schema callback (vw_object w))
       (w\<lparr>vw_started := add_mset (callback, d, schema) (vw_started w)\<rparr>)"
| "verifier_handle api bls ops w (Reply n d rnd) =
     record_result (verifier_onData api bls ops rnd n d (vw_object w)) w"
| "verifier_handle api bls ops w (NoReply n) = record_result (verifier_onNoReply n (vw_object w)) w"

section \<open>What every operation keeps\<close>

text \<open>
  The requests of a queue, the callbacks among the effects, and the contract \<open>step_ok\<close> of an
  operation that starts with the requests \<open>M\<close> and has one of the verifiers \<open>V\<close>: no request
  appears or is called back twice, true is reported for a packet whose verification under a
  verifier of \<open>V\<close> returned true, and what is fetched is the key locator's name of a packet.
\<close>

definition pending :: "('c, 'pk, 's) verifier_object \<Rightarrow> (nat \<times> 'c data \<times> 's) multiset" where
  "pending vo = image_mset (\<lambda>(i, r). (vr_callback r, vr_data r, vr_schema r)) (mset (vo_queue vo))"

fun callbacks :: "'c verifier_effect list \<Rightarrow> nat list" where
  "callbacks [] = []"
| "callbacks (Callback cb b # outs) = cb # callbacks outs"
| "callbacks (Fetch i # outs) = callbacks outs"

lemma callbacks_append [simp]: "callbacks (xs @ ys) = callbacks xs @ callbacks ys"
  by (induction xs rule: callbacks.induct) auto

fun effect_ok ::
  "('c::linorder, 'z) players_api_scheme \<Rightarrow> ('sk, 'pk, 'sig, 'y) bls_codes_scheme \<Rightarrow> ('c, 's) schema_ops \<Rightarrow>
   ('c, 'pk) mps_verifier set \<Rightarrow> (nat \<times> 'c data \<times> 's) set \<Rightarrow> 'c verifier_effect \<Rightarrow> bool" where
  "effect_ok api bls ops V M (Callback cb b) \<longleftrightarrow>
     (b \<longrightarrow> (\<exists>d s. \<exists>v \<in> V. (cb, d, s) \<in> M \<and> verifySignature api bls ops v d s = Inr True))"
| "effect_ok api bls ops V M (Fetch i) \<longleftrightarrow> (\<exists>(cb, d, s) \<in> M. locator_name d = Some (i_name i))"

definition maps_ok :: "('c, 'pk) mps_verifier set \<Rightarrow> ('c::linorder, 'pk, 's) verifier_object \<Rightarrow> bool" where
  "maps_ok V vo \<longleftrightarrow> vo_verifier vo \<in> V \<and> smap_ok (vo_queue vo) \<and> smap_ok (vo_index vo)"

definition step_ok ::
  "('c::linorder, 'z) players_api_scheme \<Rightarrow> ('sk, 'pk, 'sig, 'y) bls_codes_scheme \<Rightarrow> ('c, 's) schema_ops \<Rightarrow>
   ('c, 'pk) mps_verifier set \<Rightarrow> (nat \<times> 'c data \<times> 's) multiset \<Rightarrow> ('c, 'pk, 's) verifier_object \<Rightarrow>
   'c verifier_effect list \<Rightarrow> bool" where
  "step_ok api bls ops V M vo outs \<longleftrightarrow> maps_ok V vo \<and>
     set_mset (pending vo) \<subseteq> set_mset M \<and>
     image_mset fst (pending vo) + mset (callbacks outs) \<subseteq># image_mset fst M \<and>
     list_all (effect_ok api bls ops V (set_mset M)) outs"

lemma effect_ok_mono: "effect_ok api bls ops V M e \<Longrightarrow> M \<subseteq> N \<Longrightarrow> effect_ok api bls ops V N e"
  by (cases e) (simp, blast, fastforce)

lemma effect_ok_more: "effect_ok api bls ops V M e \<Longrightarrow> V \<subseteq> W \<Longrightarrow> effect_ok api bls ops W M e"
  by (cases e) auto

lemma maps_ok_more: "maps_ok V vo \<Longrightarrow> V \<subseteq> W \<Longrightarrow> maps_ok W vo"
  by (auto simp: maps_ok_def)

lemma step_ok_more: "step_ok api bls ops V M vo outs \<Longrightarrow> V \<subseteq> W \<Longrightarrow> step_ok api bls ops W M vo outs"
  using effect_ok_more [of api bls ops V _ _ W] maps_ok_more [of V vo W] by (auto simp: step_ok_def list_all_iff)

lemma step_ok_verifier: "step_ok api bls ops V M vo outs \<Longrightarrow> vo_verifier vo \<in> V"
  by (simp add: step_ok_def maps_ok_def)

lemma step_ok_silent:
  assumes "maps_ok V vo" and "pending vo \<subseteq># M" and "callbacks outs = []"
    and "\<And>e. e \<in> set outs \<Longrightarrow> effect_ok api bls ops V (set_mset M) e"
  shows "step_ok api bls ops V M vo outs"
  using assms set_mset_mono [OF assms(2)] image_mset_subseteq_mono [OF assms(2), of fst]
  by (simp add: step_ok_def list_all_iff)

lemma step_ok_refl: "maps_ok V vo \<Longrightarrow> step_ok api bls ops V (pending vo) vo []"
  by (rule step_ok_silent) simp_all

lemma step_ok_mono: "step_ok api bls ops V M vo outs \<Longrightarrow> M \<subseteq># N \<Longrightarrow> step_ok api bls ops V N vo outs"
  unfolding step_ok_def list_all_iff
  by (meson effect_ok_mono image_mset_subseteq_mono set_mset_mono subset_mset.order_trans subset_trans)

lemma step_ok_add:
  assumes "step_ok api bls ops V M vo outs" and "step_ok api bls ops V (add_mset x (pending vo)) vo' outs'"
  shows "step_ok api bls ops V (add_mset x M) vo' (outs @ outs')"
proof -
  have "image_mset fst (pending vo') + mset (callbacks outs') + mset (callbacks outs) \<subseteq>#
      add_mset (fst x) (image_mset fst (pending vo) + mset (callbacks outs))"
    using assms(2) by (simp add: step_ok_def)
  also have "\<dots> \<subseteq># image_mset fst (add_mset x M)" using assms(1) by (simp add: step_ok_def)
  finally have "image_mset fst (pending vo') + mset (callbacks (outs @ outs')) \<subseteq># image_mset fst (add_mset x M)"
    by (simp add: ac_simps)
  moreover have "set_mset (add_mset x (pending vo)) \<subseteq> set_mset (add_mset x M)"
    using assms(1) by (auto simp: step_ok_def)
  moreover have "set_mset M \<subseteq> set_mset (add_mset x M)" by auto
  ultimately show ?thesis
    using assms unfolding step_ok_def list_all_iff set_append by (meson Un_iff effect_ok_mono subset_trans)
qed

lemma step_ok_trans:
  assumes "step_ok api bls ops V M vo outs" and "step_ok api bls ops V (pending vo) vo' outs'"
  shows "step_ok api bls ops V M vo' (outs @ outs')"
proof -
  have "image_mset fst (pending vo') + mset (callbacks outs') + mset (callbacks outs) \<subseteq>#
      image_mset fst (pending vo) + mset (callbacks outs)"
    using assms(2) by (simp add: step_ok_def)
  also have "\<dots> \<subseteq># image_mset fst M" using assms(1) by (simp add: step_ok_def)
  finally have "image_mset fst (pending vo') + mset (callbacks (outs @ outs')) \<subseteq># image_mset fst M"
    by (simp add: ac_simps)
  with assms show ?thesis
    unfolding step_ok_def list_all_iff set_append by (meson Un_iff effect_ok_mono subset_trans)
qed

lemma pending_erase:
  assumes "smap_ok (vo_queue vo)" and "smap_find (vo_queue vo) i = Some r"
  shows "pending vo = add_mset (vr_callback r, vr_data r, vr_schema r)
    (pending (vo\<lparr>vo_queue := smap_erase i (vo_queue vo)\<rparr>))"
  unfolding pending_def mset_smap_erase [OF assms] by simp

lemma fold_request:
  assumes "fold (request_item i) items (vo, r, outs) = (vo', r', outs')" and "smap_ok (vo_index vo)"
  shows "vo_queue vo' = vo_queue vo \<and> vo_verifier vo' = vo_verifier vo \<and> smap_ok (vo_index vo') \<and>
    vr_callback r' = vr_callback r \<and> vr_data r' = vr_data r \<and> vr_schema r' = vr_schema r \<and>
    vr_itemLeft r' = vr_itemLeft r + of_nat (length items) \<and>
    outs' = outs @ map (\<lambda>n. Fetch ((new_interest n)\<lparr>i_canBePrefix := True, i_mustBeFresh := True, i_lifetime := TIMEOUT\<rparr>)) items"
  using assms
proof (induction items arbitrary: vo r outs)
  case (Cons n items)
  obtain vo1 r1 outs1 where 1: "request_item i n (vo, r, outs) = (vo1, r1, outs1)" by (cases "request_item i n (vo, r, outs)")
  have vo1: "vo1 = vo\<lparr>vo_index := smap_put n (sset_insert i (waiting vo n)) (vo_index vo)\<rparr>"
    "r1 = r\<lparr>vr_itemLeft := vr_itemLeft r + 1\<rparr>"
    "outs1 = outs @ [Fetch ((new_interest n)\<lparr>i_canBePrefix := True, i_mustBeFresh := True, i_lifetime := TIMEOUT\<rparr>)]"
    using 1 by (simp_all add: request_item_def)
  have "smap_ok (vo_index vo1)" using Cons.prems(2) by (simp add: vo1(1) omap.invar_put)
  moreover have "fold (request_item i) items (vo1, r1, outs1) = (vo', r', outs')" using Cons.prems(1) 1 by simp
  ultimately show ?case using Cons.IH [of vo1 r1 outs1] by (simp add: vo1 add_ac)
qed simp

lemma callbacks_fetches [simp]: "callbacks (map (\<lambda>n. Fetch (g n)) ns) = []"
  by (induction ns) auto

lemma callbacks_same_fetch [simp]: "callbacks (replicate k (Fetch i)) = []"
  by (induction k) auto

lemma asyncVerify_ok:
  assumes "maps_ok V vo" and "asyncVerifySignature api bls ops i d s cb vo = (vo', outs, f)"
  shows "step_ok api bls ops V (add_mset (cb, d, s) (pending vo)) vo' outs"
proof (cases "readyToVerify (vo_verifier vo) d")
  case True
  show ?thesis
  proof (cases "verifySignature api bls ops (vo_verifier vo) d s")
    case (Inl e)
    then show ?thesis using assms True by (auto simp: asyncVerifySignature_def step_ok_def)
  next
    case (Inr b)
    then have "vo' = vo" "outs = [Callback cb b]" using assms(2) True by (simp_all add: asyncVerifySignature_def)
    moreover have "effect_ok api bls ops V (insert (cb, d, s) M) (Callback cb b)" for M
      using Inr assms(1) by (cases b) (auto simp: maps_ok_def)
    ultimately show ?thesis using assms(1) by (auto simp del: effect_ok.simps simp: step_ok_def)
  qed
next
  case False
  let ?r = "\<lparr>vr_data = d, vr_schema = s, vr_callback = cb, vr_itemLeft = 0\<rparr>"
  obtain vo1 r1 outs1 where 1: "fold (request_item i) (itemsToFetch (vo_verifier vo) d) (vo, ?r, []) = (vo1, r1, outs1)"
    by (cases "fold (request_item i) (itemsToFetch (vo_verifier vo) d) (vo, ?r, [])")
  note fr = fold_request [OF 1]
  have vo': "vo' = vo1\<lparr>vo_queue := smap_emplace i r1 (vo_queue vo1)\<rparr>" "outs = outs1"
    using assms(2) False 1 by (auto simp: asyncVerifySignature_def)
  have ok: "smap_ok (vo_queue vo)" "smap_ok (vo_index vo)" using assms(1) by (auto simp: maps_ok_def)
  have "pending vo' \<subseteq># add_mset (cb, d, s) (pending vo)"
    using fr ok by (auto simp: vo'(1) pending_def mset_smap_emplace)
  moreover have outs: "outs = map (\<lambda>n. Fetch ((new_interest n)\<lparr>i_canBePrefix := True, i_mustBeFresh := True,
      i_lifetime := TIMEOUT\<rparr>)) (itemsToFetch (vo_verifier vo) d)" using fr ok(2) vo'(2) by simp
  moreover have "effect_ok api bls ops V M e" if member: "e \<in> set outs" and M: "(cb, d, s) \<in> M" for e M
  proof -
    obtain n where "n \<in> set (itemsToFetch (vo_verifier vo) d)" and e: "e = Fetch ((new_interest n)
        \<lparr>i_canBePrefix := True, i_mustBeFresh := True, i_lifetime := TIMEOUT\<rparr>)"
      using member unfolding outs set_map by blast
    then have "locator_name d = Some n"
      using itemsToFetch_locator [of "vo_verifier vo" d] by (cases "locator_name d") auto
    with M show ?thesis by (force simp: e new_interest_def)
  qed
  moreover have "maps_ok V vo'" using fr ok assms(1) unfolding maps_ok_def by (simp add: vo'(1) omap.invar_emplace)
  ultimately show ?thesis by (intro step_ok_silent) simp_all
qed

lemma step_ok_fields [simp]:
  "smap_ok idx \<Longrightarrow> step_ok api bls ops V M vo outs \<Longrightarrow> step_ok api bls ops V M (vo\<lparr>vo_index := idx\<rparr>) outs"
  by (simp_all add: step_ok_def pending_def maps_ok_def)

lemma step_ok_maps: "step_ok api bls ops V M vo outs \<Longrightarrow> maps_ok V vo"
  by (simp add: step_ok_def)

lemma maps_ok_erase: "maps_ok V vo \<Longrightarrow> maps_ok V (vo\<lparr>vo_queue := smap_erase i (vo_queue vo)\<rparr>)"
  by (simp add: maps_ok_def smap_erase_ok)

lemma erase_callback_ok:
  assumes "maps_ok V vo" and "smap_find (vo_queue vo) i = Some r"
  shows "step_ok api bls ops V (pending vo) (vo\<lparr>vo_queue := smap_erase i (vo_queue vo)\<rparr>) [Callback (vr_callback r) False]"
  using assms maps_ok_erase [OF assms(1), of i] pending_erase [of vo i r]
  by (auto simp: step_ok_def maps_ok_def)

lemma fold_fail:
  assumes "fold fail_one ids (vo, outs) = (vo', outs')" and "step_ok api bls ops V M vo outs"
  shows "step_ok api bls ops V M vo' outs'"
  using assms
proof (induction ids arbitrary: vo outs)
  case (Cons i ids)
  show ?case
  proof (cases "smap_find (vo_queue vo) i")
    case None
    then show ?thesis using Cons by (simp add: fail_one_def)
  next
    case (Some r)
    let ?vo = "vo\<lparr>vo_queue := smap_erase i (vo_queue vo)\<rparr>" and ?outs = "outs @ [Callback (vr_callback r) False]"
    have "step_ok api bls ops V M ?vo ?outs"
      using step_ok_trans [OF Cons.prems(2) erase_callback_ok [OF step_ok_maps [OF Cons.prems(2)] Some]] .
    with Cons.IH [of ?vo ?outs] Cons.prems(1) Some show ?thesis by (simp add: fail_one_def)
  qed
qed simp

lemma removeAll_ok:
  assumes "maps_ok V vo" and "removeAll_waiting n vo = (vo', outs)"
  shows "step_ok api bls ops V (pending vo) vo' outs"
proof -
  obtain vo1 where 1: "fold fail_one (waiting vo n) (vo, []) = (vo1, outs)"
    "vo' = vo1\<lparr>vo_index := smap_erase n (vo_index vo1)\<rparr>"
    using assms(2) by (auto simp: removeAll_waiting_def split: prod.splits)
  have "step_ok api bls ops V (pending vo) vo1 outs" using fold_fail [OF 1(1) step_ok_refl [OF assms(1)]] .
  then show ?thesis using step_ok_maps [of api bls ops V _ vo1] by (auto simp: 1(2) maps_ok_def smap_erase_ok)
qed

lemma decrement_ok:
  assumes "maps_ok V vo" and "smap_find (vo_queue vo) i = Some r"
  shows "step_ok api bls ops V (pending vo)
    (vo\<lparr>vo_queue := smap_put i (r\<lparr>vr_itemLeft := k\<rparr>) (vo_queue vo)\<rparr>) []"
proof (rule step_ok_silent)
  have ok: "smap_ok (vo_queue vo)" using assms(1) by (simp add: maps_ok_def)
  have "pending (vo\<lparr>vo_queue := smap_put i (r\<lparr>vr_itemLeft := k\<rparr>) (vo_queue vo)\<rparr>) = pending vo"
    unfolding pending_def using mset_smap_put [OF ok] mset_smap_erase [OF ok assms(2)] by simp
  then show "pending (vo\<lparr>vo_queue := smap_put i (r\<lparr>vr_itemLeft := k\<rparr>) (vo_queue vo)\<rparr>) \<subseteq># pending vo" by simp
qed (use assms in \<open>simp_all add: maps_ok_def smap_put_ok\<close>)

lemma retry_ok:
  assumes "maps_ok V vo" and "smap_find (vo_queue vo) i = Some r"
    and "asyncVerifySignature api bls ops j (vr_data r) (vr_schema r) (vr_callback r)
      (vo\<lparr>vo_queue := smap_erase i (vo_queue vo)\<rparr>) = (vo', outs, f)"
  shows "step_ok api bls ops V (pending vo) vo' outs"
  using asyncVerify_ok [OF maps_ok_erase [OF assms(1)] assms(3)] pending_erase [OF _ assms(2)] assms(1)
  by (simp add: maps_ok_def)

lemma satisfy_loop_ok:
  assumes "maps_ok V vo" and "satisfy_loop api bls ops n bound rnd vo = (vo', outs, f)"
  shows "step_ok api bls ops V (pending vo) vo' outs"
  using assms
proof (induction api bls ops n bound rnd vo arbitrary: vo' outs f rule: satisfy_loop.induct)
  case (1 api bls ops n bound rnd vo)
  show ?case
  proof (cases "find (\<lambda>i. bound \<le> unat i) (waiting vo n)")
    case None
    then show ?thesis using "1.prems" by (simp add: satisfy_loop.simps [of api bls ops n bound] step_ok_refl)
  next
    case (Some i)
    note find = this
    show ?thesis
    proof (cases "smap_find (vo_queue vo) i")
      case None
      then show ?thesis using "1.IH"(1) "1.prems" find by (simp add: satisfy_loop.simps [of api bls ops n bound])
    next
      case (Some r)
      show ?thesis
      proof (cases "vr_itemLeft r = 1")
        case True
        obtain vo1 outs1 f1 where a: "asyncVerifySignature api bls ops (rnd 0) (vr_data r) (vr_schema r) (vr_callback r)
            (vo\<lparr>vo_queue := smap_erase i (vo_queue vo)\<rparr>) = (vo1, outs1, f1)" by (metis prod_cases3)
        have ok: "step_ok api bls ops V (pending vo) vo1 outs1" by (rule retry_ok [OF "1.prems"(1) Some a])
        show ?thesis
        proof (cases f1)
          case None
          obtain vo2 outs2 f2 where l: "satisfy_loop api bls ops n (Suc (unat i)) (\<lambda>k. rnd (Suc k)) vo1 = (vo2, outs2, f2)"
            by (metis prod_cases3)
          have "step_ok api bls ops V (pending vo1) vo2 outs2"
            using "1.IH"(2) [OF find Some True a [symmetric] _ _ step_ok_maps [OF ok] l] None by simp
          then have "step_ok api bls ops V (pending vo) vo2 (outs1 @ outs2)" by (rule step_ok_trans [OF ok])
          then show ?thesis
            using "1.prems"(2) find Some True a None l by (simp add: satisfy_loop.simps [of api bls ops n bound])
        next
          case (Some e)
          then show ?thesis
            using "1.prems"(2) find \<open>smap_find (vo_queue vo) i = Some r\<close> True a ok
            by (simp add: satisfy_loop.simps [of api bls ops n bound])
        qed
      next
        case False
        let ?vo = "vo\<lparr>vo_queue := smap_put i (r\<lparr>vr_itemLeft := vr_itemLeft r - 1\<rparr>) (vo_queue vo)\<rparr>"
        have ok: "step_ok api bls ops V (pending vo) ?vo []" by (rule decrement_ok [OF "1.prems"(1) Some])
        have "satisfy_loop api bls ops n (Suc (unat i)) rnd ?vo = (vo', outs, f)"
          using "1.prems"(2) find Some False by (simp add: satisfy_loop.simps [of api bls ops n bound])
        then have "step_ok api bls ops V (pending ?vo) vo' outs"
          using "1.IH"(3) [OF find Some False step_ok_maps [OF ok]] by blast
        with step_ok_trans [OF ok] show ?thesis by fastforce
      qed
    qed
  qed
qed

lemma satisfyItem_ok:
  assumes "maps_ok V vo" and "satisfyItem api bls ops rnd n vo = (vo', outs, f)"
  shows "step_ok api bls ops V (pending vo) vo' outs"
proof -
  obtain vo1 outs1 f1 where l: "satisfy_loop api bls ops n 0 rnd vo = (vo1, outs1, f1)" by (metis prod_cases3)
  note ok = satisfy_loop_ok [OF assms(1) l]
  have "smap_ok (smap_erase n (vo_index vo1))"
    using step_ok_maps [OF ok] by (simp add: maps_ok_def smap_erase_ok)
  with ok l assms show ?thesis
    by (auto simp: satisfyItem_def step_ok_refl split: if_splits option.splits)
qed

text \<open>A reply may change the verifier, before it satisfies the item: the states before and after it count.\<close>

definition reply_ok ::
  "('c::linorder, 'z) players_api_scheme \<Rightarrow> ('sk, 'pk, 'sig, 'y) bls_codes_scheme \<Rightarrow> ('c, 's) schema_ops \<Rightarrow>
   ('c, 'pk, 's) verifier_object \<Rightarrow> ('c, 'pk, 's) verifier_object \<Rightarrow> 'c verifier_effect list \<Rightarrow> bool" where
  "reply_ok api bls ops vo vo' outs \<longleftrightarrow> step_ok api bls ops {vo_verifier vo, vo_verifier vo'} (pending vo) vo' outs"

lemma reply_ok_same:
  assumes "step_ok api bls ops {vo_verifier vo} (pending vo) vo' outs"
  shows "reply_ok api bls ops vo vo' outs"
  unfolding reply_ok_def by (rule step_ok_more [OF assms]) simp

lemma learn_satisfy_ok:
  assumes "maps_ok V vo" and "satisfyItem api bls ops rnd n (vo\<lparr>vo_verifier := v\<rparr>) = (vo', outs, f)"
  shows "step_ok api bls ops {v} (pending vo) vo' outs" and "vo_verifier vo' = v"
proof -
  have "maps_ok {v} (vo\<lparr>vo_verifier := v\<rparr>)" using assms(1) by (simp add: maps_ok_def)
  from satisfyItem_ok [OF this assms(2)] show "step_ok api bls ops {v} (pending vo) vo' outs"
    by (simp add: pending_def)
  then show "vo_verifier vo' = v" using step_ok_verifier by blast
qed

lemma onCertificate_ok:
  assumes "maps_ok {vo_verifier vo} vo" and "onCertificate api bls ops rnd n d vo = (vo', outs, f)"
  shows "reply_ok api bls ops vo vo' outs"
proof (cases "accepted (vo_certVerifyCallback vo) d")
  case False
  then show ?thesis
    using assms(2) removeAll_ok [OF assms(1)] by (intro reply_ok_same) (auto simp: onCertificate_def split: prod.splits)
next
  case True
  obtain key ret where k: "blsPublicKeyDeserialize bls (pk_uninit bls) (blk_value (d_content d)) = (key, ret)" by fastforce
  obtain vo1 outs1 where 1: "(if ret = 0 then removeAll_waiting n vo else (vo, [])) = (vo1, outs1)" by fastforce
  have ok: "step_ok api bls ops {vo_verifier vo} (pending vo) vo1 outs1"
    using 1 removeAll_ok [OF assms(1)] step_ok_refl [OF assms(1)] by (auto split: if_splits)
  let ?v = "addCert n key (vo_verifier vo1)"
  obtain vo2 outs2 f2 where s: "satisfyItem api bls ops rnd n (vo1\<lparr>vo_verifier := ?v\<rparr>) = (vo2, outs2, f2)"
    by (metis prod_cases3)
  note L = learn_satisfy_ok [OF step_ok_maps [OF ok] s]
  have "step_ok api bls ops {vo_verifier vo, ?v} (pending vo) vo2 (outs1 @ outs2)"
    by (rule step_ok_trans [OF step_ok_more [OF ok] step_ok_more [OF L(1)]]) simp_all
  moreover have "vo' = vo2 \<and> outs = outs1 @ outs2" using assms(2) True k 1 s by (simp add: onCertificate_def)
  ultimately show ?thesis using L(2) by (simp add: reply_ok_def)
qed

lemma onSignerList_ok:
  assumes "maps_ok {vo_verifier vo} vo" and "onSignerList api bls ops rnd n d vo = (vo', outs, f)"
  shows "reply_ok api bls ops vo vo' outs"
proof -
  have item: "reply_ok api bls ops vo vo1 outs1"
    if "satisfyItem api bls ops rnd n (vo\<lparr>vo_verifier := v\<rparr>) = (vo1, outs1, f1)" for v vo1 outs1 f1
    using learn_satisfy_ok [OF assms(1) that] step_ok_more unfolding reply_ok_def by (metis insertCI subsetI singletonD)
  show ?thesis
    using assms(2) item reply_ok_same [OF removeAll_ok [OF assms(1), of n vo' outs api bls ops]]
      reply_ok_same [OF step_ok_refl [OF assms(1)]]
    by (auto simp: onSignerList_def Let_def split: sum.splits if_splits prod.splits option.splits fault.splits)
qed

lemma verifier_onData_ok:
  assumes "maps_ok {vo_verifier vo} vo" and "verifier_onData api bls ops rnd n d vo = (vo', outs, f)"
  shows "reply_ok api bls ops vo vo' outs"
  using assms onCertificate_ok onSignerList_ok by (auto simp: verifier_onData_def split: if_splits)

lemma verifier_onNoReply_ok:
  assumes "maps_ok {vo_verifier vo} vo" and "verifier_onNoReply n vo = (vo', outs, f)"
  shows "reply_ok api bls ops vo vo' outs"
  using assms(2) removeAll_ok [OF assms(1)]
  by (intro reply_ok_same) (auto simp: verifier_onNoReply_def split: prod.splits)

section \<open>Runs\<close>

definition verifier_world_ok ::
  "('c::linorder, 'z) players_api_scheme \<Rightarrow> ('sk, 'pk, 'sig, 'y) bls_codes_scheme \<Rightarrow> ('c, 's) schema_ops \<Rightarrow>
   ('c, 'pk, 's) verifier_world \<Rightarrow> bool" where
  "verifier_world_ok api bls ops w \<longleftrightarrow> vo_verifier (vw_object w) \<in> set (vw_verifiers w) \<and>
     step_ok api bls ops (set (vw_verifiers w)) (vw_started w) (vw_object w) (vw_effects w)"

lemma verifier_world_step:
  assumes "verifier_world_ok api bls ops w"
  shows "verifier_world_ok api bls ops (verifier_handle api bls ops w e)"
proof -
  let ?vo = "vw_object w" and ?V = "set (vw_verifiers w)"
  have old: "vo_verifier ?vo \<in> ?V" and w: "step_ok api bls ops ?V (vw_started w) ?vo (vw_effects w)"
    using assms by (simp_all add: verifier_world_ok_def)
  have maps: "maps_ok {vo_verifier ?vo} ?vo" using step_ok_maps [OF w] by (simp add: maps_ok_def)
  have reply: "step_ok api bls ops (insert (vo_verifier vo) ?V) (vw_started w) vo (vw_effects w @ outs)"
    if "reply_ok api bls ops ?vo vo outs" for vo outs
  proof (rule step_ok_trans)
    show "step_ok api bls ops (insert (vo_verifier vo) ?V) (vw_started w) ?vo (vw_effects w)"
      by (rule step_ok_more [OF w]) auto
    show "step_ok api bls ops (insert (vo_verifier vo) ?V) (pending ?vo) vo outs"
      by (rule step_ok_more [OF that [unfolded reply_ok_def]]) (use old in auto)
  qed
  show ?thesis
  proof (cases e)
    case (Start i d s cb)
    obtain vo outs f where a: "asyncVerifySignature api bls ops i d s cb ?vo = (vo, outs, f)" by (metis prod_cases3)
    have "step_ok api bls ops ?V (add_mset (cb, d, s) (pending ?vo)) vo outs"
      by (rule asyncVerify_ok [OF step_ok_maps [OF w] a])
    from step_ok_add [OF w this]
    have "step_ok api bls ops ?V (add_mset (cb, d, s) (vw_started w)) vo (vw_effects w @ outs)" .
    then have "step_ok api bls ops (insert (vo_verifier vo) ?V) (add_mset (cb, d, s) (vw_started w)) vo (vw_effects w @ outs)"
      by (rule step_ok_more) auto
    then show ?thesis by (simp add: Start a record_result_def verifier_world_ok_def)
  next
    case (Reply n d rnd)
    obtain vo outs f where a: "verifier_onData api bls ops rnd n d ?vo = (vo, outs, f)" by (metis prod_cases3)
    show ?thesis
      using reply [OF verifier_onData_ok [OF maps a]] by (simp add: Reply a record_result_def verifier_world_ok_def)
  next
    case (NoReply n)
    obtain vo outs f where a: "verifier_onNoReply n ?vo = (vo, outs, f)" by (metis prod_cases3)
    show ?thesis
      using reply [OF verifier_onNoReply_ok [OF maps a]] by (simp add: NoReply a record_result_def verifier_world_ok_def)
  qed
qed

interpretation verifier_run: invariant_system "\<lambda>_ _. True" "verifier_handle api bls ops" "verifier_world_ok api bls ops"
  for api :: "('c::linorder, 'z) players_api_scheme" and bls :: "('sk, 'pk, 'sig, 'y) bls_codes_scheme"
    and ops :: "('c, 's) schema_ops"
  by unfold_locales (rule verifier_world_step)

text \<open>
  C32: what a run of the prototype's verifier reports. In every run that starts with an empty queue,
  whatever is called and answered in whatever order, the callbacks that were called are among
  those of the calls (none is called more often than it was passed), a callback gets true only for
  a packet whose verification returned true under a state the verifier had during the run, and every Interest asks for the name in the key
  locator of a packet that was to be verified.
\<close>

theorem prototype_verifier_reports:
  assumes "exec (\<lambda>_ _. True) (verifier_handle api bls ops) (verifier_start (Verifier_new v fetchKeys)) es w"
  shows "mset (callbacks (vw_effects w)) \<subseteq># image_mset fst (vw_started w) \<and>
    (\<forall>cb. Callback cb True \<in> set (vw_effects w) \<longrightarrow>
      (\<exists>d s. \<exists>u \<in> set (vw_verifiers w). (cb, d, s) \<in># vw_started w \<and> verifySignature api bls ops u d s = Inr True)) \<and>
    (\<forall>i. Fetch i \<in> set (vw_effects w) \<longrightarrow> (\<exists>(cb, d, s) \<in># vw_started w. locator_name d = Some (i_name i)))"
proof -
  have "verifier_world_ok api bls ops (verifier_start (Verifier_new v fetchKeys))"
    by (simp add: verifier_world_ok_def verifier_start_def Verifier_new_def step_ok_def maps_ok_def
        pending_def smap_ok_def)
  then have ok: "step_ok api bls ops (set (vw_verifiers w)) (vw_started w) (vw_object w) (vw_effects w)"
    using verifier_run.exec_inv [OF assms] by (simp add: verifier_world_ok_def)
  let ?outs = "vw_effects w" and ?M = "vw_started w" and ?V = "set (vw_verifiers w)"
  have "mset (callbacks ?outs) \<subseteq># image_mset fst (pending (vw_object w)) + mset (callbacks ?outs)" by simp
  also have "\<dots> \<subseteq># image_mset fst ?M" using ok by (simp add: step_ok_def)
  finally have "mset (callbacks ?outs) \<subseteq># image_mset fst ?M" .
  moreover have "effect_ok api bls ops ?V (set_mset ?M) e" if "e \<in> set ?outs" for e
    using ok that by (simp add: step_ok_def list_all_iff)
  then have "\<exists>d s. \<exists>u \<in> ?V. (cb, d, s) \<in># ?M \<and> verifySignature api bls ops u d s = Inr True"
    if "Callback cb True \<in> set ?outs" for cb using that by fastforce
  moreover have "\<exists>(cb, d, s) \<in># ?M. locator_name d = Some (i_name i)" if "Fetch i \<in> set ?outs" for i
    using ok that by (simp only: step_ok_def list_all_iff) (metis effect_ok.simps(2))
  ultimately show ?thesis by blast
qed

section \<open>One packet whose signer list has to be fetched\<close>

text \<open>The queue holds one record, of packet \<open>d\<close>, and only the name \<open>n\<close> is being fetched.\<close>

definition one_waiting ::
  "('c, 'pk) mps_verifier \<Rightarrow> 'c::linorder name \<Rightarrow> 'c data \<Rightarrow> ('c, 'pk, 's) verifier_object \<Rightarrow> bool" where
  "one_waiting v n d vo \<longleftrightarrow> vo_verifier vo = v \<and> (\<exists>j r ids. vo_queue vo = [(j, r)] \<and> vr_data r = d \<and> vo_index vo = [(n, ids)])"

lemma fold_request_index:
  assumes "fold (request_item i) (replicate k n) (vo, r, outs) = (vo', r', outs')" and "vo_index vo = [(n, ids)]"
  shows "\<exists>ids'. vo_index vo' = [(n, ids')]"
  using assms
proof (induction k arbitrary: vo r outs ids)
  case (Suc k)
  then show ?case by (auto simp: request_item_def)
qed auto

lemma async_waits:
  assumes "locator_name d = Some n" and "smap_find (m_certs (vo_verifier vo)) n = None"
    and "smap_find (m_signLists (vo_verifier vo)) n = Some l" and "x \<in> set l"
    and "smap_find (m_certs (vo_verifier vo)) x = None" and "vo_queue vo = []" and "vo_index vo = [(n, ids)]"
  shows "\<exists>vo' outs. asyncVerifySignature api bls ops i d s cb vo = (vo', outs, None) \<and> callbacks outs = [] \<and>
    one_waiting (vo_verifier vo) n d vo'"
proof -
  let ?v = "vo_verifier vo"
  let ?r = "\<lparr>vr_data = d, vr_schema = s, vr_callback = cb, vr_itemLeft = 0\<rparr>"
  define k where "k = count_if (\<lambda>x. smap_find (m_certs ?v) x = None) l"
  have k: "k \<noteq> 0" using assms(4,5) by (auto simp: k_def count_if_def filter_empty_conv)
  have items: "itemsToFetch ?v d = replicate k n"
    using assms(1-3) by (simp add: itemsToFetch_eq k_def)
  have "\<not> readyToVerify ?v d"
    using ready_iff_items [of ?v d] k by (simp add: items)
  moreover obtain vo1 r1 outs1 where 1: "fold (request_item i) (replicate k n) (vo, ?r, []) = (vo1, r1, outs1)"
    by (metis prod_cases3)
  moreover have "smap_ok (vo_index vo)" using assms(7) by (simp add: smap_ok_def)
  note fr = fold_request [OF 1 this]
  moreover obtain ids' where "vo_index vo1 = [(n, ids')]" using fold_request_index [OF 1 assms(7)] by blast
  ultimately show ?thesis
    using assms(6) by (simp add: asyncVerifySignature_def items one_waiting_def smap_emplace_def smap_find_def)
qed

lemma satisfy_loop_waits:
  assumes "locator_name d = Some n" and "smap_find (m_certs v) n = None"
    and "smap_find (m_signLists v) n = Some l" and "x \<in> set l" and "smap_find (m_certs v) x = None"
    and "one_waiting v n d vo"
  shows "\<exists>vo' outs. satisfy_loop api bls ops n bound rnd vo = (vo', outs, None) \<and> callbacks outs = [] \<and>
    one_waiting v n d vo'"
  using assms
proof (induction api bls ops n bound rnd vo rule: satisfy_loop.induct)
  case (1 api bls ops n bound rnd vo)
  obtain j r ids where vo: "vo_verifier vo = v" "vo_queue vo = [(j, r)]" "vr_data r = d" "vo_index vo = [(n, ids)]"
    using "1.prems"(6) by (auto simp: one_waiting_def)
  show ?case
  proof (cases "find (\<lambda>i. bound \<le> unat i) (waiting vo n)")
    case None
    then show ?thesis using "1.prems"(6) by (simp add: satisfy_loop.simps [of api bls ops n bound])
  next
    case (Some i)
    note find = this
    show ?thesis
    proof (cases "smap_find (vo_queue vo) i")
      case None
      then show ?thesis
        using "1.IH"(1) [OF find None "1.prems"] find by (simp add: satisfy_loop.simps [of api bls ops n bound])
    next
      case (Some r')
      then have i: "i = j" "r' = r" using vo(2) by (auto simp: smap_find_def split: if_splits)
      show ?thesis
      proof (cases "vr_itemLeft r = 1")
        case True
        let ?vo = "vo\<lparr>vo_queue := smap_erase i (vo_queue vo)\<rparr>"
        obtain vo1 outs1 where a: "asyncVerifySignature api bls ops (rnd 0) (vr_data r') (vr_schema r') (vr_callback r') ?vo =
            (vo1, outs1, None)" "callbacks outs1 = []" "one_waiting v n d vo1"
          using async_waits [of d n ?vo l x ids api bls ops "rnd 0" "vr_schema r" "vr_callback r"] "1.prems"(1-5) vo i
          by (auto simp: smap_erase_def)
        have "vr_itemLeft r' = 1" using True i by simp
        note IH = "1.IH"(2) [OF find Some this a(1) [symmetric] _ _ "1.prems"(1-5) a(3)]
        obtain vo2 outs2 where "satisfy_loop api bls ops n (Suc (unat i)) (\<lambda>k. rnd (Suc k)) vo1 = (vo2, outs2, None)"
          "callbacks outs2 = []" "one_waiting v n d vo2" using IH by blast
        with a find Some True i show ?thesis by (simp add: satisfy_loop.simps [of api bls ops n bound])
      next
        case False
        have "one_waiting v n d (vo\<lparr>vo_queue := smap_put i (r'\<lparr>vr_itemLeft := vr_itemLeft r' - 1\<rparr>) (vo_queue vo)\<rparr>)"
          using vo i by (simp add: one_waiting_def)
        then show ?thesis
          using "1.IH"(3) [OF find Some False [folded i(2)] "1.prems"(1-5)] find Some False i
          by (simp add: satisfy_loop.simps [of api bls ops n bound])
      qed
    qed
  qed
qed

text \<open>Once nothing is being fetched, replies change neither the queue nor what was called.\<close>

lemma removeAll_nothing: "vo_index vo = [] \<Longrightarrow> removeAll_waiting n vo = (vo, [])"
  by (simp add: removeAll_waiting_def waiting_def smap_find_def smap_erase_def)

lemma satisfyItem_nothing: "vo_index vo = [] \<Longrightarrow> satisfyItem api bls ops rnd n vo = (vo, [], Some (Throws ''map::at''))"
  by (simp add: satisfyItem_def smap_find_def)

lemma onData_nothing:
  assumes "vo_index vo = []"
  shows "\<exists>v f. verifier_onData api bls ops rnd n d vo = (vo\<lparr>vo_verifier := v\<rparr>, [], f)"
proof -
  have id: "\<exists>v. vo = vo\<lparr>vo_verifier := v\<rparr>" by (rule exI [of _ "vo_verifier vo"]) simp
  have cert: "\<exists>v f. onCertificate api bls ops rnd n d vo = (vo\<lparr>vo_verifier := v\<rparr>, [], f)"
    using assms id by (auto simp: onCertificate_def removeAll_nothing satisfyItem_nothing split: prod.splits)
  have list: "\<exists>v f. onSignerList api bls ops rnd n d vo = (vo\<lparr>vo_verifier := v\<rparr>, [], f)"
    using assms id by (auto simp: onSignerList_def removeAll_nothing satisfyItem_nothing Let_def split: sum.split fault.split)
  from cert list show ?thesis by (simp add: verifier_onData_def)
qed

fun is_reply :: "('c, 's) verifier_event \<Rightarrow> bool" where
  "is_reply (Start i d s cb) = False"
| "is_reply _ = True"

lemma replies_silent:
  assumes "exec (\<lambda>_ _. True) (verifier_handle api bls ops) w es w'" and "list_all is_reply es"
    and "vo_index (vw_object w) = []"
  shows "vw_effects w' = vw_effects w \<and> vo_queue (vw_object w') = vo_queue (vw_object w)"
  using assms
proof (induction es arbitrary: w)
  case (Cons e es)
  let ?w = "verifier_handle api bls ops w e"
  have "vw_effects ?w = vw_effects w \<and> vo_queue (vw_object ?w) = vo_queue (vw_object w) \<and>
      vo_index (vw_object ?w) = []"
  proof (cases e)
    case (Reply n d rnd)
    then show ?thesis
      using onData_nothing [OF Cons.prems(3), of api bls ops rnd n d] Cons.prems(3) by (auto simp: record_result_def)
  next
    case (NoReply n)
    then show ?thesis
      using Cons.prems(3) by (simp add: record_result_def verifier_onNoReply_def removeAll_nothing)
  qed (use Cons.prems(2) in simp)
  with Cons show ?case by simp
qed simp

lemma start_waits:
  assumes "locator_name d = Some n" and "smap_find (m_certs v) n = None" and "smap_find (m_signLists v) n = None"
  shows "asyncVerifySignature api bls ops i d s cb (Verifier_new v fetchKeys) =
    ((Verifier_new v fetchKeys)\<lparr>vo_index := [(n, [i])], vo_queue :=
        [(i, \<lparr>vr_data = d, vr_schema = s, vr_callback = cb, vr_itemLeft = 1\<rparr>)]\<rparr>,
     [Fetch ((new_interest n)\<lparr>i_canBePrefix := True, i_mustBeFresh := True, i_lifetime := TIMEOUT\<rparr>)], None)"
  using assms
  by (simp add: asyncVerifySignature_def readyToVerify_def itemsToFetch_eq request_item_def Verifier_new_def
      waiting_def smap_find_def smap_emplace_def sset_insert_def smap_count_def)

lemma list_reply:
  assumes "block_parse api (d_content p) = Inr es" and "tlv_get api es tlv_MpsSignerList = Inr b"
    and "blk_valid api b" and "signers_wireDecode api b = Inr l"
    and "\<not> (vo_fetchKeys vo \<and> isValidName api (d_name p))"
    and "satisfyItem api bls ops rnd n (vo\<lparr>vo_verifier := addSignerList n l (vo_verifier vo)\<rparr>) = (vo', outs, None)"
  shows "verifier_onData api bls ops rnd n p vo = (vo', outs, None)"
  using assms by (auto simp: verifier_onData_def onSignerList_def)

text \<open>
  C34: a list with an unknown signer is the end. When the verifier has to fetch the signer list of a
  packet and the list that comes names a signer whose key it does not know, then it asks for the
  list again, forgets which packet waits for it, and never calls the callback: not after this
  reply and not after any further replies or timeouts, whatever they carry. The record stays in
  the queue.
\<close>

theorem prototype_unknown_signer_hangs:
  assumes "locator_name d = Some n" and "smap_find (m_certs v) n = None" and "smap_find (m_signLists v) n = None"
    and "block_parse api (d_content p) = Inr bs" and "tlv_get api bs tlv_MpsSignerList = Inr b"
    and "blk_valid api b" and "signers_wireDecode api b = Inr l" and "x \<in> set l" and "smap_find (m_certs v) x = None"
    and "smap_ok (m_signLists v)" and "\<not> (fetchKeys \<and> isValidName api (d_name p))" and "list_all is_reply es"
    and "exec (\<lambda>_ _. True) (verifier_handle api bls ops) (verifier_start (Verifier_new v fetchKeys))
      (Start i d s cb # Reply n p rnd # es) w"
  shows "callbacks (vw_effects w) = [] \<and> length (vo_queue (vw_object w)) = 1"
proof -
  let ?vo = "(Verifier_new v fetchKeys)\<lparr>vo_index := [(n, [i])], vo_queue :=
        [(i, \<lparr>vr_data = d, vr_schema = s, vr_callback = cb, vr_itemLeft = 1\<rparr>)]\<rparr>"
  let ?v = "addSignerList n l v" and ?vo' = "?vo\<lparr>vo_verifier := addSignerList n l v\<rparr>"
  have v: "smap_find (m_certs ?v) n = None" "smap_find (m_signLists ?v) n = Some l" "smap_find (m_certs ?v) x = None"
    using assms(2,3,9,10) by (simp_all add: addSignerList_def omap.look_emplace)
  have "one_waiting ?v n d ?vo'" by (simp add: one_waiting_def)
  then obtain vo1 outs where l: "satisfy_loop api bls ops n 0 rnd ?vo' = (vo1, outs, None)" "callbacks outs = []"
    "one_waiting ?v n d vo1"
    using satisfy_loop_waits [OF assms(1) v(1,2) assms(8) v(3), of ?vo' api bls ops 0 rnd] by blast
  then obtain j r ids where vo1: "vo_queue vo1 = [(j, r)]" "vo_index vo1 = [(n, ids)]"
    by (auto simp: one_waiting_def)
  let ?vo1 = "vo1\<lparr>vo_index := smap_erase n (vo_index vo1)\<rparr>"
  have "satisfyItem api bls ops rnd n ?vo' = (?vo1, outs, None)"
    using l(1) by (simp add: satisfyItem_def smap_find_def)
  then have "verifier_onData api bls ops rnd n p ?vo = (?vo1, outs, None)"
    using assms(11) by (intro list_reply [OF assms(4-7)]) (simp_all add: Verifier_new_def)
  moreover have "vo_index ?vo1 = []" by (simp add: vo1 smap_erase_def)
  ultimately show ?thesis
    using assms(12,13) replies_silent [of api bls ops _ es w] l(2) vo1(1)
    by (simp add: verifier_start_def record_result_def start_waits [OF assms(1-3)])
qed

text \<open>
  C33: a list of known signers is answered. When every signer on the fetched list is known, the reply
  calls the callback with the verdict of \<^verbatim>\<open>verifySignature\<close> under the new list, the queue is
  empty again, and no later reply calls anything.
\<close>

theorem prototype_known_signers_answer:
  assumes "locator_name d = Some n" and "smap_find (m_certs v) n = None" and "smap_find (m_signLists v) n = None"
    and "block_parse api (d_content p) = Inr bs" and "tlv_get api bs tlv_MpsSignerList = Inr b"
    and "blk_valid api b" and "signers_wireDecode api b = Inr l"
    and "\<forall>x \<in> set l. smap_find (m_certs v) x \<noteq> None" and "smap_ok (m_signLists v)"
    and "\<not> (fetchKeys \<and> isValidName api (d_name p))" and "list_all is_reply es"
    and "verifySignature api bls ops (addSignerList n l v) d s = Inr verdict"
    and "exec (\<lambda>_ _. True) (verifier_handle api bls ops) (verifier_start (Verifier_new v fetchKeys))
      (Start i d s cb # Reply n p rnd # es) w"
  shows "vw_effects w = [Fetch ((new_interest n)\<lparr>i_canBePrefix := True, i_mustBeFresh := True, i_lifetime := TIMEOUT\<rparr>),
      Callback cb verdict] \<and> vo_queue (vw_object w) = []"
proof -
  let ?r = "\<lparr>vr_data = d, vr_schema = s, vr_callback = cb, vr_itemLeft = 1\<rparr>"
  let ?vo = "(Verifier_new v fetchKeys)\<lparr>vo_index := [(n, [i])], vo_queue := [(i, ?r)]\<rparr>"
  let ?v = "addSignerList n l v" and ?vo' = "?vo\<lparr>vo_verifier := addSignerList n l v\<rparr>"
  let ?vo1 = "?vo'\<lparr>vo_queue := []\<rparr>" and ?vo2 = "?vo'\<lparr>vo_queue := [], vo_index := []\<rparr>"
  have "readyToVerify ?v d"
    using assms(1,3,8,9) by (simp add: readyToVerify_def addSignerList_def omap.look_emplace list_all_iff)
  then have "asyncVerifySignature api bls ops (rnd 0) d s cb ?vo1 = (?vo1, [Callback cb verdict], None)"
    using assms(12) by (simp add: asyncVerifySignature_def)
  moreover have "satisfy_loop api bls ops n (Suc (unat i)) (\<lambda>k. rnd (Suc k)) ?vo1 = (?vo1, [], None)"
    by (simp add: satisfy_loop.simps [of _ _ _ _ "Suc (unat i)"] waiting_def smap_find_def)
  ultimately have "satisfyItem api bls ops rnd n ?vo' = (?vo2, [Callback cb verdict], None)"
    by (simp add: satisfyItem_def smap_find_def satisfy_loop.simps [of _ _ _ _ 0] waiting_def smap_erase_def)
  then have "verifier_onData api bls ops rnd n p ?vo = (?vo2, [Callback cb verdict], None)"
    using assms(10) by (intro list_reply [OF assms(4-7)]) (simp_all add: Verifier_new_def)
  then show ?thesis
    using assms(11,13) replies_silent [of api bls ops _ es w]
    by (simp add: verifier_start_def record_result_def start_waits [OF assms(1-3)])
qed

end
