(* ===== verification/Players_Initiator.thy ===== *)
theory Players_Initiator
  imports Players_Verifier
begin

text \<open>
  The initiator of the prototype, \<^verbatim>\<open>Initiator\<close> of \<^verbatim>\<open>temp/players.cpp\<close>: it asks all
  signers that match the schema at once, verifies every signature piece that comes, and reports
  success as soon as the pieces satisfy the schema, or failure when too many signers are lost or
  the time is over. Several signatures can be in progress; a record holds the state of one.

  The two callbacks of a run are known by one number, and a flag says whether each is set: calling
  an empty \<^verbatim>\<open>std::function\<close> throws. Elements that \<^verbatim>\<open>std::vector(n)\<close> makes are empty
  names and signatures of zeros.
\<close>

section \<open>State\<close>

record ('c, 's, 'sig) initiation_record =
  ir_schema :: 's
  ir_unsignedData :: "'c data"
  ir_callbacks :: nat
  ir_hasSuccess :: bool
  ir_hasFailure :: bool
  ir_wrapper :: "'c data"
  ir_signaturePieces :: "('c name, 'sig) smap"
  ir_availableKeys :: "'c name list"

datatype ('c, 'sk, 'pk) data_signer = WithKeyChain "'c name" | WithMps "('c, 'sk, 'pk) mps_signer"

record ('c, 'sk, 'pk, 's, 'sig) initiator_object =
  io_verifier :: "('c, 'pk) mps_verifier"
  io_prefix :: "'c name"
  io_keyToPrefix :: "('c name, 'c name) smap"
  io_records :: "(32 word, ('c, 's, 'sig) initiation_record) smap"
  io_wrapToId :: "('c name, 32 word) smap"
  io_signer :: "('c, 'sk, 'pk) data_signer"

datatype 'c player_effect =
    InterestFilter "'c name"
  | Request "32 word" "'c name" "'c interest"
  | ScheduleTimeout "32 word" nat
  | CancelTimeout "32 word"
  | SchedulePull int "32 word" "'c name" "'c name"
  | PutWrapper "'c data"
  | PutNack "'c name"
  | OnSuccess nat "'c data" "'c data"
  | OnFailure nat string

type_synonym ('c, 'sk, 'pk, 's, 'sig) player_result =
  "('c, 'sk, 'pk, 's, 'sig) initiator_object \<times> 'c player_effect list \<times> fault option"

section \<open>Construction and signers\<close>

text \<open>Both constructors; they differ in the signer of the packets.\<close>

definition Initiator_new ::
  "('c, 'pk) mps_verifier \<Rightarrow> 'c name \<Rightarrow> ('c, 'sk, 'pk) data_signer \<Rightarrow>
   ('c, 'sk, 'pk, 's, 'sig) initiator_object \<times> 'c player_effect list" where
  "Initiator_new v prefix signer =
     (\<lparr>io_verifier = v, io_prefix = prefix, io_keyToPrefix = [], io_records = [], io_wrapToId = [],
       io_signer = signer\<rparr>, [InterestFilter prefix])"

definition addSigner ::
  "'c::linorder name \<Rightarrow> 'c name \<Rightarrow> ('c, 'sk, 'pk, 's, 'sig) initiator_object \<Rightarrow>
   ('c, 'sk, 'pk, 's, 'sig) initiator_object res" where
  "addSigner keyName prefix io =
     (if smap_find (m_certs (io_verifier io)) keyName = None then Inl (Throws ''do not know private key for'')
      else Inr (io\<lparr>io_keyToPrefix := smap_emplace keyName prefix (io_keyToPrefix io)\<rparr>))"

definition addSigner_key ::
  "'c::linorder name \<Rightarrow> 'pk \<Rightarrow> 'c name \<Rightarrow> ('c, 'sk, 'pk, 's, 'sig) initiator_object \<Rightarrow>
   ('c, 'sk, 'pk, 's, 'sig) initiator_object res" where
  "addSigner_key keyName keyValue prefix io = addSigner keyName prefix
     (if smap_find (m_certs (io_verifier io)) keyName = None
      then io\<lparr>io_verifier := addCert keyName keyValue (io_verifier io)\<rparr> else io)"

definition player_sign_data ::
  "('c, 'z) packet_api_scheme \<Rightarrow> ('sk, 'pk, 'sig, 'y) bls_codes_scheme \<Rightarrow> ('c, 'x) keychain_api_scheme \<Rightarrow>
   ('c, 'sk, 'pk) data_signer \<Rightarrow> 'c data \<Rightarrow> 'c data res" where
  "player_sign_data api bls kc signer d = (case signer of
     WithKeyChain n \<Rightarrow> key_sign_data kc n d | WithMps s \<Rightarrow> sign_data api bls s d [])"

definition player_sign_interest ::
  "('c, 'z) packet_api_scheme \<Rightarrow> ('sk, 'pk, 'sig, 'y) bls_codes_scheme \<Rightarrow> ('c, 'x) keychain_api_scheme \<Rightarrow>
   ('c, 'sk, 'pk) data_signer \<Rightarrow> 'c interest \<Rightarrow> 'c interest res" where
  "player_sign_interest api bls kc signer i = (case signer of
     WithKeyChain n \<Rightarrow> key_sign_interest kc n i | WithMps s \<Rightarrow> sign_interest api bls s i [])"

section \<open>Starting a signature\<close>

text \<open>The loop that sends the sign requests; an exception ends it.\<close>

fun send_requests ::
  "('c::linorder, 'z) players_api_scheme \<Rightarrow> ('sk, 'pk, 'sig, 'y) bls_codes_scheme \<Rightarrow> ('c, 'x) keychain_api_scheme \<Rightarrow>
   ('c, 'sk, 'pk, 's, 'sig) initiator_object \<Rightarrow> 32 word \<Rightarrow> 'c name \<Rightarrow> 'c name list \<Rightarrow>
   'c player_effect list \<times> fault option" where
  "send_requests api bls kc io currentId wrapperFullName [] = ([], None)"
| "send_requests api bls kc io currentId wrapperFullName (i # rest) =
     (case smap_find (io_keyToPrefix io) i of
        None \<Rightarrow> ([], Some (Throws ''map::at''))
      | Some prefix \<Rightarrow>
         (let interest = (new_interest (prefix @ [comp_of_string api ''mps'', comp_of_string api ''sign'']))
                \<lparr>i_appParams := block_with api TLV_ApplicationParameters
                   [nested_block api tlv_ParameterDataName (name_wire api wrapperFullName)],
                 i_lifetime := TIMEOUT\<rparr>
          in (case player_sign_interest api bls kc (io_signer io) interest of
                Inl e \<Rightarrow> ([], Some e)
              | Inr interest \<Rightarrow>
                 (case send_requests api bls kc io currentId wrapperFullName rest of
                    (outs, f) \<Rightarrow> (Request currentId i (interest\<lparr>i_canBePrefix := False, i_mustBeFresh := True\<rparr>) # outs, f)))))"

definition initiation_record_new ::
  "'s \<Rightarrow> 'c data \<Rightarrow> nat \<Rightarrow> bool \<Rightarrow> bool \<Rightarrow> ('c, 's, 'sig) initiation_record" where
  "initiation_record_new trySchema d cbs hasSuccess hasFailure =
     \<lparr>ir_schema = trySchema, ir_unsignedData = d, ir_callbacks = cbs, ir_hasSuccess = hasSuccess,
      ir_hasFailure = hasFailure, ir_wrapper = new_data [], ir_signaturePieces = [], ir_availableKeys = []\<rparr>"

text \<open>
  The preparation of the record: the keys, the signature info of the packet, and the wrapper, which
  is still to be signed. \<open>wrapperHex\<close> is the hexadecimal text of eight random bytes.
\<close>

definition prepare_record ::
  "('c, 'z) players_api_scheme \<Rightarrow> 'c name \<Rightarrow> string \<Rightarrow> 'c name list \<Rightarrow> ('c, 's, 'sig) initiation_record \<Rightarrow>
   ('c, 's, 'sig) initiation_record" where
  "prepare_record api prefix wrapperHex keyToCheck r =
     (let unsigned = (ir_unsignedData r)\<lparr>d_sigInfo := Some (bls_sig_info (prefix @
            [comp_of_string api ''mps'', comp_of_string api ''signers'', comp_of_string api wrapperHex])), d_sigValue := []\<rparr>
      in r\<lparr>ir_availableKeys := keyToCheck, ir_unsignedData := unsigned,
           ir_wrapper := (ir_wrapper r)\<lparr>d_name := prefix @
               [comp_of_string api ''mps'', comp_of_string api ''wrapper'', comp_of_string api wrapperHex],
             d_content := content_of api (nested_block api TLV_Content (data_wire api unsigned)),
             d_freshness := TIMEOUT\<rparr>\<rparr>)"

definition player_multiPartySign ::
  "('c::linorder, 'z) players_api_scheme \<Rightarrow> ('sk, 'pk, 'sig, 'y) bls_codes_scheme \<Rightarrow> ('c, 'x) keychain_api_scheme \<Rightarrow>
   ('c, 's) schema_ops \<Rightarrow> 32 word \<Rightarrow> string \<Rightarrow> 's \<Rightarrow> 'c data \<Rightarrow> nat \<Rightarrow> bool \<Rightarrow> bool \<Rightarrow>
   ('c, 'sk, 'pk, 's, 'sig) initiator_object \<Rightarrow> ('c, 'sk, 'pk, 's, 'sig) player_result" where
  "player_multiPartySign api bls kc ops currentId wrapperHex schema unfinishedData cbs hasSuccess hasFailure io =
     (let keyToCheck = filter (\<lambda>k. getKeyMatches ops schema k \<noteq> []) (map fst (io_keyToPrefix io)) in
      if getMinSigners ops schema keyToCheck = []
      then (io, if hasFailure then [OnFailure cbs ''Not enough available signers to satisfy schema''] else [], None)
      else
        (let records = smap_emplace currentId
               (initiation_record_new schema unfinishedData cbs hasSuccess hasFailure) (io_records io);
             r = prepare_record api (io_prefix io) wrapperHex keyToCheck (the (smap_find records currentId));
             io = io\<lparr>io_records := smap_put currentId r records\<rparr>
         in (case player_sign_data api bls kc (io_signer io) (ir_wrapper r) of
               Inl e \<Rightarrow> (io, [], Some e)
             | Inr wrapper \<Rightarrow>
                (let wrapperFullName = getFullName api wrapper;
                     io = io\<lparr>io_records := smap_put currentId (r\<lparr>ir_wrapper := wrapper\<rparr>) records,
                             io_wrapToId := smap_emplace wrapperFullName currentId (io_wrapToId io)\<rparr>
                 in (case send_requests api bls kc io currentId wrapperFullName keyToCheck of
                       (outs, Some e) \<Rightarrow> (io, outs, Some e)
                     | (outs, None) \<Rightarrow>
                         (io, outs @ [ScheduleTimeout currentId (TIMEOUT + ESTIMATE_PROCESS_TIME + TIMEOUT)], None))))))"

definition onWrapperFetch ::
  "'c::linorder interest \<Rightarrow> ('c, 'sk, 'pk, 's, 'sig) initiator_object \<Rightarrow> 'c player_effect list" where
  "onWrapperFetch interest io = (case smap_find (io_wrapToId io) (i_name interest) of
     None \<Rightarrow> [PutNack (i_name interest)]
   | Some k \<Rightarrow> (case smap_find (io_records io) k of
       None \<Rightarrow> [PutNack (i_name interest)] | Some r \<Rightarrow> [PutWrapper (ir_wrapper r)]))"

section \<open>The end of a signature\<close>

text \<open>The vector \<^verbatim>\<open>pieces\<close> is made with as many elements as it then gets appended.\<close>

definition successCleanup ::
  "('c::linorder, 'z) players_api_scheme \<Rightarrow> ('sk, 'pk, 'sig, 'y) bls_codes_scheme \<Rightarrow> ('c, 'x) keychain_api_scheme \<Rightarrow>
   32 word \<Rightarrow> ('c, 'sk, 'pk, 's, 'sig) initiator_object \<Rightarrow> ('c, 'sk, 'pk, 's, 'sig) player_result" where
  "successCleanup api bls kc k io = (case smap_find (io_records io) k of
     None \<Rightarrow> (io, [], None)
   | Some r \<Rightarrow>
      (let successPiece = map fst (ir_signaturePieces r);
           pieces = replicate (length (ir_signaturePieces r)) (sig_zero bls) @ map snd (ir_signaturePieces r)
       in (case res_bind (key_locator_name (d_sigInfo (ir_unsignedData r))) (\<lambda>n.
                 player_sign_data api bls kc (io_signer io) ((new_data n)
                   \<lparr>d_content := content_of api (signers_wireEncode api successPiece),
                    d_freshness := d_freshness (ir_unsignedData r)\<rparr>)) of
             Inl e \<Rightarrow> (io, [], Some e)
           | Inr signerListData \<Rightarrow>
              (case buildMultiSignature api bls (ir_unsignedData r) pieces of
                 Inl e \<Rightarrow> (io, [], Some e)
               | Inr signedData \<Rightarrow>
                  (io\<lparr>io_records := smap_erase k (io_records io),
                      io_wrapToId := smap_erase (getFullName api (ir_wrapper r)) (io_wrapToId io)\<rparr>,
                   (if ir_hasSuccess r then [OnSuccess (ir_callbacks r) signedData signerListData] else []) @ [CancelTimeout k],
                   None)))))"

text \<open>\<^verbatim>\<open>onFailure\<close> is called without a test whether it is set.\<close>

definition fail_record ::
  "32 word \<Rightarrow> ('c, 's, 'sig) initiation_record \<Rightarrow> string \<Rightarrow> 'c::linorder name option \<Rightarrow>
   ('c, 'sk, 'pk, 's, 'sig) initiator_object \<Rightarrow> ('c, 'sk, 'pk, 's, 'sig) player_result" where
  "fail_record k r reason fullName io =
     (if \<not> ir_hasFailure r then (io, [], Some (Throws ''bad_function_call''))
      else (io\<lparr>io_records := smap_erase k (io_records io),
               io_wrapToId := (case fullName of None \<Rightarrow> io_wrapToId io | Some n \<Rightarrow> smap_erase n (io_wrapToId io))\<rparr>,
            [OnFailure (ir_callbacks r) reason], None))"

definition keyLossTimeout ::
  "('c, 's) schema_ops \<Rightarrow> 32 word \<Rightarrow> 'c::linorder name \<Rightarrow>
   ('c, 'sk, 'pk, 's, 'sig) initiator_object \<Rightarrow> ('c, 'sk, 'pk, 's, 'sig) player_result" where
  "keyLossTimeout ops k keyName io = (case smap_find (io_records io) k of
     None \<Rightarrow> (io, [], None)
   | Some r \<Rightarrow>
      (if keyName \<notin> set (ir_availableKeys r) then (io, [], None)
       else (let r = r\<lparr>ir_availableKeys := remove1 keyName (ir_availableKeys r)\<rparr>;
                 io = io\<lparr>io_records := smap_put k r (io_records io)\<rparr>
             in if getMinSigners ops (ir_schema r) (ir_availableKeys r) = []
                then fail_record k r ''Too many signer refused to sign'' None io
                else (io, [], None))))"

text \<open>The signers that the schema is asked about: as many empty names as there are pieces, then their signers.\<close>

definition success_piece :: "('c, 's, 'sig) initiation_record \<Rightarrow> 'c name list" where
  "success_piece r = replicate (length (ir_signaturePieces r)) [] @ map fst (ir_signaturePieces r)"

definition onSignTimeout ::
  "('c::linorder, 'z) players_api_scheme \<Rightarrow> ('sk, 'pk, 'sig, 'y) bls_codes_scheme \<Rightarrow> ('c, 'x) keychain_api_scheme \<Rightarrow>
   ('c, 's) schema_ops \<Rightarrow> 32 word \<Rightarrow> ('c, 'sk, 'pk, 's, 'sig) initiator_object \<Rightarrow>
   ('c, 'sk, 'pk, 's, 'sig) player_result" where
  "onSignTimeout api bls kc ops k io = (case smap_find (io_records io) k of
     None \<Rightarrow> (io, [], None)
   | Some r \<Rightarrow>
      (if getMinSigners ops (ir_schema r) (success_piece r) \<noteq> []
       then successCleanup api bls kc k io
       else fail_record k r (''Insufficient signature piece at timeout; collected '' @
              digits_of (length (success_piece r)) @ '' Pieces'') (Some (getFullName api (ir_wrapper r))) io))"

section \<open>Replies\<close>

text \<open>
  The reply \<^verbatim>\<open>Processing\<close>: a delay and a result name. \<^verbatim>\<open>Block::get\<close> throws out of the
  handler when an element is missing; only what comes after it is caught. A version at the end of
  the packet's name is raised and appended to the name that was announced.
\<close>

definition pull_name ::
  "('c, 'z) players_api_scheme \<Rightarrow> block \<Rightarrow> 'c name \<Rightarrow> 'c name res" where
  "pull_name api resultAtBlock n =
     res_bind (res_bind (block_from_value api resultAtBlock) (name_of_block api)) (\<lambda>resultName.
       if n = [] then Inl (Undefined ''Name::get'')
       else if isVersion api (last n)
       then res_bind (toVersion api (last n)) (\<lambda>v. Inr (resultName @ [comp_of_version api ((v + 1) mod 2 ^ 64)]))
       else Inr resultName)"

text \<open>
  \<^verbatim>\<open>time::milliseconds\<close> of an unsigned number of 64 bits: a signed count, negative from
  \<open>2 ^ 63\<close> on.
\<close>

definition milliseconds :: "nat \<Rightarrow> int" where
  "milliseconds n = sint (of_nat n :: 64 word)"

definition onProcessing ::
  "('c::linorder, 'z) players_api_scheme \<Rightarrow> ('c, 's) schema_ops \<Rightarrow> 32 word \<Rightarrow> 'c name \<Rightarrow> 'c name \<Rightarrow> block list \<Rightarrow>
   ('c, 'sk, 'pk, 's, 'sig) initiator_object \<Rightarrow> ('c, 'sk, 'pk, 's, 'sig) player_result" where
  "onProcessing api ops k keyName n content io =
     (case res_bind (tlv_get api content tlv_ResultAfter) (\<lambda>b.
         res_bind (if blk_valid api b then read_nn api b else Inr (ESTIMATE_PROCESS_TIME + ESTIMATE_PROCESS_TIME div 5)) (\<lambda>result_ms.
         res_bind (tlv_get api content tlv_ResultName) (\<lambda>resultAtBlock. Inr (result_ms, resultAtBlock)))) of
        Inl e \<Rightarrow> (io, [], Some e)
      | Inr (result_ms, resultAtBlock) \<Rightarrow>
         (if \<not> blk_valid api resultAtBlock then keyLossTimeout ops k keyName io
          else (case pull_name api resultAtBlock n of
              Inl (Throws _) \<Rightarrow> keyLossTimeout ops k keyName io
            | Inl (Undefined u) \<Rightarrow> (io, [], Some (Undefined u))
            | Inr resultName \<Rightarrow> (io, [SchedulePull (milliseconds result_ms) k keyName resultName], None))))"

text \<open>The scheduled pull of a result.\<close>

definition onPullTimer :: "32 word \<Rightarrow> 'c name \<Rightarrow> 'c name \<Rightarrow> 'c player_effect list" where
  "onPullTimer k keyName resultName =
     [Request k keyName ((new_interest resultName)\<lparr>i_canBePrefix := True, i_mustBeFresh := True, i_lifetime := TIMEOUT\<rparr>)]"

text \<open>The reply \<^verbatim>\<open>OK\<close>: a piece that verifies is recorded, and may be the last one needed.\<close>

definition onPiece ::
  "('c::linorder, 'z) players_api_scheme \<Rightarrow> ('sk, 'pk, 'sig, 'y) bls_codes_scheme \<Rightarrow> ('c, 'x) keychain_api_scheme \<Rightarrow>
   ('c, 's) schema_ops \<Rightarrow> 32 word \<Rightarrow> 'c name \<Rightarrow> ('c, 's, 'sig) initiation_record \<Rightarrow> block list \<Rightarrow>
   ('c, 'sk, 'pk, 's, 'sig) initiator_object \<Rightarrow> ('c, 'sk, 'pk, 's, 'sig) player_result" where
  "onPiece api bls kc ops k keyName r content io =
     (case tlv_get api content TLV_SignatureValue of
        Inl e \<Rightarrow> (io, [], Some e)
      | Inr b \<Rightarrow>
         (if \<not> blk_valid api b then keyLossTimeout ops k keyName io
          else if blsSignatureDeserialize_code bls (blk_value b) = 0 then keyLossTimeout ops k keyName io
          else (case verifySignaturePiece api bls ops (io_verifier io) (ir_unsignedData r) keyName b of
              Inl e \<Rightarrow> (io, [], Some e)
            | Inr False \<Rightarrow> keyLossTimeout ops k keyName io
            | Inr True \<Rightarrow>
               (let r = r\<lparr>ir_signaturePieces := smap_emplace keyName
                      (blsSignatureDeserialize bls (sig_uninit bls) (blk_value b)) (ir_signaturePieces r)\<rparr>;
                    io = io\<lparr>io_records := smap_put k r (io_records io)\<rparr>
                in if getMinSigners ops (ir_schema r) (success_piece r) \<noteq> []
                   then successCleanup api bls kc k io else (io, [], None)))))"

definition player_onData ::
  "('c::linorder, 'z) players_api_scheme \<Rightarrow> ('sk, 'pk, 'sig, 'y) bls_codes_scheme \<Rightarrow> ('c, 'x) keychain_api_scheme \<Rightarrow>
   ('c, 's) schema_ops \<Rightarrow> 32 word \<Rightarrow> 'c name \<Rightarrow> 'c data \<Rightarrow>
   ('c, 'sk, 'pk, 's, 'sig) initiator_object \<Rightarrow> ('c, 'sk, 'pk, 's, 'sig) player_result" where
  "player_onData api bls kc ops k keyName d io = (case smap_find (io_records io) k of
     None \<Rightarrow> (io, [], None)
   | Some r \<Rightarrow>
      (case res_bind (block_parse api (d_content d)) (\<lambda>content.
            res_bind (tlv_get api content tlv_Status) (\<lambda>statusBlock. Inr (content, statusBlock))) of
         Inl e \<Rightarrow> (io, [], Some e)
       | Inr (content, statusBlock) \<Rightarrow>
          (if \<not> blk_valid api statusBlock then (io, [], None)
           else (case stoi (read_string api statusBlock) of
               Inl e \<Rightarrow> (io, [], Some e)
             | Inr status \<Rightarrow>
                (if status = 102 then onProcessing api ops k keyName (d_name d) content io
                 else if status = 200 then onPiece api bls kc ops k keyName r content io
                 else keyLossTimeout ops k keyName io)))))"

text \<open>\<^verbatim>\<open>onNack\<close> and \<^verbatim>\<open>onTimeout\<close> do the same.\<close>

definition player_onNoReply ::
  "('c, 's) schema_ops \<Rightarrow> 32 word \<Rightarrow> 'c::linorder name \<Rightarrow>
   ('c, 'sk, 'pk, 's, 'sig) initiator_object \<Rightarrow> ('c, 'sk, 'pk, 's, 'sig) player_result" where
  "player_onNoReply ops k keyName io = keyLossTimeout ops k keyName io"

section \<open>The initiator as an event system\<close>

text \<open>
  Calls of the application, replies and timeouts in any order. A run draws an identifier that no
  record has: the code does not look, and the identifiers are random numbers.
\<close>

record ('c, 'sk, 'pk, 's, 'sig) player_world =
  pw_object :: "('c, 'sk, 'pk, 's, 'sig) initiator_object"
  pw_started :: "(nat \<times> 's \<times> 'c data) multiset"
  pw_effects :: "'c player_effect list"
  pw_faults :: "fault list"

datatype ('c, 'pk, 's) player_event =
    Sign "32 word" string 's "'c data" nat bool bool
  | AddSigner "'c name" 'pk "'c name"
  | ReplyData "32 word" "'c name" "'c data"
  | Lost "32 word" "'c name"
  | Pull "32 word" "'c name" "'c name"
  | TimeOver "32 word"
  | WrapperInterest "'c interest"

definition player_record ::
  "('c, 'sk, 'pk, 's, 'sig) player_result \<Rightarrow> ('c, 'sk, 'pk, 's, 'sig) player_world \<Rightarrow> ('c, 'sk, 'pk, 's, 'sig) player_world" where
  "player_record r w = (case r of (io, outs, f) \<Rightarrow>
     w\<lparr>pw_object := io, pw_effects := pw_effects w @ outs,
       pw_faults := pw_faults w @ (case f of None \<Rightarrow> [] | Some e \<Rightarrow> [e])\<rparr>)"

fun player_enabled :: "('c, 'sk, 'pk, 's, 'sig) player_world \<Rightarrow> ('c, 'pk, 's) player_event \<Rightarrow> bool" where
  "player_enabled w (Sign k hex s d cb hs hf) = (smap_find (io_records (pw_object w)) k = None)"
| "player_enabled w _ = True"

fun player_handle ::
  "('c::linorder, 'z) players_api_scheme \<Rightarrow> ('sk, 'pk, 'sig, 'y) bls_codes_scheme \<Rightarrow> ('c, 'x) keychain_api_scheme \<Rightarrow>
   ('c, 's) schema_ops \<Rightarrow> ('c, 'sk, 'pk, 's, 'sig) player_world \<Rightarrow> ('c, 'pk, 's) player_event \<Rightarrow>
   ('c, 'sk, 'pk, 's, 'sig) player_world" where
  "player_handle api bls kc ops w (Sign k hex s d cb hs hf) =
     player_record (player_multiPartySign api bls kc ops k hex s d cb hs hf (pw_object w))
       (w\<lparr>pw_started := add_mset (cb, s, d) (pw_started w)\<rparr>)"
| "player_handle api bls kc ops w (AddSigner n key prefix) =
     (case addSigner_key n key prefix (pw_object w) of
        Inl e \<Rightarrow> player_record (pw_object w, [], Some e) w | Inr io \<Rightarrow> player_record (io, [], None) w)"
| "player_handle api bls kc ops w (ReplyData k n d) = player_record (player_onData api bls kc ops k n d (pw_object w)) w"
| "player_handle api bls kc ops w (Lost k n) = player_record (player_onNoReply ops k n (pw_object w)) w"
| "player_handle api bls kc ops w (Pull k n rn) = player_record (pw_object w, onPullTimer k n rn, None) w"
| "player_handle api bls kc ops w (TimeOver k) = player_record (onSignTimeout api bls kc ops k (pw_object w)) w"
| "player_handle api bls kc ops w (WrapperInterest i) = player_record (pw_object w, onWrapperFetch i (pw_object w), None) w"

section \<open>What a run keeps\<close>

text \<open>The pairing: signatures of one message that verify, added, verify under the sum of the keys.\<close>

definition bls_sum_law :: "('sk, 'pk, 'sig, 'y) bls_codes_scheme \<Rightarrow> bool" where
  "bls_sum_law bls \<longleftrightarrow> (\<forall>s t k l m. blsVerify bls s k m = 1 \<longrightarrow> blsVerify bls t l m = 1 \<longrightarrow>
     blsVerify bls (blsSignatureAdd bls s t) (blsPublicKeyAdd bls k l) m = 1)"

fun outcomes :: "'c player_effect list \<Rightarrow> nat list" where
  "outcomes [] = []"
| "outcomes (OnSuccess cb d i # outs) = cb # outcomes outs"
| "outcomes (OnFailure cb reason # outs) = cb # outcomes outs"
| "outcomes (_ # outs) = outcomes outs"

lemma outcomes_append [simp]: "outcomes (xs @ ys) = outcomes xs @ outcomes ys"
  by (induction xs rule: outcomes.induct) auto

definition live :: "('c, 'sk, 'pk, 's, 'sig) initiator_object \<Rightarrow> nat multiset" where
  "live io = image_mset (\<lambda>e. ir_callbacks (snd e)) (mset (io_records io))"

text \<open>
  A record belongs to a started run, its wrapper holds its packet, and every piece in it verifies
  under its signer's key.
\<close>

definition record_ok ::
  "('c::linorder, 'z) players_api_scheme \<Rightarrow> ('sk, 'pk, 'sig, 'y) bls_codes_scheme \<Rightarrow> ('c, 'pk) mps_verifier \<Rightarrow>
   (nat \<times> 's \<times> 'c data) set \<Rightarrow> ('c, 's, 'sig) initiation_record \<Rightarrow> bool" where
  "record_ok api bls v M r \<longleftrightarrow> smap_ok (ir_signaturePieces r) \<and>
     (\<exists>d n. (ir_callbacks r, ir_schema r, d) \<in> M \<and>
        ir_unsignedData r = d\<lparr>d_sigInfo := Some (bls_sig_info n), d_sigValue := []\<rparr>) \<and>
     d_content (ir_wrapper r) = content_of api (nested_block api TLV_Content (data_wire api (ir_unsignedData r))) \<and>
     (\<forall>(k, s) \<in> set (ir_signaturePieces r). \<exists>pk m. smap_find (m_certs v) k = Some pk \<and>
        data_unsigned api (ir_unsignedData r) = Inr m \<and> blsVerify bls s pk m = 1)"

definition io_ok ::
  "('c::linorder, 'z) players_api_scheme \<Rightarrow> ('sk, 'pk, 'sig, 'y) bls_codes_scheme \<Rightarrow>
   (nat \<times> 's \<times> 'c data) set \<Rightarrow> ('c, 'sk, 'pk, 's, 'sig) initiator_object \<Rightarrow> bool" where
  "io_ok api bls M io \<longleftrightarrow> smap_ok (io_records io) \<and> smap_ok (m_certs (io_verifier io)) \<and>
     (\<forall>(k, r) \<in> set (io_records io). record_ok api bls (io_verifier io) M r)"

text \<open>A success: the packet of a started run under the sum of the keys of the reported list.\<close>

definition success_ok ::
  "('c::linorder, 'z) players_api_scheme \<Rightarrow> ('sk, 'pk, 'sig, 'y) bls_codes_scheme \<Rightarrow> ('c, 's) schema_ops \<Rightarrow>
   ('c, 'pk) mps_verifier \<Rightarrow> (nat \<times> 's \<times> 'c data) set \<Rightarrow> nat \<Rightarrow> 'c data \<Rightarrow> 'c data \<Rightarrow> bool" where
  "success_ok api bls ops v M cb d i \<longleftrightarrow> (\<exists>s ud n names es b k.
     (cb, s, ud) \<in> M \<and> d = ud\<lparr>d_sigInfo := Some (bls_sig_info n), d_sigValue := d_sigValue d\<rparr> \<and> d_name i = n \<and>
     block_parse api (d_content i) = Inr es \<and> tlv_get api es tlv_MpsSignerList = Inr b \<and>
     signers_wireDecode api b = Inr names \<and> names \<noteq> [] \<and> sorted names \<and> distinct names \<and>
     getMinSigners ops s (replicate (length names) [] @ names) \<noteq> [] \<and>
     add_certs bls (m_certs v) names (pk_uninit bls, False) = Some k \<and>
     check_value bls (d_sigValue d) (data_ranges api d) k = Inr True)"

fun effects_ok where
  "effects_ok api bls ops v M [] = True"
| "effects_ok api bls ops v M (OnSuccess cb d i # outs) \<longleftrightarrow> success_ok api bls ops v M cb d i \<and> effects_ok api bls ops v M outs"
| "effects_ok api bls ops v M (_ # outs) \<longleftrightarrow> effects_ok api bls ops v M outs"

lemma effects_ok_append [simp]:
  "effects_ok api bls ops v M (xs @ ys) \<longleftrightarrow> effects_ok api bls ops v M xs \<and> effects_ok api bls ops v M ys"
  by (induction api bls ops v M xs rule: effects_ok.induct) auto

definition player_step_ok ::
  "('c::linorder, 'z) players_api_scheme \<Rightarrow> ('sk, 'pk, 'sig, 'y) bls_codes_scheme \<Rightarrow> ('c, 's) schema_ops \<Rightarrow>
   (nat \<times> 's \<times> 'c data) set \<Rightarrow> ('c, 'sk, 'pk, 's, 'sig) initiator_object \<Rightarrow>
   ('c, 'sk, 'pk, 's, 'sig) player_result \<Rightarrow> bool" where
  "player_step_ok api bls ops M io r \<longleftrightarrow> (case r of (io', outs, f) \<Rightarrow>
     io_ok api bls M io' \<and> io_verifier io' = io_verifier io \<and> live io' + mset (outcomes outs) \<subseteq># live io \<and>
     effects_ok api bls ops (io_verifier io) M outs)"

lemma player_step_ok_refl:
  "io_ok api bls M io \<Longrightarrow> outcomes outs = [] \<Longrightarrow> effects_ok api bls ops (io_verifier io) M outs \<Longrightarrow>
    player_step_ok api bls ops M io (io, outs, f)"
  by (simp add: player_step_ok_def)

lemma live_fields [simp]:
  "live (io\<lparr>io_wrapToId := x\<rparr>) = live io" "live (io\<lparr>io_verifier := v\<rparr>) = live io"
  "live (io\<lparr>io_keyToPrefix := p\<rparr>) = live io"
  by (simp_all add: live_def)

lemma io_ok_fields [simp]:
  "io_ok api bls M (io\<lparr>io_wrapToId := x\<rparr>) = io_ok api bls M io"
  "io_ok api bls M (io\<lparr>io_keyToPrefix := p\<rparr>) = io_ok api bls M io"
  by (simp_all add: io_ok_def)

lemma record_ok_keys [simp]: "record_ok api bls v M (r\<lparr>ir_availableKeys := ks\<rparr>) = record_ok api bls v M r"
  by (simp add: record_ok_def)

lemma io_ok_record: "io_ok api bls M io \<Longrightarrow> smap_find (io_records io) k = Some r \<Longrightarrow> record_ok api bls (io_verifier io) M r"
  using smap_find_member by (fastforce simp: io_ok_def)

lemma io_ok_erase: "io_ok api bls M io \<Longrightarrow> io_ok api bls M (io\<lparr>io_records := smap_erase k (io_records io)\<rparr>)"
  by (auto simp: io_ok_def smap_erase_ok) (auto simp: smap_erase_def)

lemma set_smap_put: "smap_ok m \<Longrightarrow> set (smap_put k v m) = insert (k, v) (set (smap_erase k m))"
  using arg_cong [OF mset_smap_put, of m set_mset k v] by simp

lemma io_ok_put:
  assumes "io_ok api bls M io" and "record_ok api bls (io_verifier io) M r"
  shows "io_ok api bls M (io\<lparr>io_records := smap_put k r (io_records io)\<rparr>)"
  using assms by (auto simp: io_ok_def smap_put_ok set_smap_put) (auto simp: smap_erase_def)

lemma live_erase:
  assumes "io_ok api bls M io" and "smap_find (io_records io) k = Some r"
  shows "live io = add_mset (ir_callbacks r) (live (io\<lparr>io_records := smap_erase k (io_records io)\<rparr>))"
  using mset_smap_erase [OF _ assms(2)] assms(1) by (simp add: live_def io_ok_def)

lemma live_put:
  assumes "io_ok api bls M io" and "smap_find (io_records io) k = Some r" and "ir_callbacks r' = ir_callbacks r"
  shows "live (io\<lparr>io_records := smap_put k r' (io_records io)\<rparr>) = live io"
  using mset_smap_erase [OF _ assms(2)] assms(1,3) by (simp add: live_def io_ok_def mset_smap_put)

lemma fail_record_ok:
  assumes "io_ok api bls M io" and "smap_find (io_records io) k = Some r"
  shows "player_step_ok api bls ops M io (fail_record k r reason fn io)"
  using assms live_erase [OF assms] io_ok_erase [OF assms(1), of k]
  by (auto simp: fail_record_def player_step_ok_def live_def io_ok_def split: option.split)

lemma keyLoss_ok:
  assumes "io_ok api bls M io"
  shows "player_step_ok api bls ops M io (keyLossTimeout ops k n io)"
proof (cases "smap_find (io_records io) k")
  case None
  then show ?thesis by (simp add: keyLossTimeout_def player_step_ok_refl [OF assms])
next
  case (Some r)
  let ?r = "r\<lparr>ir_availableKeys := remove1 n (ir_availableKeys r)\<rparr>"
  let ?io = "io\<lparr>io_records := smap_put k ?r (io_records io)\<rparr>"
  have ok: "io_ok api bls M ?io" using io_ok_put [OF assms, of ?r] io_ok_record [OF assms Some] by simp
  have live: "live ?io = live io" by (rule live_put [OF assms Some]) simp
  have find: "smap_find (io_records ?io) k = Some ?r" using assms by (simp add: io_ok_def smap_find_put)
  have "player_step_ok api bls ops M io (fail_record k ?r reason fn ?io)" for reason fn
    using fail_record_ok [OF ok find, of ops reason fn] by (auto simp: player_step_ok_def live split: prod.splits)
  moreover have "player_step_ok api bls ops M io (?io, [], None)" using ok live by (simp add: player_step_ok_def)
  ultimately show ?thesis using Some assms by (simp add: keyLossTimeout_def Let_def player_step_ok_refl)
qed

section \<open>Success\<close>

lemma sum_verifies:
  assumes "bls_sum_law bls" and "blsVerify bls s pk m = 1"
    and "\<forall>x \<in> set xs. blsVerify bls (f x) (g x) m = 1"
  shows "blsVerify bls (foldl (blsSignatureAdd bls) s (map f xs)) (foldl (blsPublicKeyAdd bls) pk (map g xs)) m = 1"
  using assms(2,3)
proof (induction xs arbitrary: s pk)
  case (Cons x xs)
  then have "blsVerify bls (blsSignatureAdd bls s (f x)) (blsPublicKeyAdd bls pk (g x)) m = 1"
    using assms(1) by (simp add: bls_sum_law_def)
  with Cons show ?case by simp
qed simp

lemma aggregate_zeros:
  assumes "bls_code_laws bls" and "n \<noteq> 0"
  shows "blsAggregateSignature bls (replicate n (sig_zero bls) @ s # ss) = foldl (blsSignatureAdd bls) s ss"
proof -
  have "foldl (blsSignatureAdd bls) (sig_zero bls) (replicate j (sig_zero bls)) = sig_zero bls" for j
    by (induction j) (simp_all add: add_zero [OF assms(1)])
  moreover obtain j where "n = Suc j" using assms(2) by (cases n) auto
  ultimately show ?thesis by (simp add: aggregate_sum [OF assms(1)] add_zero [OF assms(1)])
qed

lemma sign_data_fields:
  assumes "sign_data api bls signer d loc = Inr d'"
  shows "d_name d' = d_name d \<and> d_content d' = d_content d"
  using assms by (auto simp: sign_data_def sign_data_info_def res_bind_Inr_iff split: if_splits)

lemma player_sign_fields:
  assumes "keychain_laws kc" and "player_sign_data api bls kc signer d = Inr d'"
  shows "d_name d' = d_name d \<and> d_content d' = d_content d"
proof (cases signer)
  case (WithKeyChain n)
  then show ?thesis using key_signed_data [OF assms(1), of n d] assms(2) by (auto simp: player_sign_data_def)
next
  case (WithMps s)
  then show ?thesis using assms(2) sign_data_fields [of api bls s d "[]" d'] by (simp add: player_sign_data_def)
qed

text \<open>The aggregate of the pieces of a record verifies under the sum of their signers' keys.\<close>

lemma record_aggregate:
  assumes "bls_code_laws bls" and "bls_sum_law bls" and "packet_laws api"
    and "record_ok api bls v M r" and "ir_signaturePieces r \<noteq> []"
    and "buildMultiSignature api bls (ir_unsignedData r)
      (replicate (length (ir_signaturePieces r)) (sig_zero bls) @ map snd (ir_signaturePieces r)) = Inr d"
  shows "\<exists>k. d = (ir_unsignedData r)\<lparr>d_sigValue := d_sigValue d\<rparr> \<and>
    add_certs bls (m_certs v) (map fst (ir_signaturePieces r)) (pk_uninit bls, False) = Some k \<and>
    check_value bls (d_sigValue d) (data_ranges api d) k = Inr True"
proof -
  let ?u = "ir_unsignedData r" and ?certs = "m_certs v"
  obtain e ps where ps: "ir_signaturePieces r = e # ps" using assms(5) by (cases "ir_signaturePieces r") auto
  have info: "d_sigInfo ?u \<noteq> None" using assms(4) by (auto simp: record_ok_def)
  obtain m where m: "data_unsigned api ?u = Inr m" using data_ranges_unsigned [OF assms(3) info] by blast
  define pk where "pk = (\<lambda>n. the (smap_find ?certs n))"
  have known: "\<forall>e \<in> set (e # ps). smap_find ?certs (fst e) = Some (pk (fst e))"
    and ver: "\<forall>e \<in> set (e # ps). blsVerify bls (snd e) (pk (fst e)) m = 1"
    using assms(4) m unfolding ps [symmetric] by (fastforce simp: record_ok_def pk_def)+
  let ?s = "foldl (blsSignatureAdd bls) (snd e) (map snd ps)" and ?k = "foldl (blsPublicKeyAdd bls) (pk (fst e)) (map (\<lambda>e. pk (fst e)) ps)"
  let ?v = "blsSignatureSerialize bls (blsGetSerializedSignatureByteSize bls) ?s"
  have d: "d = ?u\<lparr>d_sigValue := ?v\<rparr>"
    using assms(6) info m aggregate_zeros [OF assms(1), of "Suc (length ps)" "snd e" "map snd ps"]
    by (simp add: buildMultiSignature_def signature_buffer_ok [OF assms(1)] ps)
  obtain rs where rs: "data_ranges api d = Inr rs" "concat rs = m"
    using ranges_of_unsigned [OF assms(3) info m] d by metis
  have "check_value bls (d_sigValue d) (data_ranges api d) ?k = Inr True"
    using sum_verifies [OF assms(2), of "snd e" "pk (fst e)" m ps snd "\<lambda>e. pk (fst e)"] ver rs
    by (simp add: d check_value_sig [OF assms(1) refl])
  moreover have "add_certs bls ?certs (map fst (ir_signaturePieces r)) (pk_uninit bls, False) = Some ?k"
    unfolding ps by (rule add_certs_start [OF known])
  ultimately show ?thesis using d by simp
qed

lemma success_step:
  assumes laws: "bls_code_laws bls" "bls_sum_law bls" "tlv_laws api" "packet_laws api" "keychain_laws kc"
    and io: "io_ok api bls M io" and r: "smap_find (io_records io) k = Some r"
    and pieces: "ir_signaturePieces r \<noteq> []"
    and enough: "getMinSigners ops (ir_schema r) (success_piece r) \<noteq> []"
  shows "player_step_ok api bls ops M io (successCleanup api bls kc k io)"
proof -
  let ?ps = "ir_signaturePieces r" and ?u = "ir_unsignedData r"
  let ?names = "map fst ?ps"
  have rok: "record_ok api bls (io_verifier io) M r" by (rule io_ok_record [OF io r])
  then obtain ud n where ud: "(ir_callbacks r, ir_schema r, ud) \<in> M"
    "?u = ud\<lparr>d_sigInfo := Some (bls_sig_info n), d_sigValue := []\<rparr>" by (auto simp: record_ok_def)
  let ?list = "(new_data n)\<lparr>d_content := content_of api (signers_wireEncode api ?names), d_freshness := d_freshness ?u\<rparr>"
  have kl: "key_locator_name (d_sigInfo ?u) = Inr n" by (simp add: ud(2) key_locator_name_def bls_sig_info_def)
  have success: "success_ok api bls ops (io_verifier io) M (ir_callbacks r) d i"
    if "player_sign_data api bls kc (io_signer io) ?list = Inr i"
      and b: "buildMultiSignature api bls ?u (replicate (length ?ps) (sig_zero bls) @ map snd ?ps) = Inr d" for d i
  proof -
    have i: "d_name i = n" "d_content i = d_content ?list"
      using player_sign_fields [OF laws(5) that(1)] by (simp_all add: new_data_def)
    obtain agg where agg: "d = ?u\<lparr>d_sigValue := d_sigValue d\<rparr>"
      "add_certs bls (m_certs (io_verifier io)) ?names (pk_uninit bls, False) = Some agg"
      "check_value bls (d_sigValue d) (data_ranges api d) agg = Inr True"
      using record_aggregate [OF laws(1,2,4) rok pieces b] by blast
    have "d = ud\<lparr>d_sigInfo := Some (bls_sig_info n), d_sigValue := d_sigValue d\<rparr>"
      by (rule trans [OF agg(1)]) (simp add: ud(2))
    moreover have "sorted ?names \<and> distinct ?names" using rok by (simp add: record_ok_def smap_ok_def)
    moreover have "block_parse api (d_content i) = Inr [signers_wireEncode api ?names]"
      using i(2) by (simp add: signers_wireEncode_def content_of_eq [OF laws(4)] tlv_MpsSignerList_def
          block_parse_with [OF laws(3)])
    moreover have "tlv_get api [signers_wireEncode api ?names] tlv_MpsSignerList = Inr (signers_wireEncode api ?names)"
      by (rule tlv_get_found [OF laws(3)]) (simp add: signers_wireEncode_def)
    moreover have "signers_wireDecode api (signers_wireEncode api ?names) = Inr ?names"
      using signers_codec.round [OF laws(3)] by blast
    ultimately show ?thesis
      using ud(1) i(1) agg(2,3) pieces enough unfolding success_ok_def success_piece_def
      by (intro exI [of _ "ir_schema r"] exI [of _ ud] exI [of _ n] exI [of _ ?names]
          exI [of _ "[signers_wireEncode api ?names]"] exI [of _ "signers_wireEncode api ?names"] exI [of _ agg]) simp
  qed
  show ?thesis
    using success r io live_erase [OF io r] io_ok_erase [OF io, of k]
    by (auto simp: successCleanup_def player_step_ok_def kl live_def io_ok_def split: sum.split)
qed

lemma onPiece_step:
  assumes laws: "bls_code_laws bls" "bls_sum_law bls" "tlv_laws api" "packet_laws api" "keychain_laws kc"
    and io: "io_ok api bls M io" and r: "smap_find (io_records io) k = Some r"
  shows "player_step_ok api bls ops M io (onPiece api bls kc ops k n r content io)"
proof -
  have next_step: "player_step_ok api bls ops M io (let r = r\<lparr>ir_signaturePieces := smap_emplace n
          (blsSignatureDeserialize bls (sig_uninit bls) (blk_value b)) (ir_signaturePieces r)\<rparr>;
        io = io\<lparr>io_records := smap_put k r (io_records io)\<rparr>
      in if getMinSigners ops (ir_schema r) (success_piece r) \<noteq> []
         then successCleanup api bls kc k io else (io, [], None))"
    if v: "verifySignaturePiece api bls ops (io_verifier io) (ir_unsignedData r) n b = Inr True" for b
  proof -
    let ?s = "blsSignatureDeserialize bls (sig_uninit bls) (blk_value b)"
    let ?r = "r\<lparr>ir_signaturePieces := smap_emplace n ?s (ir_signaturePieces r)\<rparr>"
    let ?io = "io\<lparr>io_records := smap_put k ?r (io_records io)\<rparr>"
    have rok: "record_ok api bls (io_verifier io) M r" by (rule io_ok_record [OF io r])
    obtain pk m where pk: "smap_find (m_certs (io_verifier io)) n = Some pk"
      "data_unsigned api (ir_unsignedData r) = Inr m" "blsVerify bls ?s pk m = 1"
      using v by (auto simp: verifySignaturePiece_def res_bind_Inr_iff verify_nonzero [OF laws(1)] split: option.splits if_splits)
    have "record_ok api bls (io_verifier io) M ?r"
      using rok pk by (auto simp: record_ok_def smap_emplace_def smap_put_ok set_smap_put
          smap_erase_def split: option.split)
    then have ok: "io_ok api bls M ?io" using io_ok_put [OF io] by simp
    have live: "live ?io = live io" by (rule live_put [OF io r]) simp
    have find: "smap_find (io_records ?io) k = Some ?r" using io by (simp add: io_ok_def smap_find_put)
    have some: "ir_signaturePieces ?r \<noteq> []"
      using omap.look_emplace [of "ir_signaturePieces r" n ?s n] rok
      by (auto simp: record_ok_def smap_find_def)
    have "getMinSigners ops (ir_schema ?r) (success_piece ?r) \<noteq> [] \<longrightarrow>
        player_step_ok api bls ops M io (successCleanup api bls kc k ?io)"
      using success_step [OF laws ok find some, of ops] by (auto simp: player_step_ok_def live split: prod.splits)
    moreover have "player_step_ok api bls ops M io (?io, [], None)" using ok live by (simp add: player_step_ok_def)
    ultimately show ?thesis by (simp add: Let_def)
  qed
  show ?thesis
    using next_step keyLoss_ok [OF io, of ops k n]
    by (auto simp: onPiece_def player_step_ok_refl [OF io] simp del: Let_def split: sum.split bool.split)
qed

lemma onData_step:
  assumes laws: "bls_code_laws bls" "bls_sum_law bls" "tlv_laws api" "packet_laws api" "keychain_laws kc"
    and io: "io_ok api bls M io"
  shows "player_step_ok api bls ops M io (player_onData api bls kc ops k n d io)"
proof -
  have "player_step_ok api bls ops M io (onProcessing api ops k n m content io)" for m content
    using keyLoss_ok [OF io, of ops k n]
    by (auto simp: onProcessing_def player_step_ok_refl [OF io] split: sum.split fault.split)
  then show ?thesis
    using onPiece_step [OF laws io] keyLoss_ok [OF io, of ops k n]
    by (auto simp: player_onData_def player_step_ok_refl [OF io] split: option.split sum.split)
qed

lemma onSignTimeout_step:
  assumes laws: "bls_code_laws bls" "bls_sum_law bls" "tlv_laws api" "packet_laws api" "keychain_laws kc"
    and io: "io_ok api bls M io" and none: "\<And>s. getMinSigners ops s [] = []"
  shows "player_step_ok api bls ops M io (onSignTimeout api bls kc ops k io)"
proof (cases "smap_find (io_records io) k")
  case None
  then show ?thesis by (simp add: onSignTimeout_def player_step_ok_refl [OF io])
next
  case (Some r)
  have "ir_signaturePieces r \<noteq> []" if "getMinSigners ops (ir_schema r) (success_piece r) \<noteq> []"
    using that none by (auto simp: success_piece_def)
  then show ?thesis
    using Some success_step [OF laws io Some] fail_record_ok [OF io Some] by (simp add: onSignTimeout_def)
qed

section \<open>Runs\<close>

text \<open>More started runs and more known keys keep what holds.\<close>

definition certs_grow :: "('c::linorder, 'pk) mps_verifier \<Rightarrow> ('c, 'pk) mps_verifier \<Rightarrow> bool" where
  "certs_grow v v' \<longleftrightarrow> (\<forall>n pk. smap_find (m_certs v) n = Some pk \<longrightarrow> smap_find (m_certs v') n = Some pk)"

lemma add_certs_grow:
  assumes "certs_grow v v'" and "add_certs bls (m_certs v) l st = Some k"
  shows "add_certs bls (m_certs v') l st = Some k"
  using assms(2)
proof (induction bls "m_certs v" l st rule: add_certs.induct)
  case (2 bls x rest agg i)
  then obtain pk where pk: "smap_find (m_certs v) x = Some pk" by (auto split: option.splits)
  moreover have "smap_find (m_certs v') x = Some pk" using assms(1) pk by (simp add: certs_grow_def)
  ultimately show ?case using 2 by (auto split: if_splits)
qed simp

lemma record_ok_grow:
  assumes "record_ok api bls v M r" and "M \<subseteq> N" and "certs_grow v v'"
  shows "record_ok api bls v' N r"
  using assms unfolding record_ok_def certs_grow_def by fast

lemma success_ok_grow:
  assumes "success_ok api bls ops v M cb d i" and "M \<subseteq> N" and "certs_grow v v'"
  shows "success_ok api bls ops v' N cb d i"
proof -
  obtain s ud n names es b k where m: "(cb, s, ud) \<in> M"
    and "add_certs bls (m_certs v) names (pk_uninit bls, False) = Some k"
    and rest: "d = ud\<lparr>d_sigInfo := Some (bls_sig_info n), d_sigValue := d_sigValue d\<rparr> \<and> d_name i = n \<and>
     block_parse api (d_content i) = Inr es \<and> tlv_get api es tlv_MpsSignerList = Inr b \<and>
     signers_wireDecode api b = Inr names \<and> names \<noteq> [] \<and> sorted names \<and> distinct names \<and>
     getMinSigners ops s (replicate (length names) [] @ names) \<noteq> []"
    and c: "check_value bls (d_sigValue d) (data_ranges api d) k = Inr True"
    using assms(1) unfolding success_ok_def by blast
  then have "add_certs bls (m_certs v') names (pk_uninit bls, False) = Some k"
    using add_certs_grow [OF assms(3)] by blast
  with m rest c assms(2) show ?thesis unfolding success_ok_def by blast
qed

lemma effects_ok_grow:
  "effects_ok api bls ops v M outs \<Longrightarrow> M \<subseteq> N \<Longrightarrow> certs_grow v v' \<Longrightarrow> effects_ok api bls ops v' N outs"
  by (induction api bls ops v M outs rule: effects_ok.induct) (auto intro: success_ok_grow)

lemma certs_grow_refl [simp]: "certs_grow v v"
  by (simp add: certs_grow_def)

lemma io_ok_grow:
  assumes "io_ok api bls M io" and "M \<subseteq> N"
  shows "io_ok api bls N io"
  using assms record_ok_grow [OF _ assms(2) certs_grow_refl] by (fastforce simp: io_ok_def)

lemma send_requests_silent:
  "send_requests api bls kc io k n ks = (outs, f) \<Longrightarrow> outcomes outs = [] \<and> effects_ok api bls ops v M outs"
  by (induction api bls kc io k n ks arbitrary: outs f rule: send_requests.induct)
    (auto simp: Let_def split: option.splits sum.splits prod.splits)

lemma multiPartySign_step:
  fixes io :: "('c::linorder, 'sk, 'pk, 's, 'sig) initiator_object"
  assumes "io_ok api bls M io" and "smap_find (io_records io) k = None" and "(cb, s, d) \<in> M"
    and "player_multiPartySign api bls kc ops k hex s d cb hs hf io = (io', outs, f)" and "keychain_laws kc"
  shows "io_ok api bls M io' \<and> io_verifier io' = io_verifier io \<and>
    live io' + mset (outcomes outs) \<subseteq># add_mset cb (live io) \<and> effects_ok api bls ops (io_verifier io) M outs"
proof -
  let ?keys = "filter (\<lambda>k. getKeyMatches ops s k \<noteq> []) (map fst (io_keyToPrefix io))"
  show ?thesis
  proof (cases "getMinSigners ops s ?keys = []")
    case True
    then show ?thesis using assms by (auto simp: player_multiPartySign_def)
  next
    case False
    let ?fresh = "initiation_record_new s d cb hs hf :: ('c, 's, 'sig) initiation_record"
    let ?r = "prepare_record api (io_prefix io) hex ?keys ?fresh"
    have ok: "smap_ok (io_records io)" using assms(1) by (simp add: io_ok_def)
    have rec: "record_ok api bls (io_verifier io) M (?r\<lparr>ir_wrapper := w\<rparr>)"
      if "d_content w = d_content (ir_wrapper ?r)" for w
      using assms(3) that by (auto simp: record_ok_def prepare_record_def initiation_record_new_def Let_def smap_ok_def)
    have put: "smap_put k w (smap_emplace k ?fresh (io_records io)) = smap_put k w (io_records io)" for w
      using assms(2) by (simp add: smap_emplace_def smap_put_twice [OF ok])
    have find: "the (smap_find (smap_emplace k ?fresh (io_records io)) k) = ?fresh"
      using assms(2) ok by (simp add: smap_emplace_def smap_find_put)
    have new: "io_ok api bls M (io\<lparr>io_records := smap_put k (?r\<lparr>ir_wrapper := w\<rparr>) (io_records io)\<rparr>)"
      if "w = ir_wrapper ?r \<or> player_sign_data api bls kc (io_signer io) (ir_wrapper ?r) = Inr w" for w
      using io_ok_put [OF assms(1) rec [of w]] that
        player_sign_fields [OF assms(5), of api bls "io_signer io" "ir_wrapper ?r" w] by auto
    have live: "live (io\<lparr>io_records := smap_put k (?r\<lparr>ir_wrapper := w\<rparr>) (io_records io)\<rparr>) = add_mset cb (live io)" for w
      using assms(2) by (simp add: live_def mset_smap_put [OF ok] smap_erase_absent prepare_record_def
          initiation_record_new_def Let_def)
    show ?thesis
      using assms(4) False new live new [of "ir_wrapper ?r"] live [of "ir_wrapper ?r"]
      by (auto simp: player_multiPartySign_def Let_def put find dest: send_requests_silent
          split: sum.splits prod.splits option.splits)
  qed
qed

definition player_start ::
  "('c, 'pk) mps_verifier \<Rightarrow> 'c name \<Rightarrow> ('c, 'sk, 'pk) data_signer \<Rightarrow> ('c, 'sk, 'pk, 's, 'sig) player_world" where
  "player_start v prefix signer = (case Initiator_new v prefix signer of (io, outs) \<Rightarrow>
     \<lparr>pw_object = io, pw_started = {#}, pw_effects = outs, pw_faults = []\<rparr>)"

definition player_world_ok ::
  "('c::linorder, 'z) players_api_scheme \<Rightarrow> ('sk, 'pk, 'sig, 'y) bls_codes_scheme \<Rightarrow> ('c, 's) schema_ops \<Rightarrow>
   ('c, 'sk, 'pk, 's, 'sig) player_world \<Rightarrow> bool" where
  "player_world_ok api bls ops w \<longleftrightarrow> io_ok api bls (set_mset (pw_started w)) (pw_object w) \<and>
     live (pw_object w) + mset (outcomes (pw_effects w)) \<subseteq># image_mset fst (pw_started w) \<and>
     effects_ok api bls ops (io_verifier (pw_object w)) (set_mset (pw_started w)) (pw_effects w)"

lemma player_record_ok:
  assumes "player_world_ok api bls ops w"
    and "player_step_ok api bls ops (set_mset (pw_started w)) (pw_object w) r"
  shows "player_world_ok api bls ops (player_record r w)"
proof -
  obtain io outs f where r: "r = (io, outs, f)" by (metis prod_cases3)
  have "live io + mset (outcomes outs) + mset (outcomes (pw_effects w)) \<subseteq>#
      live (pw_object w) + mset (outcomes (pw_effects w))"
    using assms(2) by (simp add: player_step_ok_def r)
  also have "\<dots> \<subseteq># image_mset fst (pw_started w)" using assms(1) by (simp add: player_world_ok_def)
  finally have "live io + mset (outcomes (pw_effects w @ outs)) \<subseteq># image_mset fst (pw_started w)"
    by (simp add: ac_simps)
  with assms show ?thesis by (auto simp: player_world_ok_def player_record_def player_step_ok_def r)
qed

lemma addSigner_ok:
  assumes "io_ok api bls M io" and "addSigner_key n key prefix io = Inr io'"
  shows "io_ok api bls M io' \<and> live io' = live io \<and> certs_grow (io_verifier io) (io_verifier io')"
proof -
  let ?v = "addCert n key (io_verifier io)"
  have certs: "smap_ok (m_certs (io_verifier io))" using assms(1) by (simp add: io_ok_def)
  have grow: "certs_grow (io_verifier io) ?v"
    by (auto simp: certs_grow_def addCert_def omap.look_emplace [OF certs])
  have "io_ok api bls M (io\<lparr>io_verifier := ?v\<rparr>)"
    using assms(1) record_ok_grow [OF _ subset_refl grow] omap.invar_emplace [OF certs]
    by (fastforce simp: io_ok_def addCert_def)
  then show ?thesis
    using assms grow by (auto simp: addSigner_key_def Players_Initiator.addSigner_def split: if_splits)
qed

lemma player_world_step:
  assumes laws: "bls_code_laws bls" "bls_sum_law bls" "tlv_laws api" "packet_laws api" "keychain_laws kc"
    and none: "\<And>s. getMinSigners ops s [] = []"
    and ok: "player_world_ok api bls ops w" and en: "player_enabled w e"
  shows "player_world_ok api bls ops (player_handle api bls kc ops w e)"
proof -
  let ?io = "pw_object w" and ?M = "set_mset (pw_started w)"
  have io: "io_ok api bls ?M ?io" using ok by (simp add: player_world_ok_def)
  note recorded = player_record_ok [OF ok]
  show ?thesis
  proof (cases e)
    case (Sign k hex s d cb hs hf)
    let ?N = "set_mset (add_mset (cb, s, d) (pw_started w))"
    have N: "?M \<subseteq> ?N" by auto
    obtain io' outs f where r: "player_multiPartySign api bls kc ops k hex s d cb hs hf ?io = (io', outs, f)"
      by (metis prod_cases3)
    have "smap_find (io_records ?io) k = None" "(cb, s, d) \<in> ?N" using en Sign by simp_all
    note step = multiPartySign_step [OF io_ok_grow [OF io N] this r laws(5)]
    have "live io' + mset (outcomes outs) + mset (outcomes (pw_effects w)) \<subseteq>#
        add_mset cb (live ?io + mset (outcomes (pw_effects w)))" using step by simp
    also have "\<dots> \<subseteq># image_mset fst (add_mset (cb, s, d) (pw_started w))"
      using ok by (simp add: player_world_ok_def)
    finally have "live io' + mset (outcomes (pw_effects w @ outs)) \<subseteq># image_mset fst (add_mset (cb, s, d) (pw_started w))"
      by (simp add: ac_simps)
    moreover have "effects_ok api bls ops (io_verifier io') ?N (pw_effects w)"
      using ok step by (auto simp: player_world_ok_def intro: effects_ok_grow [OF _ N certs_grow_refl, simplified])
    ultimately show ?thesis using step r Sign by (simp add: player_world_ok_def player_record_def)
  next
    case (AddSigner n key prefix)
    show ?thesis
    proof (cases "addSigner_key n key prefix ?io")
      case (Inl x)
      then show ?thesis using AddSigner recorded [OF player_step_ok_refl [OF io]] by simp
    next
      case (Inr io')
      note step = addSigner_ok [OF io Inr]
      have "effects_ok api bls ops (io_verifier io') ?M (pw_effects w)"
        using effects_ok_grow [OF _ subset_refl] ok step unfolding player_world_ok_def by blast
      then show ?thesis using AddSigner Inr ok step by (simp add: player_world_ok_def player_record_def)
    qed
  next
    case (ReplyData k n d)
    then show ?thesis using recorded [OF onData_step [OF laws io]] by simp
  next
    case (Lost k n)
    then show ?thesis using recorded [OF keyLoss_ok [OF io]] by (simp add: player_onNoReply_def)
  next
    case (Pull k n rn)
    then show ?thesis using recorded [OF player_step_ok_refl [OF io]] by (simp add: onPullTimer_def)
  next
    case (TimeOver k)
    then show ?thesis using recorded [OF onSignTimeout_step [OF laws io none]] by simp
  next
    case (WrapperInterest i)
    then show ?thesis
      using recorded [OF player_step_ok_refl [OF io]] by (simp add: onWrapperFetch_def split: option.split)
  qed
qed

text \<open>The laws are a premise of the invariant here, so that the interpretation needs none.\<close>

definition player_laws ::
  "('c, 'z) players_api_scheme \<Rightarrow> ('sk, 'pk, 'sig, 'y) bls_codes_scheme \<Rightarrow> ('c, 'x) keychain_api_scheme \<Rightarrow>
   ('c, 's) schema_ops \<Rightarrow> bool" where
  "player_laws api bls kc ops \<longleftrightarrow> bls_code_laws bls \<and> bls_sum_law bls \<and> tlv_laws api \<and> packet_laws api \<and>
     keychain_laws kc \<and> (\<forall>s. getMinSigners ops s [] = [])"

interpretation player_run: invariant_system player_enabled "player_handle api bls kc ops"
    "\<lambda>w. player_laws api bls kc ops \<longrightarrow> player_world_ok api bls ops w"
  for api :: "('c::linorder, 'z) players_api_scheme" and bls :: "('sk, 'pk, 'sig, 'y) bls_codes_scheme"
    and kc :: "('c, 'x) keychain_api_scheme" and ops :: "('c, 's) schema_ops"
  by unfold_locales (auto simp: player_laws_def intro!: player_world_step)

lemma player_exec_ok:
  assumes "player_laws api bls kc ops" and "smap_ok (m_certs v)"
    and "exec player_enabled (player_handle api bls kc ops) (player_start v prefix signer) es w"
  shows "player_world_ok api bls ops w"
proof -
  have "player_world_ok api bls ops (player_start v prefix signer)"
    using assms(2) by (simp add: player_world_ok_def player_start_def Initiator_new_def io_ok_def live_def smap_ok_def)
  then show ?thesis using player_run.exec_inv [OF assms(3)] assms(1) by blast
qed

text \<open>
  C10: what the prototype's initiator reports. In every run, with any number of signatures in progress
  and whatever arrives in whatever order, each call of \<^verbatim>\<open>multiPartySign\<close> is answered at most
  once, by success or by failure; and a reported success is a packet of one of the calls with
  nothing changed but its signature, whose info packet lists, in order and without repetition,
  signers the schema is content with, and whose signature value verifies under the sum of the
  keys of just these signers. No signer can spoil the aggregate with a bad piece.
\<close>

theorem prototype_initiator_reports:
  assumes "bls_code_laws bls" and "bls_sum_law bls" and "tlv_laws api" and "packet_laws api" and "keychain_laws kc"
    and "\<forall>s. getMinSigners ops s [] = []" and "smap_ok (m_certs v)"
    and "exec player_enabled (player_handle api bls kc ops) (player_start v prefix signer) es w"
  shows "mset (outcomes (pw_effects w)) \<subseteq># image_mset fst (pw_started w) \<and>
    (\<forall>cb d i. OnSuccess cb d i \<in> set (pw_effects w) \<longrightarrow>
      (\<exists>s ud names es b k. (cb, s, ud) \<in># pw_started w \<and>
        d = ud\<lparr>d_sigInfo := Some (bls_sig_info (d_name i)), d_sigValue := d_sigValue d\<rparr> \<and>
        block_parse api (d_content i) = Inr es \<and> tlv_get api es tlv_MpsSignerList = Inr b \<and>
        signers_wireDecode api b = Inr names \<and> names \<noteq> [] \<and> sorted names \<and> distinct names \<and>
        getMinSigners ops s (replicate (length names) [] @ names) \<noteq> [] \<and>
        add_certs bls (m_certs (io_verifier (pw_object w))) names (pk_uninit bls, False) = Some k \<and>
        check_value bls (d_sigValue d) (data_ranges api d) k = Inr True))"
proof -
  have ok: "player_world_ok api bls ops w"
    by (rule player_exec_ok [OF _ assms(7,8)]) (simp add: assms player_laws_def)
  let ?E = "pw_effects w" and ?M = "pw_started w"
  have "mset (outcomes ?E) \<subseteq># live (pw_object w) + mset (outcomes ?E)" by simp
  also have "\<dots> \<subseteq># image_mset fst ?M" using ok by (simp add: player_world_ok_def)
  finally have "mset (outcomes ?E) \<subseteq># image_mset fst ?M" .
  moreover have success: "OnSuccess cb d i \<in> set E \<Longrightarrow> effects_ok api bls ops v' M E \<Longrightarrow> success_ok api bls ops v' M cb d i"
    for cb d i E v' M by (induction api bls ops v' M E rule: effects_ok.induct) auto
  have "success_ok api bls ops (io_verifier (pw_object w)) (set_mset ?M) cb d i"
    if "OnSuccess cb d i \<in> set ?E" for cb d i
    using success [OF that] ok by (simp add: player_world_ok_def)
  ultimately show ?thesis unfolding success_ok_def by blast
qed

end
