(* ===== verification/Players_Run.thy ===== *)
theory Players_Run
  imports Players_Initiator
begin

text \<open>
  Initiator and signer of the prototype together: the signer makes its piece of the packet in the
  wrapper it fetched, tells it to the Interest for the result, and the initiator ends the run with
  success when this was the last piece its schema asks for.
\<close>

section \<open>The signer's part\<close>

lemma result_at_put [simp]: "smap_ok m \<Longrightarrow> result_at (smap_put k r m) k = r"
  by (simp add: result_at_def smap_find_put)

lemma fetched_wrapper:
  assumes "tlv_laws api" and "packet_laws api" and "d_sigInfo u \<noteq> None" and "accepted (so_dataVerifyCallback so) u"
    and "d_content w = content_of api (nested_block api TLV_Content (data_wire api u))" and "smap_ok (so_results so)"
  obtains piece r where "ndnGenBLSSignature_data api bls (so_sk so) u = Inr piece"
    and "signer_onFetched api bls partial rid (Fetched w) so = (so\<lparr>so_results := smap_put rid r (so_results so)\<rparr>, None)"
    and "ri_code r = OK" and "ri_signatureValue r = piece"
proof -
  obtain m where m: "data_unsigned api u = Inr m" using data_ranges_unsigned [OF assms(2,3)] by blast
  have "res_bind (block_from_value api (d_content w)) (data_of_block api) = Inr u"
    using assms(3) by (simp add: assms(5) content_of_eq [OF assms(2)] nested_block_type [OF assms(1)]
        from_nested_block [OF assms(1)] data_of_wire [OF assms(2)])
  then show ?thesis
    using assms(4,6) m
    by (intro that) (auto simp: ndnGenBLSSignature_data_def set_result_code_def smap_put_twice)
qed

text \<open>What the answer to the Interest for a result with the code \<^verbatim>\<open>OK\<close> holds.\<close>

lemma told_piece:
  assumes "bls_laws bls skAdd" and "tlv_laws api" and "packet_laws api" and "players_laws api"
    and "rid < 2 ^ 64" and "i_name i = result_name api (so_prefix so) rid"
    and "smap_find (so_results so) rid = Some r" and "ri_code r = OK"
  obtains so' d es b where "signer_onResultFetch api bls i so = (so', [Put d], None)"
    and "block_parse api (d_content d) = Inr es" and "tlv_get api es tlv_Status = Inr b"
    and "blk_valid api b" and "read_string api b = ''200''"
    and "tlv_get api es TLV_SignatureValue = Inr (Blk TLV_SignatureValue (ri_signatureValue r))"
proof -
  let ?es = "[str_block api tlv_Status (code_text OK), Blk TLV_SignatureValue (ri_signatureValue r)]"
  obtain d where d: "signer_onResultFetch api bls i so =
      (so\<lparr>so_results := fst (result_content api so rid r)\<rparr>, [Put d], None)"
    "block_parse api (d_content d) = Inr (snd (result_content api so rid r))"
    using result_fetch [OF assms(1-7)] by metis
  have es: "snd (result_content api so rid r) = ?es" using assms(8) by (simp add: result_content_def)
  show ?thesis
    by (rule that [OF d [unfolded es]])
      (auto intro!: tlv_get_found [OF assms(2)] simp: str_block_type [OF assms(2)] read_str_block [OF assms(2)]
        protocol_tlvs code_texts blk_valid_def tlv_invalid_eq [OF assms(2)])
qed

section \<open>The initiator's part\<close>

lemma player_sign_total:
  assumes "bls_code_laws bls" and "packet_laws api" and "keychain_laws kc"
  shows "\<exists>d'. player_sign_data api bls kc signer d = Inr d'"
proof (cases signer)
  case (WithKeyChain n)
  then show ?thesis using key_signed_data [OF assms(3), of n d] by (auto simp: player_sign_data_def)
next
  case (WithMps s)
  let ?info = "signer_info s []"
  obtain m where "data_unsigned api (d\<lparr>d_sigInfo := Some ?info\<rparr>) = Inr m"
    using data_ranges_unsigned [OF assms(2), of "d\<lparr>d_sigInfo := Some ?info\<rparr>"] by auto
  then show ?thesis
    using WithMps by (simp add: player_sign_data_def sign_data_def sign_data_info_def getSignature_info_def
        getSignature_def signature_buffer_ok [OF assms(1)] signer_info_def bls_sig_info_def)
qed

lemma successCleanup_calls:
  assumes "bls_code_laws bls" and "packet_laws api" and "keychain_laws kc" and "record_ok api bls v M r"
    and "smap_find (io_records io) k = Some r" and "ir_hasSuccess r"
  obtains io' d i where "successCleanup api bls kc k io = (io', [OnSuccess (ir_callbacks r) d i, CancelTimeout k], None)"
proof -
  let ?u = "ir_unsignedData r"
  obtain n where n: "d_sigInfo ?u = Some (bls_sig_info n)" using assms(4) by (auto simp: record_ok_def)
  obtain m where m: "data_unsigned api ?u = Inr m" using data_ranges_unsigned [OF assms(2), of ?u] n by auto
  let ?list = "(new_data n)\<lparr>d_content := content_of api (signers_wireEncode api (map fst (ir_signaturePieces r))),
    d_freshness := d_freshness ?u\<rparr>"
  obtain i where i: "player_sign_data api bls kc (io_signer io) ?list = Inr i"
    using player_sign_total [OF assms(1-3)] by blast
  have kl: "key_locator_name (d_sigInfo ?u) = Inr n" by (simp add: n key_locator_name_def bls_sig_info_def)
  obtain d where d: "buildMultiSignature api bls ?u
      (replicate (length (ir_signaturePieces r)) (sig_zero bls) @ map snd (ir_signaturePieces r)) = Inr d"
    using m n by (auto simp: buildMultiSignature_def signature_buffer_ok [OF assms(1)])
  show ?thesis using assms(5,6) i kl d by (intro that) (auto simp: successCleanup_def)
qed

lemma good_piece:
  assumes "bls_laws bls skAdd" and "bls_code_laws bls" and "packet_laws api" and "keychain_laws kc"
    and "io_ok api bls M io" and "smap_find (io_records io) k = Some r" and "ir_hasSuccess r"
    and "smap_find (m_certs (io_verifier io)) n = Some (blsGetPublicKey bls sk)"
    and "ndnGenBLSSignature_data api bls sk (ir_unsignedData r) = Inr piece"
    and "blsSignatureDeserialize_code bls piece \<noteq> 0" and "tlv_invalid api = 2 ^ 32 - 1"
    and "tlv_get api es TLV_SignatureValue = Inr (Blk TLV_SignatureValue piece)"
    and "\<And>s. getMinSigners ops (ir_schema r)
      (success_piece (r\<lparr>ir_signaturePieces := smap_emplace n s (ir_signaturePieces r)\<rparr>)) \<noteq> []"
  obtains io' d i where "onPiece api bls kc ops k n r es io =
    (io', [OnSuccess (ir_callbacks r) d i, CancelTimeout k], None)"
proof -
  let ?u = "ir_unsignedData r" and ?s = "blsSignatureDeserialize bls (sig_uninit bls) piece"
  let ?r = "r\<lparr>ir_signaturePieces := smap_emplace n ?s (ir_signaturePieces r)\<rparr>"
  let ?io = "io\<lparr>io_records := smap_put k ?r (io_records io)\<rparr>"
  have rok: "record_ok api bls (io_verifier io) M r" by (rule io_ok_record [OF assms(5,6)])
  then obtain x where x: "d_sigInfo ?u = Some (bls_sig_info x)" by (auto simp: record_ok_def)
  obtain m where m: "data_unsigned api ?u = Inr m" using data_ranges_unsigned [OF assms(3), of ?u] x by auto
  have "?s = blsSign bls sk m"
    using assms(9) m x deserialize_serialize [OF assms(1)] by (auto simp: ndnGenBLSSignature_data_def split: if_splits)
  then have ver: "blsVerify bls ?s (blsGetPublicKey bls sk) m = 1" using verify_sign [OF assms(1)] by simp
  have piece: "verifySignaturePiece api bls ops (io_verifier io) ?u n (Blk TLV_SignatureValue piece) = Inr True"
    using x m ver assms(8,10) by (simp add: verifySignaturePiece_def expired_def bls_sig_info_def)
  have "record_ok api bls (io_verifier io) M ?r"
    using rok assms(8) m ver by (auto simp: record_ok_def smap_emplace_def smap_put_ok set_smap_put
        smap_erase_def split: option.split)
  moreover have "smap_find (io_records ?io) k = Some ?r" using assms(5) by (simp add: io_ok_def smap_find_put)
  ultimately obtain io' d i where "successCleanup api bls kc k ?io =
      (io', [OnSuccess (ir_callbacks ?r) d i, CancelTimeout k], None)"
    using successCleanup_calls [OF assms(2-4), of "io_verifier io" M ?r ?io k] assms(7) by auto
  then show ?thesis
    using piece assms(10-13) by (intro that) (simp add: onPiece_def blk_valid_def Let_def)
qed

lemma prepare_record_keeps [simp]:
  "ir_schema (prepare_record api prefix hex keys r) = ir_schema r"
  "ir_callbacks (prepare_record api prefix hex keys r) = ir_callbacks r"
  "ir_hasSuccess (prepare_record api prefix hex keys r) = ir_hasSuccess r"
  "ir_signaturePieces (prepare_record api prefix hex keys r) = ir_signaturePieces r"
  by (simp_all add: prepare_record_def Let_def)

text \<open>The record that \<^verbatim>\<open>multiPartySign\<close> leaves when the known signers can satisfy the schema.\<close>

lemma sign_makes_record:
  fixes io :: "('c::linorder, 'sk, 'pk, 's, 'sig) initiator_object"
  assumes "bls_code_laws bls" and "packet_laws api" and "keychain_laws kc" and "smap_ok (io_records io)"
    and "smap_find (io_records io) k = None"
    and "keys = filter (\<lambda>n. getKeyMatches ops s n \<noteq> []) (map fst (io_keyToPrefix io))" and "getMinSigners ops s keys \<noteq> []"
  obtains io' outs f wr where "player_multiPartySign api bls kc ops k hex s d cb hs hf io = (io', outs, f)"
    and "io_verifier io' = io_verifier io"
    and "smap_find (io_records io') k =
      Some ((prepare_record api (io_prefix io) hex keys (initiation_record_new s d cb hs hf))\<lparr>ir_wrapper := wr\<rparr>)"
proof -
  let ?fresh = "initiation_record_new s d cb hs hf :: ('c, 's, 'sig) initiation_record"
  let ?r = "prepare_record api (io_prefix io) hex keys ?fresh"
  obtain wr where wr: "player_sign_data api bls kc (io_signer io) (ir_wrapper ?r) = Inr wr"
    using player_sign_total [OF assms(1-3)] by blast
  have put: "smap_put k w (smap_emplace k ?fresh (io_records io)) = smap_put k w (io_records io)" for w
    using assms(5) by (simp add: smap_emplace_def smap_put_twice [OF assms(4)])
  have find: "the (smap_find (smap_emplace k ?fresh (io_records io)) k) = ?fresh"
    using assms(4,5) by (simp add: smap_emplace_def smap_find_put)
  let ?io = "io\<lparr>io_records := smap_put k (?r\<lparr>ir_wrapper := wr\<rparr>) (io_records io),
    io_wrapToId := smap_emplace (getFullName api wr) k (io_wrapToId io)\<rparr>"
  have "\<exists>outs f. player_multiPartySign api bls kc ops k hex s d cb hs hf io = (?io, outs, f)"
    using assms(6,7) wr by (auto simp: player_multiPartySign_def Let_def put find split: prod.split option.split)
  then show ?thesis using that assms(4) by (fastforce simp: smap_find_put)
qed

section \<open>One signer's round\<close>

lemma last_round:
  assumes "bls_laws bls skAdd" and "players_laws api" and "player_laws api bls kc ops" and "smap_ok (m_certs v)"
    and "\<forall>s. blsSignatureDeserialize_code bls (blsSignatureSerialize bls encodingBuf_size s) \<noteq> 0"
    and "exec player_enabled (player_handle api bls kc ops) (player_start v prefix signer) es w"
    and "smap_find (io_records (pw_object w)) k = Some r" and "ir_hasSuccess r"
    and "smap_find (m_certs (io_verifier (pw_object w))) (so_keyName so) = Some (blsGetPublicKey bls (so_sk so))"
    and "accepted (so_dataVerifyCallback so) (ir_unsignedData r)" and "smap_ok (so_results so)"
    and "rid < 2 ^ 64" and "i_name i = result_name api (so_prefix so) rid"
    and "\<forall>s. getMinSigners ops (ir_schema r)
      (success_piece (r\<lparr>ir_signaturePieces := smap_emplace (so_keyName so) s (ir_signaturePieces r)\<rparr>)) \<noteq> []"
  shows "\<exists>so1 so2 reply d info.
    signer_onFetched api bls partial rid (Fetched (ir_wrapper r)) so = (so1, None) \<and>
    signer_onResultFetch api bls i so1 = (so2, [Put reply], None) \<and>
    pw_effects (player_handle api bls kc ops w (ReplyData k (so_keyName so) reply)) =
      pw_effects w @ [OnSuccess (ir_callbacks r) d info, CancelTimeout k]"
proof -
  have laws: "bls_code_laws bls" "tlv_laws api" "packet_laws api" "keychain_laws kc"
    using assms(3) by (simp_all add: player_laws_def)
  let ?u = "ir_unsignedData r" and ?M = "set_mset (pw_started w)"
  have io: "io_ok api bls ?M (pw_object w)"
    using player_exec_ok [OF assms(3,4,6)] by (simp add: player_world_ok_def)
  have rok: "record_ok api bls (io_verifier (pw_object w)) ?M r" by (rule io_ok_record [OF io assms(7)])
  then have u: "d_sigInfo ?u \<noteq> None"
    and wrap: "d_content (ir_wrapper r) = content_of api (nested_block api TLV_Content (data_wire api ?u))"
    by (auto simp: record_ok_def)
  obtain piece q where gen: "ndnGenBLSSignature_data api bls (so_sk so) ?u = Inr piece"
    and fetched: "signer_onFetched api bls partial rid (Fetched (ir_wrapper r)) so =
      (so\<lparr>so_results := smap_put rid q (so_results so)\<rparr>, None)"
    and q: "ri_code q = OK" "ri_signatureValue q = piece"
    using fetched_wrapper [OF laws(2,3) u assms(10) wrap assms(11)] by metis
  let ?so1 = "so\<lparr>so_results := smap_put rid q (so_results so)\<rparr>"
  have stored: "smap_find (so_results ?so1) rid = Some q" using assms(11) by (simp add: smap_find_put)
  have name: "i_name i = result_name api (so_prefix ?so1) rid" by (simp add: assms(13))
  obtain so2 reply es' b where told: "signer_onResultFetch api bls i ?so1 = (so2, [Put reply], None)"
    "block_parse api (d_content reply) = Inr es'" "tlv_get api es' tlv_Status = Inr b" "blk_valid api b"
    "read_string api b = ''200''" "tlv_get api es' TLV_SignatureValue = Inr (Blk TLV_SignatureValue piece)"
    by (rule told_piece [OF assms(1) laws(2,3) assms(2,12) name stored q(1), unfolded q(2)])
  have code: "blsSignatureDeserialize_code bls piece \<noteq> 0"
    using gen assms(5) by (auto simp: ndnGenBLSSignature_data_def res_bind_Inr_iff split: if_splits)
  obtain io' d info where last: "onPiece api bls kc ops k (so_keyName so) r es' (pw_object w) =
      (io', [OnSuccess (ir_callbacks r) d info, CancelTimeout k], None)"
    using good_piece [OF assms(1) laws(1,3,4) io assms(7-9) gen code tlv_invalid_eq [OF laws(2)] told(6), of ops]
      assms(14) by metis
  have "stoi ''200'' = Inr 200" by code_simp
  then have "player_onData api bls kc ops k (so_keyName so) reply (pw_object w) =
      (io', [OnSuccess (ir_callbacks r) d info, CancelTimeout k], None)"
    using last told(2-5) assms(7) by (simp add: player_onData_def)
  with fetched told(1) show ?thesis by (simp add: player_record_def)
qed

text \<open>
  C15: the last round of a run. In every reachable world of the initiator, when a signer whose key the
  initiator knows fetches the wrapper of a record and accepts the packet in it, then it makes its
  piece, answers the Interest for the result with it, and this answer makes the initiator call the
  success callback of the record and nothing else, provided the schema is content with this
  signer's piece added to those that are there. Signatures in the buffer size of the library
  (\<open>encodingBuf_size\<close>) must be readable by the prototype.
\<close>

theorem prototype_round_completes:
  assumes "bls_laws bls skAdd" and "players_laws api" and "player_laws api bls kc ops" and "smap_ok (m_certs v)"
    and "\<forall>s. blsSignatureDeserialize_code bls (blsSignatureSerialize bls encodingBuf_size s) \<noteq> 0"
    and "exec player_enabled (player_handle api bls kc ops) (player_start v prefix signer) es w"
    and "smap_find (io_records (pw_object w)) k = Some r" and "ir_hasSuccess r"
    and "smap_find (m_certs (io_verifier (pw_object w))) (so_keyName so) = Some (blsGetPublicKey bls (so_sk so))"
    and "accepted (so_dataVerifyCallback so) (ir_unsignedData r)" and "smap_ok (so_results so)"
    and "rid < 2 ^ 64" and "i_name i = result_name api (so_prefix so) rid"
    and "\<forall>s. getMinSigners ops (ir_schema r)
      (success_piece (r\<lparr>ir_signaturePieces := smap_emplace (so_keyName so) s (ir_signaturePieces r)\<rparr>)) \<noteq> []"
  shows "\<exists>so1 so2 reply d info.
    signer_onFetched api bls partial rid (Fetched (ir_wrapper r)) so = (so1, None) \<and>
    signer_onResultFetch api bls i so1 = (so2, [Put reply], None) \<and>
    pw_effects (player_handle api bls kc ops w (ReplyData k (so_keyName so) reply)) =
      pw_effects w @ [OnSuccess (ir_callbacks r) d info, CancelTimeout k]"
  by (rule last_round [OF assms])

end
