(* ===== verification/Players_Witnesses.thy ===== *)
theory Players_Witnesses
  imports Run_Witnesses Players_Run
begin

text \<open>
  Concrete inputs for the properties of the prototype in \<^verbatim>\<open>temp/\<close>: a signature scheme
  with result codes and a neutral signature, the functions of ndn-cxx that only the prototype
  calls, and schema functions built on the schemas of the library.
\<close>

section \<open>The libraries\<close>

text \<open>The sum of two signatures is that of their keys; the neutral signature is \<open>(0, [])\<close>.\<close>

definition demo_add :: "nat \<times> bytes \<Rightarrow> nat \<times> bytes \<Rightarrow> nat \<times> bytes" where
  "demo_add s t = (if s = (0, []) then t else if t = (0, []) then s
     else (fst s + fst t, if snd s = snd t then snd s else []))"

abbreviation "enc_sig \<equiv> enc_pair enc_nat enc_bytes"
abbreviation "dec_sig \<equiv> dec_pair dec_nat dec_bytes"

definition demo_codes :: "(nat, nat, nat \<times> bytes) bls_codes" where
  "demo_codes = \<lparr>blsInit = 0, blsGetPublicKey = (\<lambda>k. k), blsSign = (\<lambda>k m. (k, m)),
     blsVerify = (\<lambda>s pk m. if s = (pk, m) then 1 else 0),
     blsPublicKeyAdd = (+), blsSignatureAdd = demo_add,
     blsSignatureSerialize = (\<lambda>_. enc_sig),
     blsSignatureDeserialize = (\<lambda>old bs. case run_decoder dec_sig bs of Inr s \<Rightarrow> s | Inl _ \<Rightarrow> old),
     blsPublicKeySerialize = (\<lambda>_. enc_nat), sig_uninit = (0, []), pk_uninit = 0,
     blsSignatureDeserialize_code = (\<lambda>bs. case run_decoder dec_sig bs of Inr s \<Rightarrow> length bs | Inl _ \<Rightarrow> 0),
     blsPublicKeyDeserialize = (\<lambda>old bs. case run_decoder dec_nat bs of Inr k \<Rightarrow> (k, length bs) | Inl _ \<Rightarrow> (old, 0)),
     blsSecretKeyDeserialize = (\<lambda>bs. case run_decoder dec_nat bs of Inr k \<Rightarrow> (k, length bs) | Inl _ \<Rightarrow> (0, 0)),
     blsGetSerializedSignatureByteSize = 96, blsGetSerializedPublicKeyByteSize = 48,
     blsAggregateSignature = foldl demo_add (0, []), sig_zero = (0, [])\<rparr>"

lemma enc_nat_ne [simp]: "enc_nat n \<noteq> []"
  by (simp add: enc_nat.simps [of n])

lemma enc_sig_ne [simp]: "enc_sig s \<noteq> []"
  by (simp add: enc_pair_def)

lemma read_sig [simp]: "run_decoder dec_sig (enc_sig s) = Inr s"
  by (rule run_decoder_enc [OF codes_pair [OF codes_nat codes_bytes]])

lemma read_nat [simp]: "run_decoder dec_nat (enc_nat n) = Inr n"
  by (rule run_decoder_enc [OF codes_nat])

lemma bls_laws_codes: "bls_laws demo_codes (+)"
  by (simp add: bls_laws_def demo_codes_def demo_add_def)

lemma bls_code_laws_codes: "bls_code_laws demo_codes"
  by (simp add: bls_code_laws_def demo_codes_def demo_add_def)

lemma bls_sum_law_codes: "bls_sum_law demo_codes"
  by (simp add: bls_sum_law_def demo_codes_def demo_add_def)

definition comp_value :: "gcomp \<Rightarrow> nat res" where
  "comp_value c = (case leading_digits None (gc_text c) of Some n \<Rightarrow> Inr n | None \<Rightarrow> Inl (Throws ''not a number''))"

definition demo_players :: "gcomp players_api" where
  "demo_players = packet_api.extend demo (players_api.fields (\<lambda>c. gc_type c = 1) (\<lambda>c. gc_type c = 2)
     (\<lambda>c. gc_type c = 54) comp_value comp_value (\<lambda>d. d_name d @ [GComp 1 ''digest'']) (\<lambda>n. 4 \<le> length n))"

lemma demo_players_fields [simp]:
  "comp_of_string demo_players = GComp 8" "comp_of_number demo_players = (\<lambda>n. GComp 8 (digits_of n))"
  "comp_of_version demo_players = (\<lambda>n. GComp 54 (digits_of n))"
  "tlv_invalid demo_players = tlv_invalid demo" "isVersion demo_players = (\<lambda>c. gc_type c = 54)"
  "getFullName demo_players = (\<lambda>d. d_name d @ [GComp 1 ''digest''])"
  "isValidName demo_players = (\<lambda>n. 4 \<le> length n)"
  by (simp_all add: demo_players_def packet_api.defs players_api.defs) (simp_all add: demo_def)

lemma tlv_laws_players: "tlv_laws demo_players"
  using tlv_laws_demo by (simp add: tlv_laws_def demo_players_def packet_api.defs players_api.defs)

lemma packet_laws_players: "packet_laws demo_players"
  using packet_laws_demo
  by (simp add: packet_laws_def demo_players_def packet_api.defs players_api.defs block_with_def)

lemma players_laws_demo: "players_laws demo_players"
  by (simp add: players_laws_def demo_players_def packet_api.defs players_api.defs comp_value_def leading_digits_of)

definition demo_ops :: "(gcomp, gcomp schema) schema_ops" where
  "demo_ops = \<lparr>isSatisfied = passSchema demo,
     getKeyMatches = (\<lambda>s n. map m_name (filter (\<lambda>p. wc_match demo p n) (m_signers s @ m_optionalSigners s))),
     getMinSigners = (\<lambda>s ns. if passSchema demo s ns then ns else []),
     schema_of_signer = (\<lambda>n. \<lparr>m_pktName = \<lparr>m_name = [], m_times = 1\<rparr>, m_ruleId = [],
       m_signers = [\<lparr>m_name = n, m_times = 1\<rparr>], m_optionalSigners = [], m_minOptionalSigners = 0\<rparr>),
     validity_isValid = (\<lambda>(s, t). s \<le> 5 \<and> 5 \<le> t)\<rparr>"

lemmas schema_eval = demo_ops_def passSchema_iff required_met_def optional_total_def demo_schema_def count_if_def

abbreviation "two_names \<equiv> [key ''a'' ''1'', key ''a'' ''2'']"
abbreviation "two_schema \<equiv> demo_schema\<lparr>m_signers := [pat ''a'' 2], m_optionalSigners := [], m_minOptionalSigners := 0\<rparr>"

section \<open>Signing and verifying\<close>

definition two_signers :: "(gcomp, nat, nat) mps_signer list" where
  "two_signers = [\<lparr>ms_signerName = key ''a'' ''1'', ms_sk = 1, ms_pk = 1\<rparr>, \<lparr>ms_signerName = key ''a'' ''2'', ms_sk = 2, ms_pk = 2\<rparr>]"

definition two_verifier :: "(gcomp, nat) mps_verifier" where
  "two_verifier = \<lparr>m_certs = [(key ''a'' ''1'', 1), (key ''a'' ''2'', 2)], m_signLists = [(key ''i'' ''1'', two_names)], m_aggregateKey = []\<rparr>"

abbreviation "list_packet \<equiv> (new_data (key ''data'' ''7''))\<lparr>d_sigInfo := Some (bls_sig_info (key ''i'' ''1''))\<rparr>"

theorem mps_multi_signature_verifies_witness:
  "\<exists>pieces d. length pieces = 2 \<and>
    buildMultiSignature demo demo_codes list_packet
      (map (\<lambda>b. blsSignatureDeserialize demo_codes (sig_uninit demo_codes) (blk_value b)) pieces) = Inr d \<and>
    verifySignature demo demo_codes demo_ops two_verifier d two_schema = Inr True"
proof -
  have "\<exists>pieces d'. list_all2 (\<lambda>s piece. getSignature demo demo_codes s list_packet = Inr piece \<and>
        verifySignaturePiece demo demo_codes demo_ops two_verifier list_packet (ms_signerName s) piece = Inr True) two_signers pieces \<and>
      buildMultiSignature demo demo_codes list_packet
        (map (\<lambda>b. blsSignatureDeserialize demo_codes (sig_uninit demo_codes) (blk_value b)) pieces) = Inr d' \<and>
      verifySignature demo demo_codes demo_ops two_verifier d' two_schema = Inr True"
    by (rule mps_multi_signature_verifies [OF bls_laws_codes bls_code_laws_codes packet_laws_demo, where n = "key ''i'' ''1''"
          and info = "bls_sig_info (key ''i'' ''1'')"])
      (simp_all add: bls_sig_info_def expired_def two_verifier_def two_signers_def smap_find_def demo_codes_def schema_eval)
  then obtain pieces d' where p: "list_all2 (\<lambda>s piece. getSignature demo demo_codes s list_packet = Inr piece \<and>
        verifySignaturePiece demo demo_codes demo_ops two_verifier list_packet (ms_signerName s) piece = Inr True) two_signers pieces"
    "buildMultiSignature demo demo_codes list_packet
        (map (\<lambda>b. blsSignatureDeserialize demo_codes (sig_uninit demo_codes) (blk_value b)) pieces) = Inr d'"
    "verifySignature demo demo_codes demo_ops two_verifier d' two_schema = Inr True"
    by blast
  moreover have "length pieces = 2" using list_all2_lengthD [OF p(1)] by (simp add: two_signers_def)
  ultimately show ?thesis by blast
qed

theorem self_cert_verifies_witness:
  "\<exists>cert. getSelfSignCert demo demo_codes \<lparr>ms_signerName = key ''s'' ''1'', ms_sk = 3, ms_pk = 3\<rparr> 77 (1, 9) = Inr cert \<and>
    verifySignature_cert demo demo_codes demo_ops False cert cert = Inr True"
proof -
  have "isSatisfied demo_ops (schema_of_signer demo_ops (key ''s'' ''1'')) [key ''s'' ''1'']"
    using wc_match_self [of demo "key ''s'' ''1''"] by (simp add: schema_eval WildCardName_of_name_def)
  then show ?thesis
    using self_cert_verifies [OF bls_laws_codes bls_code_laws_codes packet_laws_demo, of False
        "\<lparr>ms_signerName = key ''s'' ''1'', ms_sk = 3, ms_pk = 3\<rparr>" demo_ops 77 "(1, 9)"]
    by (auto simp: demo_codes_def demo_ops_def)
qed

theorem prototype_verifies_alike_witness:
  "\<exists>d sid. verify demo demo_codes (demo_container\<lparr>m_schemas := [two_schema]\<rparr>) d sid = Inr True \<and>
    verifySignature demo demo_codes demo_ops two_verifier d two_schema = Inr True"
proof -
  let ?c = "demo_container\<lparr>m_schemas := [two_schema]\<rparr>"
  obtain d sid where d: "d_name d = key ''data'' ''7''" "signed_by demo demo_codes (+) [1, 2] d" "info_for demo d two_names sid"
    "d_sigInfo d = Some (bls_sig_info (key ''i'' ''1''))" "d_name sid = key ''i'' ''1''"
    by (rule demo_pair [where sks = "[1, 2]" and signers = two_names and bls = demo_codes]) simp_all
  have policy: "container_passSchema demo ?c (d_name d) two_names"
    by (simp add: d(1) container_passSchema_def schema_match_def trusted_key_def passSchema_iff required_met_def
        demo_schema_def demo_container_def)
  have verified: "verify demo demo_codes ?c d sid = Inr True"
    by (rule verify_signed [OF bls_laws_codes tlv_laws_demo packet_laws_demo d(2,3) _ policy])
      (simp add: trusted_key_def demo_container_def demo_codes_def)
  obtain s where "d_sigValue d = enc_sig s"
    using d(2) by (auto simp: signed_by_def demo_codes_def split: sum.splits)
  then have code: "blsSignatureDeserialize_code demo_codes (d_sigValue d) \<noteq> 0" by (simp add: demo_codes_def)
  have "verifySignature demo demo_codes demo_ops two_verifier d two_schema = verify demo demo_codes ?c d sid"
    by (rule prototype_verifies_alike [OF bls_code_laws_codes d(4) _ _ code, where n = "key ''i'' ''1''" and l = two_names
          and es = "[signers_wireEncode demo two_names]" and b = "signers_wireEncode demo two_names"])
      (use d(5) policy in \<open>simp_all add: bls_sig_info_def expired_def two_verifier_def smap_find_def trusted_key_def
        demo_container_def schema_eval
        signers_codec.round [OF tlv_laws_demo TrueI] info_for_parse [OF tlv_laws_demo packet_laws_demo d(3)]\<close>)
  with verified show ?thesis by metis
qed

section \<open>The signer\<close>

definition demo_so :: "ReplyCode \<Rightarrow> (gcomp, nat, nat) signer_object" where
  "demo_so code = \<lparr>so_dataVerifyCallback = None, so_interestVerifyCallback = None,
     so_results = [(9, \<lparr>ri_code = code, ri_signatureValue = [7], ri_version = 0\<rparr>)], so_sk = 1, so_pk = 1,
     so_keyName = key ''s'' ''1'', so_prefix = [GComp 8 ''s'']\<rparr>"

abbreviation "fetch_nine \<equiv> new_interest (result_name demo_players [GComp 8 ''s''] 9)"

theorem prototype_result_once_witness:
  "\<exists>so d. signer_onResultFetch demo_players demo_codes fetch_nine (demo_so OK) = (so, [Put d], None) \<and>
    signer_onResultFetch demo_players demo_codes fetch_nine so = (so, [], None)"
proof -
  have "smap_find (so_results (demo_so OK)) 9 = Some \<lparr>ri_code = OK, ri_signatureValue = [7], ri_version = 0\<rparr>"
    "i_name fetch_nine = result_name demo_players (so_prefix (demo_so OK)) 9" "(9 :: nat) < 2 ^ 64"
    by (simp_all add: demo_so_def smap_find_def new_interest_def)
  from prototype_result_once [OF bls_laws_codes tlv_laws_players packet_laws_players players_laws_demo this(3,2,1)]
  show ?thesis by auto
qed

theorem prototype_slow_signer_lost_witness:
  "\<exists>so d. signer_onResultFetch demo_players demo_codes fetch_nine (demo_so Processing) = (so, [Put d], None) \<and>
    (\<exists>n. is_prefix_of (i_name fetch_nine) n \<and>
      signer_onResultFetch demo_players demo_codes (new_interest n) (demo_so OK) = (demo_so OK, [], None))"
proof -
  have "smap_find (so_results (demo_so Processing)) 9 = Some \<lparr>ri_code = Processing, ri_signatureValue = [7], ri_version = 0\<rparr>"
    "i_name fetch_nine = result_name demo_players (so_prefix (demo_so Processing)) 9" "(9 :: nat) < 2 ^ 64"
    "so_prefix (demo_so OK) = so_prefix (demo_so Processing)" "\<And>n. i_name (new_interest n) = n @ []"
    by (simp_all add: demo_so_def smap_find_def new_interest_def)
  with prototype_slow_signer_lost [OF bls_laws_codes tlv_laws_players packet_laws_players players_laws_demo this(3,2,1)]
  show ?thesis by (metis request_instance.select_convs(1))
qed

section \<open>The verifier\<close>

definition demo_certs :: "(gcomp name \<times> nat) list \<Rightarrow> (gcomp, nat) mps_verifier" where
  "demo_certs certs = \<lparr>m_certs = certs, m_signLists = [], m_aggregateKey = []\<rparr>"

abbreviation "demo_verifier_exec \<equiv> exec (\<lambda>_ _. True) (verifier_handle demo_players demo_codes demo_ops)"

text \<open>The info packet with a list of signers.\<close>

definition list_reply :: "gcomp name list \<Rightarrow> gcomp data" where
  "list_reply l = (new_data (key ''i'' ''1''))\<lparr>d_content := content_of demo_players (signers_wireEncode demo_players l)\<rparr>"

lemma list_reply_parts:
  "block_parse demo_players (d_content (list_reply l)) = Inr [signers_wireEncode demo_players l]"
  "tlv_get demo_players [signers_wireEncode demo_players l] tlv_MpsSignerList = Inr (signers_wireEncode demo_players l)"
  "blk_valid demo_players (signers_wireEncode demo_players l)"
  "signers_wireDecode demo_players (signers_wireEncode demo_players l) = Inr l"
proof -
  have i: "info_for demo_players list_packet l (list_reply l)"
    by (simp add: info_for_def list_reply_def key_locator_name_def bls_sig_info_def new_data_def)
  show "block_parse demo_players (d_content (list_reply l)) = Inr [signers_wireEncode demo_players l]"
    "tlv_get demo_players [signers_wireEncode demo_players l] tlv_MpsSignerList = Inr (signers_wireEncode demo_players l)"
    "blk_valid demo_players (signers_wireEncode demo_players l)"
    by (rule info_for_parse [OF tlv_laws_players packet_laws_players i])+
  show "signers_wireDecode demo_players (signers_wireEncode demo_players l) = Inr l"
    by (rule signers_codec.round [OF tlv_laws_players TrueI])
qed

lemma list_packet_locator: "locator_name list_packet = Some (key ''i'' ''1'')"
  "locator_name (list_packet\<lparr>d_sigValue := x\<rparr>) = Some (key ''i'' ''1'')"
  by (simp_all add: locator_name_def bls_sig_info_def)

text \<open>The packet signed with the keys 1 and 2.\<close>

lemma signed_list_packet:
  obtains x where "verifySignature demo_players demo_codes demo_ops two_verifier (list_packet\<lparr>d_sigValue := x\<rparr>) two_schema = Inr True"
proof -
  obtain m where m: "data_unsigned demo_players list_packet = Inr m"
    using data_ranges_unsigned [OF packet_laws_players, of list_packet] by auto
  let ?d = "list_packet\<lparr>d_sigValue := enc_sig (3, m)\<rparr>"
  obtain rs where rs: "data_ranges demo_players ?d = Inr rs" "concat rs = m"
    using ranges_of_unsigned [OF packet_laws_players _ m] by auto
  have i: "d_sigInfo ?d = Some (bls_sig_info (key ''i'' ''1''))" "\<not> expired demo_ops (bls_sig_info (key ''i'' ''1''))"
    "si_keyLocator (bls_sig_info (key ''i'' ''1'')) = KL_Name (key ''i'' ''1'')"
    "smap_find (m_signLists two_verifier) (key ''i'' ''1'') = Some two_names"
    "smap_find (m_aggregateKey two_verifier) (key ''i'' ''1'') = None"
    by (simp_all add: bls_sig_info_def expired_def two_verifier_def smap_find_def)
  show ?thesis
    by (rule that [of "enc_sig (3, m)"], unfold verifySignature_list [OF i]) (use rs in
      \<open>simp add: schema_eval smap_find_def check_value_def demo_codes_def two_verifier_def\<close>)
qed

theorem prototype_verifier_reports_witness:
  "\<exists>w. demo_verifier_exec (verifier_start (Verifier_new two_verifier False)) [Start 5 list_packet two_schema 3] w \<and>
    mset (callbacks (vw_effects w)) \<subseteq># {# 3 #}"
proof -
  let ?s = "verifier_start (Verifier_new two_verifier False)" and ?e = "Start 5 list_packet two_schema 3"
  let ?w = "verifier_handle demo_players demo_codes demo_ops ?s ?e"
  have E: "demo_verifier_exec ?s [?e] ?w" by (simp del: verifier_handle.simps)
  have "vw_started ?w = {# (3, list_packet, two_schema) #}"
    by (simp add: verifier_start_def record_result_def split: prod.split)
  with conjunct1 [OF prototype_verifier_reports [OF E]] E show ?thesis by (auto simp del: verifier_handle.simps)
qed

theorem prototype_unknown_signer_hangs_witness:
  "\<exists>w. demo_verifier_exec (verifier_start (Verifier_new (demo_certs [(key ''a'' ''1'', 1)]) False))
      [Start 5 list_packet two_schema 3, Reply (key ''i'' ''1'') (list_reply two_names) (\<lambda>_. 8), NoReply (key ''i'' ''1'')] w \<and>
    callbacks (vw_effects w) = []"
proof -
  let ?s = "verifier_start (Verifier_new (demo_certs [(key ''a'' ''1'', 1)]) False)"
  let ?es = "[Start 5 list_packet two_schema 3, Reply (key ''i'' ''1'') (list_reply two_names) (\<lambda>_. 8), NoReply (key ''i'' ''1'')]"
  obtain w where E: "demo_verifier_exec ?s ?es w" by (simp del: verifier_handle.simps)
  have "callbacks (vw_effects w) = []"
    using prototype_unknown_signer_hangs [OF list_packet_locator(1) _ _ list_reply_parts [of two_names] _ _ _ _ _ E, of "key ''a'' ''2''"]
    by (simp add: demo_certs_def smap_find_def smap_ok_def)
  with E show ?thesis by blast
qed

theorem prototype_known_signers_answer_witness:
  "\<exists>w d. demo_verifier_exec (verifier_start (Verifier_new (demo_certs [(key ''a'' ''1'', 1), (key ''a'' ''2'', 2)]) False))
      [Start 5 d two_schema 3, Reply (key ''i'' ''1'') (list_reply two_names) (\<lambda>_. 8), NoReply (key ''i'' ''1'')] w \<and>
    Callback 3 True \<in> set (vw_effects w) \<and> vo_queue (vw_object w) = []"
proof -
  let ?v = "demo_certs [(key ''a'' ''1'', 1), (key ''a'' ''2'', 2)]"
  obtain x where x: "verifySignature demo_players demo_codes demo_ops (addSignerList (key ''i'' ''1'') two_names ?v)
      (list_packet\<lparr>d_sigValue := x\<rparr>) two_schema = Inr True"
    by (rule signed_list_packet) (simp add: addSignerList_def demo_certs_def smap_emplace_def smap_find_def two_verifier_def)
  let ?s = "verifier_start (Verifier_new ?v False)"
  let ?es = "[Start 5 (list_packet\<lparr>d_sigValue := x\<rparr>) two_schema 3, Reply (key ''i'' ''1'') (list_reply two_names) (\<lambda>_. 8),
    NoReply (key ''i'' ''1'')]"
  obtain w where E: "demo_verifier_exec ?s ?es w" by (simp del: verifier_handle.simps)
  have "Callback 3 True \<in> set (vw_effects w) \<and> vo_queue (vw_object w) = []"
    using prototype_known_signers_answer [OF list_packet_locator(2) _ _ list_reply_parts [of two_names] _ _ _ _ x E]
    by (simp add: demo_certs_def smap_find_def smap_ok_def)
  with E show ?thesis by blast
qed

section \<open>The initiator\<close>

abbreviation "demo_player_exec \<equiv> exec player_enabled (player_handle demo_players demo_codes demo_keychain demo_ops)"

abbreviation "player_zero \<equiv> player_start (demo_certs []) [GComp 8 ''i''] (WithKeyChain (key ''i'' ''k'')) ::
  (gcomp, nat, nat, gcomp schema, nat \<times> bytes) player_world"

lemma player_laws_demo: "player_laws demo_players demo_codes demo_keychain demo_ops"
  using bls_code_laws_codes bls_sum_law_codes tlv_laws_players packet_laws_players keychain_laws_demo
  by (simp add: player_laws_def demo_ops_def)

text \<open>A run up to the requests: one signer is known, and one signature is asked for.\<close>

lemma demo_player_run:
  obtains w r where "demo_player_exec player_zero
      [AddSigner (key ''a'' ''1'') 1 [GComp 8 ''a''], Sign 5 ''77'' one_schema (new_data (key ''data'' ''7'')) 3 True True] w"
    and "smap_find (io_records (pw_object w)) 5 = Some r" and "ir_hasSuccess r" and "ir_schema r = one_schema"
    and "ir_signaturePieces r = []" and "ir_callbacks r = 3"
    and "smap_find (m_certs (io_verifier (pw_object w))) (key ''a'' ''1'') = Some 1"
    and "pw_started w = {# (3, one_schema, new_data (key ''data'' ''7'')) #}"
proof -
  let ?e1 = "AddSigner (key ''a'' ''1'') 1 [GComp 8 ''a'']" and ?e2 = "Sign 5 ''77'' one_schema (new_data (key ''data'' ''7'')) 3 True True"
  let ?w1 = "player_handle demo_players demo_codes demo_keychain demo_ops player_zero ?e1"
  let ?w = "player_handle demo_players demo_codes demo_keychain demo_ops ?w1 ?e2"
  have w1: "io_records (pw_object ?w1) = []" "m_certs (io_verifier (pw_object ?w1)) = [(key ''a'' ''1'', 1)]"
    "io_keyToPrefix (pw_object ?w1) = [(key ''a'' ''1'', [GComp 8 ''a''])]" "pw_started ?w1 = {#}"
    by (simp_all add: player_start_def Initiator_new_def player_record_def addSigner_key_def Players_Initiator.addSigner_def
      demo_certs_def smap_find_def addCert_def smap_emplace_def)
  let ?keys = "filter (\<lambda>n. getKeyMatches demo_ops one_schema n \<noteq> []) (map fst (io_keyToPrefix (pw_object ?w1)))"
  have keys: "getMinSigners demo_ops one_schema ?keys \<noteq> []" by (simp only: w1) (simp add: schema_eval)
  obtain io outs f wr where s: "player_multiPartySign demo_players demo_codes demo_keychain demo_ops 5 ''77'' one_schema
      (new_data (key ''data'' ''7'')) 3 True True (pw_object ?w1) = (io, outs, f)" "io_verifier io = io_verifier (pw_object ?w1)"
    "smap_find (io_records io) 5 = Some ((prepare_record demo_players (io_prefix (pw_object ?w1)) ''77'' ?keys
      (initiation_record_new one_schema (new_data (key ''data'' ''7'')) 3 True True))\<lparr>ir_wrapper := wr\<rparr>)"
    by (rule sign_makes_record [OF bls_code_laws_codes packet_laws_players keychain_laws_demo _ _ refl keys])
      (simp_all only: w1, simp_all add: smap_ok_def smap_find_def)
  have w: "pw_object ?w = io" "pw_started ?w = {# (3, one_schema, new_data (key ''data'' ''7'')) #}"
    using s(1) w1(4) by (simp_all add: player_record_def del: player_handle.simps(2))
  have E: "demo_player_exec player_zero [?e1, ?e2] ?w" using w1(1) by (simp add: smap_find_def del: player_handle.simps)
  have certs: "smap_find (m_certs (io_verifier (pw_object ?w))) (key ''a'' ''1'') = Some 1"
    unfolding w(1) s(2) w1(2) by (simp add: smap_find_def)
  show ?thesis
    by (rule that [OF E s(3) [folded w(1)] _ _ _ _ certs w(2)]) (simp_all add: initiation_record_new_def)
qed

text \<open>The signer of this run, and what the last round needs.\<close>

definition willing_so :: "(gcomp, nat, nat) signer_object" where
  "willing_so = \<lparr>so_dataVerifyCallback = Some (\<lambda>_. True), so_interestVerifyCallback = None, so_results = [],
     so_sk = 1, so_pk = 1, so_keyName = key ''a'' ''1'', so_prefix = [GComp 8 ''a'']\<rparr>"

abbreviation "fetch_willing \<equiv> new_interest (result_name demo_players [GComp 8 ''a''] 9)"

lemma demo_codes_readable:
  "\<forall>s. blsSignatureDeserialize_code demo_codes (blsSignatureSerialize demo_codes encodingBuf_size s) \<noteq> 0"
  by (simp add: demo_codes_def)

lemma one_piece_enough:
  assumes "ir_schema r = one_schema" and "ir_signaturePieces r = []"
  shows "\<forall>s. getMinSigners demo_ops (ir_schema r)
    (success_piece (r\<lparr>ir_signaturePieces := smap_emplace (key ''a'' ''1'') s (ir_signaturePieces r)\<rparr>)) \<noteq> []"
  using assms by (simp add: success_piece_def smap_emplace_def smap_find_def schema_eval)

lemmas willing = willing_so_def accepted_def smap_ok_def demo_codes_def new_interest_def

theorem prototype_round_completes_witness:
  "\<exists>es w reply d info. demo_player_exec player_zero es w \<and>
    pw_effects (player_handle demo_players demo_codes demo_keychain demo_ops w (ReplyData 5 (key ''a'' ''1'') reply)) =
      pw_effects w @ [OnSuccess 3 d info, CancelTimeout 5]"
proof -
  obtain w r where w: "demo_player_exec player_zero
      [AddSigner (key ''a'' ''1'') 1 [GComp 8 ''a''], Sign 5 ''77'' one_schema (new_data (key ''data'' ''7'')) 3 True True] w"
    "smap_find (io_records (pw_object w)) 5 = Some r" "ir_hasSuccess r" "ir_schema r = one_schema"
    "ir_signaturePieces r = []" "ir_callbacks r = 3"
    "smap_find (m_certs (io_verifier (pw_object w))) (key ''a'' ''1'') = Some 1"
    by (rule demo_player_run)
  have so: "so_keyName willing_so = key ''a'' ''1''" "blsGetPublicKey demo_codes (so_sk willing_so) = 1"
    "accepted (so_dataVerifyCallback willing_so) (ir_unsignedData r)" "smap_ok (so_results willing_so)" "(9 :: nat) < 2 ^ 64"
    "i_name fetch_willing = result_name demo_players (so_prefix willing_so) 9" "smap_ok (m_certs (demo_certs []))"
    by (simp_all add: willing demo_certs_def)
  from prototype_round_completes [OF bls_laws_codes players_laws_demo player_laws_demo so(7) demo_codes_readable w(1-3)
      _ so(3-6), unfolded so(1,2), OF w(7) one_piece_enough [OF w(4,5)], unfolded w(6)] w(1)
  show ?thesis by blast
qed

theorem prototype_initiator_reports_witness:
  "\<exists>es w d info. demo_player_exec player_zero es w \<and> OnSuccess 3 d info \<in> set (pw_effects w) \<and>
    mset (outcomes (pw_effects w)) \<subseteq># {# 3 #} \<and>
    (\<exists>k. check_value demo_codes (d_sigValue d) (data_ranges demo_players d) k = Inr True)"
proof -
  obtain w r where w: "demo_player_exec player_zero
      [AddSigner (key ''a'' ''1'') 1 [GComp 8 ''a''], Sign 5 ''77'' one_schema (new_data (key ''data'' ''7'')) 3 True True] w"
    "smap_find (io_records (pw_object w)) 5 = Some r" "ir_hasSuccess r" "ir_schema r = one_schema"
    "ir_signaturePieces r = []" "ir_callbacks r = 3"
    "smap_find (m_certs (io_verifier (pw_object w))) (key ''a'' ''1'') = Some 1"
    "pw_started w = {# (3, one_schema, new_data (key ''data'' ''7'')) #}"
    by (rule demo_player_run)
  have so: "so_keyName willing_so = key ''a'' ''1''" "blsGetPublicKey demo_codes (so_sk willing_so) = 1"
    "accepted (so_dataVerifyCallback willing_so) (ir_unsignedData r)" "smap_ok (so_results willing_so)" "(9 :: nat) < 2 ^ 64"
    "i_name fetch_willing = result_name demo_players (so_prefix willing_so) 9" "smap_ok (m_certs (demo_certs []))"
    by (simp_all add: willing demo_certs_def)
  obtain reply d info where last: "pw_effects (player_handle demo_players demo_codes demo_keychain demo_ops w
      (ReplyData 5 (key ''a'' ''1'') reply)) = pw_effects w @ [OnSuccess 3 d info, CancelTimeout 5]"
    using last_round [OF bls_laws_codes players_laws_demo player_laws_demo so(7) demo_codes_readable w(1-3)
      _ so(3-6), unfolded so(1,2), OF w(7) one_piece_enough [OF w(4,5)], unfolded w(6)] by blast
  let ?w = "player_handle demo_players demo_codes demo_keychain demo_ops w (ReplyData 5 (key ''a'' ''1'') reply)"
  have E: "demo_player_exec player_zero
      ([AddSigner (key ''a'' ''1'') 1 [GComp 8 ''a''], Sign 5 ''77'' one_schema (new_data (key ''data'' ''7'')) 3 True True] @
       [ReplyData 5 (key ''a'' ''1'') reply]) ?w"
    unfolding exec_append using w(1) by (intro exI conjI) (assumption, simp del: player_handle.simps)
  have started: "pw_started ?w = pw_started w" by (simp add: player_record_def split: prod.split)
  have none: "\<forall>s. getMinSigners demo_ops s [] = []" by (simp add: demo_ops_def)
  note R = prototype_initiator_reports [OF bls_code_laws_codes bls_sum_law_codes tlv_laws_players packet_laws_players
      keychain_laws_demo none so(7) E]
  have success: "OnSuccess 3 d info \<in> set (pw_effects ?w)" by (simp only: last) simp
  have "\<exists>k. check_value demo_codes (d_sigValue d) (data_ranges demo_players d) k = Inr True"
    using conjunct2 [OF R] success by blast
  moreover have "mset (outcomes (pw_effects ?w)) \<subseteq># {# 3 #}" using conjunct1 [OF R] started w(8) by simp
  ultimately show ?thesis using E success by blast
qed

end
