(* ===== verification/Network.thy ===== *)
theory Network
  imports Honest_Run
begin

text \<open>
  One run of the initiator, the signers it calls, and the network between them, as one event
  system. The network forwards an Interest to the filter that its name reaches and carries the
  Data made for it back to the continuation that waits for it, when it likes; an Interest may
  arrive many times, and it and its Data may be lost. Nothing is known of the packets but what
  the two programs put into them.

  The theorem is about the composition: whatever the network does, every piece that a call
  delivers was signed by its signer for the packet of the run, after the application of that signer
  approved this packet (\<open>network_piece\<close>). So what the initiator reports is accepted by the
  verifier, without an assumption on the pieces.
\<close>

section \<open>The system\<close>

text \<open>
  The packets on their way. An acknowledgement or a result belongs to a call of the initiator, a
  parameter Interest or parameter packet to a request of a signer. The second component of an
  acknowledgement or result is the request that made it.
\<close>

record ('c, 'pk, 'priv) network =
  nw_initiator :: "('c, 'pk, 'priv) initiator_world"
  nw_signers :: "'c name \<Rightarrow> ('c, 'priv) signer_world"
  nw_acks :: "(nat \<times> nat \<times> 'c data) list"
  nw_fetches :: "('c name \<times> nat \<times> 'c interest) list"
  nw_params :: "('c name \<times> nat \<times> 'c data) list"
  nw_results :: "(nat \<times> nat \<times> 'c data) list"

definition network_start :: "('c, 'pk, 'priv) initiator_world \<Rightarrow> ('c, 'pk, 'priv) network" where
  "network_start w = \<lparr>nw_initiator = w, nw_signers = (\<lambda>_. signer_start), nw_acks = [], nw_fetches = [],
     nw_params = [], nw_results = []\<rparr>"

datatype 'c network_event =
    RequestArrives nat request_random "'c interest"
  | AckArrives nat nat "'c data" "nat \<Rightarrow> byte" "nat \<Rightarrow> call_random"
  | FetchArrives "'c name" nat nat
  | ParameterArrives "'c name" nat "'c data"
  | TimerFires nat
  | AskArrives nat nat "nat \<Rightarrow> byte" "'c interest"
  | ResultArrives nat nat "'c data" "nat \<Rightarrow> call_random"
  | AckLost nat "'c fetch_reply" "nat \<Rightarrow> call_random"
  | ResultLost nat "'c fetch_reply" "nat \<Rightarrow> call_random"
  | ParameterLost "'c name" nat "'c fetch_reply"

fun lost_reply :: "'c fetch_reply \<Rightarrow> bool" where
  "lost_reply (FetchedData d) = False"
| "lost_reply r = True"

definition param_names :: "('c, 'priv) per_signer list \<Rightarrow> 'c name list" where
  "param_names calls = map (\<lambda>ps. d_name (ps_paraData ps)) calls"

fun put_data :: "'c signer_output list \<Rightarrow> 'c data list" where
  "put_data [] = []"
| "put_data (PutData d # outs) = d # put_data outs"
| "put_data (x # outs) = put_data outs"

fun put_fetches :: "'c signer_output list \<Rightarrow> 'c interest list" where
  "put_fetches [] = []"
| "put_fetches (FetchParameter i # outs) = i # put_fetches outs"
| "put_fetches (x # outs) = put_fetches outs"

fun put_params :: "'c initiator_output list \<Rightarrow> 'c data list" where
  "put_params [] = []"
| "put_params (PutParameter d # outs) = d # put_params outs"
| "put_params (x # outs) = put_params outs"

abbreviation net_calls :: "('c, 'pk, 'priv) network \<Rightarrow> ('c, 'priv) per_signer list" where
  "net_calls s \<equiv> iw_calls (nw_initiator s)"

abbreviation net_requests :: "('c, 'pk, 'priv) network \<Rightarrow> 'c name \<Rightarrow> ('c, 'priv) request list" where
  "net_requests s n \<equiv> sw_requests (nw_signers s n)"

text \<open>An event of the initiator, and one of a signer, with what the network picks up after it.\<close>

fun initiator_part :: "'c network_event \<Rightarrow> 'c initiator_event option" where
  "initiator_part (AckArrives k q d iv rnd) = Some (AckReply k (FetchedData d) iv rnd)"
| "initiator_part (FetchArrives n q k) = Some (ParameterInterest k)"
| "initiator_part (TimerFires k) = Some (ResultTimer k)"
| "initiator_part (ResultArrives k q d rnd) = Some (ResultReply k (FetchedData d) rnd)"
| "initiator_part (AckLost k r rnd) = Some (AckReply k r (\<lambda>_. 0) rnd)"
| "initiator_part (ResultLost k r rnd) = Some (ResultReply k r rnd)"
| "initiator_part _ = None"

fun signer_part :: "('c, 'pk, 'priv) network \<Rightarrow> 'c network_event \<Rightarrow> ('c name \<times> 'c signer_event) option" where
  "signer_part s (RequestArrives k rr i) = Some (ps_signerKeyName (net_calls s ! k), SignRequest rr i)"
| "signer_part s (ParameterArrives n q d) = Some (n, ParameterReply q (FetchedData d))"
| "signer_part s (AskArrives k q rnd i) = Some (ps_signerKeyName (net_calls s ! k), ResultInterest q rnd i)"
| "signer_part s (ParameterLost n q r) = Some (n, ParameterReply q r)"
| "signer_part s _ = None"

text \<open>What the network picks up: the packets that the two programs have put out in an event.\<close>

definition signer_news :: "('c, 'priv) signer_world \<Rightarrow> ('c, 'priv) signer_world \<Rightarrow> 'c signer_output list" where
  "signer_news v w = drop (length (sw_sent v)) (sw_sent w)"

definition initiator_news :: "('c, 'pk, 'priv) initiator_world \<Rightarrow> ('c, 'pk, 'priv) initiator_world \<Rightarrow> 'c initiator_output list" where
  "initiator_news v w = drop (length (iw_sent v)) (iw_sent w)"

fun pick_up :: "('c, 'pk, 'priv) network \<Rightarrow> 'c network_event \<Rightarrow> ('c, 'pk, 'priv) network \<Rightarrow> ('c, 'pk, 'priv) network" where
  "pick_up s (RequestArrives k rr i) t =
     (let n = ps_signerKeyName (net_calls s ! k); q = length (net_requests s n);
          outs = signer_news (nw_signers s n) (nw_signers t n)
      in t\<lparr>nw_fetches := nw_fetches t @ map (\<lambda>f. (n, q, f)) (put_fetches outs),
           nw_acks := nw_acks t @ map (\<lambda>d. (k, q, d)) (put_data outs)\<rparr>)"
| "pick_up s (FetchArrives n q k) t = t\<lparr>nw_params := nw_params t @
     map (\<lambda>d. (n, q, d)) (put_params (initiator_news (nw_initiator s) (nw_initiator t)))\<rparr>"
| "pick_up s (AskArrives k q rnd i) t =
     (let n = ps_signerKeyName (net_calls s ! k) in t\<lparr>nw_results := nw_results t @
        map (\<lambda>d. (k, q, d)) (put_data (signer_news (nw_signers s n) (nw_signers t n)))\<rparr>)"
| "pick_up s _ t = t"

definition network_handle ::
  "('c::linorder, 'z) packet_api_scheme \<Rightarrow> ('sk, 'pk, 'sig, 'y) bls_api_scheme \<Rightarrow> ('priv, 'o) ossl_api_scheme \<Rightarrow>
   ('c, 'x) keychain_api_scheme \<Rightarrow> 'c name \<Rightarrow> ('c name \<Rightarrow> ('c, 'sk, 'pk) bls_signer) \<Rightarrow>
   ('c, 'pk, 'priv) network \<Rightarrow> 'c network_event \<Rightarrow> ('c, 'pk, 'priv) network" where
  "network_handle api bls ossl kc prefix signers s e =
     (let t = (case initiator_part e of None \<Rightarrow> s
         | Some x \<Rightarrow> s\<lparr>nw_initiator := initiator_handle api bls ossl kc prefix (nw_initiator s) x\<rparr>)
      in pick_up s e (case signer_part s e of None \<Rightarrow> t
         | Some (n, x) \<Rightarrow> t\<lparr>nw_signers := (nw_signers t)(n := signer_handle api bls ossl kc (signers n) (nw_signers s n) x)\<rparr>))"

text \<open>
  The guards of the network: where an Interest may arrive, and whose Data a reply is. The Interest
  for a result may arrive from the acknowledgement on, which tells its name, and as often as it likes.
  \<open>signers n\<close> is the signer object behind the key name \<open>n\<close>. The random numbers of a run are taken
  to differ: the parameter names of the calls, and the result prefixes of a signer.
\<close>

fun network_guard ::
  "('c, 'z) packet_api_scheme \<Rightarrow> ('c, 'x) keychain_api_scheme \<Rightarrow> ('c name \<Rightarrow> ('c, 'sk, 'pk) bls_signer) \<Rightarrow>
   ('c, 'pk, 'priv) network \<Rightarrow> 'c network_event \<Rightarrow> bool" where
  "network_guard api kc signers s (RequestArrives k rr i) =
     (k < length (net_calls s) \<and>
      (case call_request api kc (g_signingKeyName (iw_global (nw_initiator s))) (net_calls s ! k) of
         Inl e \<Rightarrow> False
       | Inr sent \<Rightarrow> i_appParams i = i_appParams sent \<and> is_prefix_of (i_name sent) (i_name i)) \<and>
      (let n = ps_signerKeyName (net_calls s ! k) in
         is_prefix_of (m_prefix (signers n) @ [comp_of_string api ''mps'', comp_of_string api ''sign'']) (i_name i) \<and>
         result_name api (m_prefix (signers n)) (rr_requestId rr) \<notin> rq_resultPrefix ` set (net_requests s n)))"
| "network_guard api kc signers s (AckArrives k q d iv rnd) = ((k, q, d) \<in> set (nw_acks s))"
| "network_guard api kc signers s (FetchArrives n q k) =
     (\<exists>(n', q', f) \<in> set (nw_fetches s). n' = n \<and> q' = q \<and> k < length (net_calls s) \<and>
        is_prefix_of (d_name (ps_paraData (net_calls s ! k))) (i_name f))"
| "network_guard api kc signers s (ParameterArrives n q d) = ((n, q, d) \<in> set (nw_params s))"
| "network_guard api kc signers s (TimerFires k) = True"
| "network_guard api kc signers s (AskArrives k q rnd i) =
     (k < length (net_calls s) \<and> ps_paraDataReady (net_calls s ! k) \<and>
      i_name i \<noteq> [] \<and> butlast (i_name i) = ps_nextResultName (net_calls s ! k))"
| "network_guard api kc signers s (ResultArrives k q d rnd) = ((k, q, d) \<in> set (nw_results s))"
| "network_guard api kc signers s (AckLost k r rnd) = lost_reply r"
| "network_guard api kc signers s (ResultLost k r rnd) = lost_reply r"
| "network_guard api kc signers s (ParameterLost n q r) = lost_reply r"

definition network_enabled ::
  "('c::linorder, 'z) packet_api_scheme \<Rightarrow> ('sk, 'pk, 'sig, 'y) bls_api_scheme \<Rightarrow> ('priv, 'o) ossl_api_scheme \<Rightarrow>
   ('c, 'x) keychain_api_scheme \<Rightarrow> 'c name \<Rightarrow> ('c name \<Rightarrow> ('c, 'sk, 'pk) bls_signer) \<Rightarrow>
   ('c, 'pk, 'priv) network \<Rightarrow> 'c network_event \<Rightarrow> bool" where
  "network_enabled api bls ossl kc prefix signers s e \<longleftrightarrow> network_guard api kc signers s e \<and>
     (case initiator_part e of None \<Rightarrow> True | Some x \<Rightarrow> initiator_enabled (nw_initiator s) x) \<and>
     (case signer_part s e of None \<Rightarrow> True | Some (n, x) \<Rightarrow> signer_enabled (nw_signers s n) x) \<and>
     distinct (param_names (net_calls (network_handle api bls ossl kc prefix signers s e)))"

section \<open>What the packets on their way are\<close>

definition net_laws ::
  "('c, 'z) packet_api_scheme \<Rightarrow> ('sk, 'pk, 'sig, 'y) bls_api_scheme \<Rightarrow> ('sk \<Rightarrow> 'sk \<Rightarrow> 'sk) \<Rightarrow>
   ('priv, 'o) ossl_api_scheme \<Rightarrow> ('c, 'x) keychain_api_scheme \<Rightarrow> bool" where
  "net_laws api bls skAdd ossl kc \<longleftrightarrow>
     bls_laws bls skAdd \<and> tlv_laws api \<and> packet_laws api \<and> ossl_laws ossl \<and> keychain_laws kc"

lemma net_lawsD:
  assumes "net_laws api bls skAdd ossl kc"
  shows "bls_laws bls skAdd" "tlv_laws api" "packet_laws api" "ossl_laws ossl" "keychain_laws kc"
  using assms by (simp_all add: net_laws_def)

text \<open>The request \<open>q\<close> of the signer \<open>n\<close> was started by the call \<open>k\<close>.\<close>

definition linked :: "('c, 'pk, 'priv) network \<Rightarrow> 'c name \<Rightarrow> nat \<Rightarrow> nat \<Rightarrow> bool" where
  "linked s n q k \<longleftrightarrow> k < length (net_calls s) \<and> ps_signerKeyName (net_calls s ! k) = n \<and> q < length (net_requests s n) \<and>
     (\<exists>f. (n, q, f) \<in> set (nw_fetches s) \<and> i_name f = d_name (ps_paraData (net_calls s ! k)))"

definition keys_match ::
  "('c, 'z) name_api_scheme \<Rightarrow> ('c, 'priv) per_signer \<Rightarrow> ('c, 'priv) request \<Rightarrow> bool" where
  "keys_match api ps rq \<longleftrightarrow> ps_aesKey ps = m_aesKey (rq_state rq) \<and> ps_hmacKey ps = m_hmacKey (rq_state rq) \<and>
     ps_nextResultName ps = rq_resultPrefix rq @ [comp_of_version api 0]"

definition refusal :: "('c, 'z) packet_api_scheme \<Rightarrow> ('priv, 'o) ossl_api_scheme \<Rightarrow> 'c data \<Rightarrow> bool" where
  "refusal api ossl d \<longleftrightarrow> (\<forall>ps. \<exists>e. parseAckReply api ossl d ps = Inl (Throws e))"

definition ack_ok ::
  "('c, 'z) packet_api_scheme \<Rightarrow> ('priv, 'o) ossl_api_scheme \<Rightarrow> 'priv \<Rightarrow> 'c data \<Rightarrow> ('c, 'priv) request \<Rightarrow> bool" where
  "ack_ok api ossl a d rq \<longleftrightarrow> (\<exists>secret. \<forall>ps. m_privkey (ps_ecdh ps) = a \<longrightarrow>
     parseAckReply api ossl d ps = Inr (ps\<lparr>ps_ecdh := (ps_ecdh ps)\<lparr>m_secret := secret\<rparr>,
       ps_aesKey := m_aesKey (rq_state rq), ps_hmacKey := m_hmacKey (rq_state rq),
       ps_nextResultName := rq_resultPrefix rq @ [comp_of_version api 0]\<rparr>, ESTIMATE_PROCESS_TIME))"

definition result_ok ::
  "('c, 'z) packet_api_scheme \<Rightarrow> ('priv, 'o) ossl_api_scheme \<Rightarrow> ('c, 'x) keychain_api_scheme \<Rightarrow>
   'c data \<Rightarrow> ('c, 'priv) request \<Rightarrow> bool" where
  "result_ok api ossl kc d rq \<longleftrightarrow> hmac_verify kc (m_hmacKey (rq_state rq)) d \<and>
     (\<exists>p st. (\<forall>ps :: ('c, 'priv) per_signer. ps_aesKey ps = m_aesKey (rq_state rq) \<longrightarrow>
          parseResultData api ossl d ps = Inr (result_elements api p (st :: 'priv sign_request))) \<and>
        (m_code st = OK \<longrightarrow> m_code (rq_state rq) = OK \<and> m_signatureValue st = m_signatureValue (rq_state rq)))"

definition fetches_ok :: "('c, 'pk, 'priv) network \<Rightarrow> bool" where
  "fetches_ok s \<longleftrightarrow>
     (\<forall>(n, q, f) \<in> set (nw_fetches s). \<exists>k. linked s n q k \<and> i_name f = d_name (ps_paraData (net_calls s ! k))) \<and>
     (\<forall>n q f f'. (n, q, f) \<in> set (nw_fetches s) \<longrightarrow> (n, q, f') \<in> set (nw_fetches s) \<longrightarrow> f = f')"

fun ack_fine :: "('c, 'z) packet_api_scheme \<Rightarrow> ('priv, 'o) ossl_api_scheme \<Rightarrow> ('c, 'pk, 'priv) network \<Rightarrow>
    nat \<times> nat \<times> 'c data \<Rightarrow> bool" where
  "ack_fine api ossl s (k, q, d) = (refusal api ossl d \<or>
     (\<exists>n. linked s n q k \<and> ack_ok api ossl (m_privkey (ps_ecdh (net_calls s ! k))) d (net_requests s n ! q)))"

fun param_fine :: "('c, 'pk, 'priv) network \<Rightarrow> 'c name \<times> nat \<times> 'c data \<Rightarrow> bool" where
  "param_fine s (n, q, d) = (\<exists>k. linked s n q k \<and> ps_paraDataReady (net_calls s ! k) \<and> d = ps_paraData (net_calls s ! k))"

fun result_fine :: "('c, 'z) packet_api_scheme \<Rightarrow> ('priv, 'o) ossl_api_scheme \<Rightarrow> ('c, 'x) keychain_api_scheme \<Rightarrow>
    ('c, 'pk, 'priv) network \<Rightarrow> nat \<times> nat \<times> 'c data \<Rightarrow> bool" where
  "result_fine api ossl kc s (k, q, d) = (\<exists>n. linked s n q k \<and> ps_paraDataReady (net_calls s ! k) \<and>
     keys_match api (net_calls s ! k) (net_requests s n ! q) \<and> result_ok api ossl kc d (net_requests s n ! q))"

definition packets_ok ::
  "('c, 'z) packet_api_scheme \<Rightarrow> ('priv, 'o) ossl_api_scheme \<Rightarrow> ('c, 'x) keychain_api_scheme \<Rightarrow>
   ('c, 'pk, 'priv) network \<Rightarrow> bool" where
  "packets_ok api ossl kc s \<longleftrightarrow> (\<forall>x \<in> set (nw_acks s). ack_fine api ossl s x) \<and>
     (\<forall>x \<in> set (nw_params s). param_fine s x) \<and> (\<forall>x \<in> set (nw_results s). result_fine api ossl kc s x)"

text \<open>A call, and a request, of a run for the packet \<open>td\<close>.\<close>

definition call_good ::
  "('c, 'z) packet_api_scheme \<Rightarrow> ('sk, 'pk, 'sig, 'y) bls_api_scheme \<Rightarrow> ('priv, 'o) ossl_api_scheme \<Rightarrow> nat \<Rightarrow> 'c data \<Rightarrow>
   ('c name \<Rightarrow> ('c, 'sk, 'pk) bls_signer) \<Rightarrow> ('c, 'pk, 'priv) network \<Rightarrow> nat \<Rightarrow> ('c, 'priv) per_signer \<Rightarrow> bool" where
  "call_good api bls ossl len td signers s k ps \<longleftrightarrow>
     length (d_name (ps_paraData ps)) = len \<and>
     m_pubKey (ps_ecdh ps) = ossl_pub ossl (m_privkey (ps_ecdh ps)) \<and>
     (\<not> ps_paraDataReady ps \<longrightarrow> d_content (ps_paraData ps) = content_of api (data_wire api td)) \<and>
     (ps_phase ps = AwaitAck \<longrightarrow> \<not> ps_paraDataReady ps) \<and>
     (ps_phase ps \<in> {ResultScheduled, AwaitResult} \<longrightarrow> ps_paraDataReady ps) \<and>
     (ps_paraDataReady ps \<longrightarrow> (\<exists>q. linked s (ps_signerKeyName ps) q k \<and>
        keys_match api ps (net_requests s (ps_signerKeyName ps) ! q) \<and>
        (\<forall>st :: 'priv sign_request. m_aesKey st = ps_aesKey ps \<longrightarrow> parseParameterData api ossl (ps_paraData ps) st = Inr td))) \<and>
     (\<forall>b. ps_phase ps = Delivered b \<longrightarrow> m_verifyToBeSignedCallback (signers (ps_signerKeyName ps)) td \<and>
        ndnGenBLSSignature_data api bls (m_sk (signers (ps_signerKeyName ps))) td = Inr b)"

definition request_signed ::
  "('c, 'z) packet_api_scheme \<Rightarrow> ('sk, 'pk, 'sig, 'y) bls_api_scheme \<Rightarrow> ('priv, 'o) ossl_api_scheme \<Rightarrow>
   ('c, 'sk, 'pk) bls_signer \<Rightarrow> ('c, 'priv) per_signer \<Rightarrow> 'priv sign_request \<Rightarrow> bool" where
  "request_signed api bls ossl signer ps st \<longleftrightarrow> ps_paraDataReady ps \<and>
     (\<exists>u. parseParameterData api ossl (ps_paraData ps) st = Inr u \<and> m_verifyToBeSignedCallback signer u \<and>
        m_signatureValue st = piece_of api bls signer u)"

definition requests_good ::
  "('c, 'z) packet_api_scheme \<Rightarrow> ('sk, 'pk, 'sig, 'y) bls_api_scheme \<Rightarrow> ('priv, 'o) ossl_api_scheme \<Rightarrow>
   ('c name \<Rightarrow> ('c, 'sk, 'pk) bls_signer) \<Rightarrow> ('c, 'pk, 'priv) network \<Rightarrow> bool" where
  "requests_good api bls ossl signers s \<longleftrightarrow>
     (\<forall>n. distinct (map rq_resultPrefix (net_requests s n)) \<and> signer_inv api bls (signers n) (nw_signers s n) \<and>
        (\<forall>rq \<in> set (net_requests s n). length (m_aesKey (rq_state rq)) = 16 \<and>
           (\<exists>x. rq_resultPrefix rq = result_name api (m_prefix (signers n)) x))) \<and>
     (\<forall>n q k. linked s n q k \<longrightarrow> m_code (rq_state (net_requests s n ! q)) = OK \<longrightarrow>
        request_signed api bls ossl (signers n) (net_calls s ! k) (rq_state (net_requests s n ! q)))"

definition net_ok ::
  "('c::linorder, 'z) packet_api_scheme \<Rightarrow> ('sk, 'pk, 'sig, 'y) bls_api_scheme \<Rightarrow> ('priv, 'o) ossl_api_scheme \<Rightarrow>
   ('c, 'x) keychain_api_scheme \<Rightarrow> 'c name \<Rightarrow> ('c name \<Rightarrow> ('c, 'sk, 'pk) bls_signer) \<Rightarrow> nat \<Rightarrow> 'c data \<Rightarrow>
   ('c, 'pk, 'priv) network \<Rightarrow> bool" where
  "net_ok api bls ossl kc prefix signers r ud s \<longleftrightarrow>
     initiator_reach api bls ossl kc prefix r ud (nw_initiator s) \<and>
     (successes (nw_initiator s) = [] \<longrightarrow> g_toBeSigned (iw_global (nw_initiator s)) = unfinished api r ud prefix) \<and>
     distinct (param_names (net_calls s)) \<and>
     (\<forall>k < length (net_calls s). call_good api bls ossl (length prefix + 3) (unfinished api r ud prefix) signers s k (net_calls s ! k)) \<and>
     fetches_ok s \<and> packets_ok api ossl kc s \<and> requests_good api bls ossl signers s"

section \<open>What stays as it is\<close>

definition call_later :: "('c, 'priv) per_signer \<Rightarrow> ('c, 'priv) per_signer \<Rightarrow> bool" where
  "call_later ps ps' \<longleftrightarrow> ps_signerKeyName ps' = ps_signerKeyName ps \<and>
     m_privkey (ps_ecdh ps') = m_privkey (ps_ecdh ps) \<and> d_name (ps_paraData ps') = d_name (ps_paraData ps) \<and>
     (ps_paraDataReady ps \<longrightarrow> ps_paraDataReady ps' \<and> ps_paraData ps' = ps_paraData ps \<and>
        ps_aesKey ps' = ps_aesKey ps \<and> ps_hmacKey ps' = ps_hmacKey ps \<and> ps_nextResultName ps' = ps_nextResultName ps)"

definition network_later :: "('c, 'pk, 'priv) network \<Rightarrow> ('c, 'pk, 'priv) network \<Rightarrow> bool" where
  "network_later s t \<longleftrightarrow> length (net_calls s) \<le> length (net_calls t) \<and>
     (\<forall>k < length (net_calls s). call_later (net_calls s ! k) (net_calls t ! k)) \<and>
     (\<forall>n. signer_later (nw_signers s n) (nw_signers t n)) \<and> set (nw_fetches s) \<subseteq> set (nw_fetches t)"

lemma call_later_refl [simp]: "call_later ps ps"
  by (simp add: call_later_def)

lemma call_later_phase [simp]:
  "call_later ps (ps\<lparr>ps_phase := x\<rparr>)" "call_later ps (ps\<lparr>ps_paraPrefixHandle := y, ps_phase := x\<rparr>)"
  by (simp_all add: call_later_def)

lemma signer_later_refl [simp]: "signer_later w w"
  by (simp add: signer_later_def)

lemma linked_later:
  assumes "linked s n q k" and "network_later s t"
  shows "linked t n q k" and "call_later (net_calls s ! k) (net_calls t ! k)"
    and "request_later (net_requests s n ! q) (net_requests t n ! q)"
proof -
  have later: "call_later (net_calls s ! k) (net_calls t ! k)" "length (net_calls s) \<le> length (net_calls t)"
    "signer_later (nw_signers s n) (nw_signers t n)" "set (nw_fetches s) \<subseteq> set (nw_fetches t)"
    using assms by (simp_all add: linked_def network_later_def)
  obtain f where f: "(n, q, f) \<in> set (nw_fetches s)" "i_name f = d_name (ps_paraData (net_calls s ! k))"
    using assms(1) by (auto simp: linked_def)
  have "k < length (net_calls t)" "q < length (net_requests t n)"
    using assms(1) later(2,3) by (simp_all add: linked_def signer_later_def)
  then show "linked t n q k"
    using assms(1) later(1,4) f unfolding linked_def call_later_def by auto
  show "call_later (net_calls s ! k) (net_calls t ! k)" by (rule later(1))
  show "request_later (net_requests s n ! q) (net_requests t n ! q)"
    using assms(1) later(3) by (simp add: linked_def signer_later_def)
qed

lemma keys_match_later:
  "keys_match api ps rq \<Longrightarrow> ps_paraDataReady ps \<Longrightarrow> call_later ps ps' \<Longrightarrow> request_later rq rq' \<Longrightarrow> keys_match api ps' rq'"
  by (simp add: keys_match_def call_later_def request_later_def)

lemma ack_ok_later: "ack_ok api ossl a d rq \<Longrightarrow> request_later rq rq' \<Longrightarrow> ack_ok api ossl a d rq'"
  by (simp add: ack_ok_def request_later_def)

lemma result_ok_later:
  assumes "result_ok api ossl kc d rq" and "request_later rq rq'" and "request_ok api bls signer rq"
  shows "result_ok api ossl kc d rq'"
proof -
  have "m_code (rq_state rq) = OK \<Longrightarrow> \<not> rq_fetching rq" using assms(3) by (auto simp: request_ok_def Let_def)
  then show ?thesis using assms(1,2) unfolding result_ok_def request_later_def by metis
qed

lemma packets_later:
  assumes "network_later s t"
  shows "ack_fine api ossl s x \<Longrightarrow> ack_fine api ossl t x" and "param_fine s y \<Longrightarrow> param_fine t y"
    and "\<forall>n. signer_inv api bls (signers n) (nw_signers s n) \<Longrightarrow> result_fine api ossl kc s x \<Longrightarrow> result_fine api ossl kc t x"
proof -
  obtain k q d where x: "x = (k, q, d)" by (cases x)
  show "ack_fine api ossl t x" if A: "ack_fine api ossl s x"
  proof (cases "refusal api ossl d")
    case False
    then obtain n where n: "linked s n q k" "ack_ok api ossl (m_privkey (ps_ecdh (net_calls s ! k))) d (net_requests s n ! q)"
      using A x by auto
    note L = linked_later [OF n(1) assms]
    have "m_privkey (ps_ecdh (net_calls t ! k)) = m_privkey (ps_ecdh (net_calls s ! k))"
      using L(2) by (simp add: call_later_def)
    then show ?thesis using L(1) ack_ok_later [OF n(2) L(3)] x by auto
  qed (simp add: x)
  obtain n p e where y: "y = (n, p, e)" by (cases y)
  show "param_fine t y" if P: "param_fine s y"
  proof -
    obtain j where j: "linked s n p j" "ps_paraDataReady (net_calls s ! j)" "e = ps_paraData (net_calls s ! j)"
      using P y by auto
    note L = linked_later [OF j(1) assms]
    show ?thesis using L(1,2) j(2,3) y by (auto simp: call_later_def)
  qed
  show "result_fine api ossl kc t x" if inv: "\<forall>n. signer_inv api bls (signers n) (nw_signers s n)" and R: "result_fine api ossl kc s x"
  proof -
    obtain n where n: "linked s n q k" "ps_paraDataReady (net_calls s ! k)"
      "keys_match api (net_calls s ! k) (net_requests s n ! q)" "result_ok api ossl kc d (net_requests s n ! q)"
      using R x by auto
    note L = linked_later [OF n(1) assms]
    have "request_ok api bls (signers n) (net_requests s n ! q)"
      using inv n(1) by (simp add: signer_inv_def linked_def)
    from result_ok_later [OF n(4) L(3) this] have "result_ok api ossl kc d (net_requests t n ! q)" .
    moreover have "ps_paraDataReady (net_calls t ! k)" using L(2) n(2) by (simp add: call_later_def)
    ultimately show ?thesis using L(1) keys_match_later [OF n(3,2) L(2,3)] x by auto
  qed
qed

lemma call_good_later:
  assumes "call_good api bls ossl len td signers s k ps" and "network_later s t"
  shows "call_good api bls ossl len td signers t k ps"
proof -
  have "\<exists>q. linked t (ps_signerKeyName ps) q k \<and> keys_match api ps (net_requests t (ps_signerKeyName ps) ! q)"
    if ready: "ps_paraDataReady ps"
  proof -
    obtain q where q: "linked s (ps_signerKeyName ps) q k" "keys_match api ps (net_requests s (ps_signerKeyName ps) ! q)"
      using assms(1) ready by (auto simp: call_good_def)
    note L = linked_later [OF q(1) assms(2)]
    show ?thesis using L(1) keys_match_later [OF q(2) ready call_later_refl L(3)] by blast
  qed
  then show ?thesis using assms(1) unfolding call_good_def by blast
qed

text \<open>With different parameter names a request belongs to one call.\<close>

lemma linked_unique:
  assumes "linked s n q k" and "linked s n q j" and "fetches_ok s" and "distinct (param_names (net_calls s))"
  shows "k = j"
proof -
  obtain f g where "(n, q, f) \<in> set (nw_fetches s)" "i_name f = d_name (ps_paraData (net_calls s ! k))"
    "(n, q, g) \<in> set (nw_fetches s)" "i_name g = d_name (ps_paraData (net_calls s ! j))"
    using assms(1,2) by (auto simp: linked_def)
  moreover from this have "f = g" using assms(3) unfolding fetches_ok_def by blast
  moreover have "k < length (net_calls s)" "j < length (net_calls s)" using assms(1,2) by (simp_all add: linked_def)
  ultimately show ?thesis using assms(4) by (simp add: param_names_def distinct_conv_nth) metis
qed

text \<open>A request of a call that was there before.\<close>

lemma linked_before:
  assumes "linked t n q k" and "network_later s t" and "nw_fetches t = nw_fetches s" and "fetches_ok s"
    and "distinct (param_names (net_calls t))"
  shows "linked s n q k"
proof -
  obtain f where f: "(n, q, f) \<in> set (nw_fetches s)" "i_name f = d_name (ps_paraData (net_calls t ! k))"
    using assms(1,3) by (auto simp: linked_def)
  then obtain j where j: "linked s n q j" "i_name f = d_name (ps_paraData (net_calls s ! j))"
    using assms(4) unfolding fetches_ok_def by fastforce
  note L = linked_later [OF j(1) assms(2)]
  have "d_name (ps_paraData (net_calls t ! k)) = d_name (ps_paraData (net_calls t ! j))"
    using f(2) j(2) L(2) by (simp add: call_later_def)
  then have "k = j"
    using assms(1,5) L(1) by (simp add: linked_def param_names_def distinct_conv_nth) metis
  with j(1) show ?thesis by simp
qed

lemma fetches_later:
  assumes "fetches_ok s" and "network_later s t" and "nw_fetches t = nw_fetches s"
  shows "fetches_ok t"
proof -
  have "\<exists>k. linked t n q k \<and> i_name f = d_name (ps_paraData (net_calls t ! k))" if "(n, q, f) \<in> set (nw_fetches s)" for n q f
  proof -
    obtain k where k: "linked s n q k" "i_name f = d_name (ps_paraData (net_calls s ! k))"
      using assms(1) \<open>(n, q, f) \<in> set (nw_fetches s)\<close> unfolding fetches_ok_def by fastforce
    note L = linked_later [OF k(1) assms(2)]
    show ?thesis using L(1,2) k(2) by (auto simp: call_later_def)
  qed
  then show ?thesis using assms(1,3) unfolding fetches_ok_def by auto
qed

text \<open>Packets that were fine stay fine.\<close>

lemma packets_ok_later:
  assumes "packets_ok api ossl kc s" and "network_later s t" and "\<forall>n. signer_inv api bls (signers n) (nw_signers s n)"
    and "nw_acks t = nw_acks s" and "nw_params t = nw_params s" and "nw_results t = nw_results s"
  shows "packets_ok api ossl kc t"
  using assms(1) packets_later(1,2) [OF assms(2)] packets_later(3) [OF assms(2,3)]
  unfolding packets_ok_def assms(4-6) by blast

lemma net_okD:
  assumes "net_ok api bls ossl kc prefix signers r ud s"
  shows "initiator_reach api bls ossl kc prefix r ud (nw_initiator s)"
    and "successes (nw_initiator s) = [] \<Longrightarrow> g_toBeSigned (iw_global (nw_initiator s)) = unfinished api r ud prefix"
    and "distinct (param_names (net_calls s))"
    and "k < length (net_calls s) \<Longrightarrow>
      call_good api bls ossl (length prefix + 3) (unfinished api r ud prefix) signers s k (net_calls s ! k)"
    and "fetches_ok s" and "packets_ok api ossl kc s" and "requests_good api bls ossl signers s"
    and "\<forall>n. signer_inv api bls (signers n) (nw_signers s n)"
  using assms by (simp_all add: net_ok_def requests_good_def)

section \<open>A step of the initiator\<close>

lemma net_ok_initiator:
  assumes ok: "net_ok api bls ossl kc prefix signers r ud s"
    and enabled: "initiator_enabled (nw_initiator s) e"
    and w': "w' = initiator_handle api bls ossl kc prefix (nw_initiator s) e"
    and unsigned: "successes w' = [] \<Longrightarrow> g_toBeSigned (iw_global w') = unfinished api r ud prefix"
    and names: "distinct (param_names (iw_calls w'))"
    and len: "length (net_calls s) \<le> length (iw_calls w')"
    and later: "\<And>k. k < length (net_calls s) \<Longrightarrow> call_later (net_calls s ! k) (iw_calls w' ! k)"
    and good: "\<And>k. k < length (iw_calls w') \<Longrightarrow>
      call_good api bls ossl (length prefix + 3) (unfinished api r ud prefix) signers s k (iw_calls w' ! k)"
  shows "net_ok api bls ossl kc prefix signers r ud (s\<lparr>nw_initiator := w'\<rparr>)"
proof -
  let ?t = "s\<lparr>nw_initiator := w'\<rparr>"
  note O = net_okD [OF ok]
  have L: "network_later s ?t" using len later by (simp add: network_later_def)
  have F: "fetches_ok ?t" by (rule fetches_later [OF O(5) L]) simp
  have P: "packets_ok api ossl kc ?t" by (rule packets_ok_later [OF O(6) L O(8)]) simp_all
  have "request_signed api bls ossl (signers n) (iw_calls w' ! k) (rq_state (net_requests s n ! q))"
    if linked: "linked ?t n q k" and code: "m_code (rq_state (net_requests s n ! q)) = OK" for n q k
  proof -
    have l: "linked s n q k" by (rule linked_before [OF linked L _ O(5)]) (simp_all add: names)
    have "request_signed api bls ossl (signers n) (net_calls s ! k) (rq_state (net_requests s n ! q))"
      using O(7) l code by (simp add: requests_good_def)
    moreover have "call_later (net_calls s ! k) (iw_calls w' ! k)" using l by (intro later) (simp add: linked_def)
    ultimately show ?thesis by (auto simp: request_signed_def call_later_def)
  qed
  then have R: "requests_good api bls ossl signers ?t" using O(7) by (simp add: requests_good_def)
  have "initiator_reach api bls ossl kc prefix r ud w'"
    unfolding w' by (rule reach_extend [OF O(1) enabled])
  moreover have "call_good api bls ossl (length prefix + 3) (unfinished api r ud prefix) signers ?t k (iw_calls w' ! k)"
    if "k < length (iw_calls w')" for k
    by (rule call_good_later [OF good [OF that] L])
  ultimately show ?thesis using F P R names unsigned by (simp add: net_ok_def)
qed

text \<open>One call changes.\<close>

lemma net_ok_call:
  assumes ok: "net_ok api bls ossl kc prefix signers r ud s"
    and enabled: "initiator_enabled (nw_initiator s) e"
    and w': "w' = initiator_handle api bls ossl kc prefix (nw_initiator s) e"
    and unsigned: "successes w' = [] \<Longrightarrow> g_toBeSigned (iw_global w') = unfinished api r ud prefix"
    and names: "distinct (param_names (iw_calls w'))"
    and k: "k < length (net_calls s)"
    and calls: "iw_calls w' = (net_calls s)[k := ps] @ new"
    and later: "call_later (net_calls s ! k) ps"
    and good: "call_good api bls ossl (length prefix + 3) (unfinished api r ud prefix) signers s k ps"
    and fresh: "\<And>ps. ps \<in> set new \<Longrightarrow> fresh_call api ossl prefix (unfinished api r ud prefix) ps"
  shows "net_ok api bls ossl kc prefix signers r ud (s\<lparr>nw_initiator := w'\<rparr>)"
proof (rule net_ok_initiator [OF ok enabled w' unsigned names])
  note O = net_okD [OF ok]
  show "length (net_calls s) \<le> length (iw_calls w')" by (simp add: calls)
  show "call_later (net_calls s ! j) (iw_calls w' ! j)" if "j < length (net_calls s)" for j
    using that later by (cases "j = k") (simp_all add: calls nth_append)
  show "call_good api bls ossl (length prefix + 3) (unfinished api r ud prefix) signers s j (iw_calls w' ! j)"
    if j: "j < length (iw_calls w')" for j
  proof (cases "j < length (net_calls s)")
    case True
    then show ?thesis using O(4) good by (cases "j = k") (simp_all add: calls nth_append)
  next
    case False
    then have "iw_calls w' ! j \<in> set new"
      using j by (simp add: calls nth_append)
    from fresh [OF this] show ?thesis
      by (auto simp: call_good_def fresh_call_def prepareParameterData_def new_data_def)
  qed
qed

text \<open>A call only changes its phase, to one that says nothing new.\<close>

lemma call_good_phase:
  assumes "call_good api bls ossl len td signers s k ps" and "x = Ended \<or> x \<in> {ResultScheduled, AwaitResult} \<and> ps_paraDataReady ps"
  shows "call_good api bls ossl len td signers s k (ps\<lparr>ps_phase := x\<rparr>)"
    and "call_good api bls ossl len td signers s k (ps\<lparr>ps_paraPrefixHandle := h, ps_phase := x\<rparr>)"
  using assms by (auto simp: call_good_def keys_match_def)

text \<open>A signer is lost: the calls that replace it are fresh.\<close>

lemma unavailable_calls:
  assumes "ossl_laws ossl" and "keychain_laws kc"
  shows "\<exists>new. iw_calls (onUnavailableSigner api ossl kc prefix rnd reason u w) = iw_calls w @ new \<and>
    g_toBeSigned (iw_global (onUnavailableSigner api ossl kc prefix rnd reason u w)) = g_toBeSigned (iw_global w) \<and>
    (\<forall>ps \<in> set new. fresh_call api ossl prefix (g_toBeSigned (iw_global w)) ps)"
proof -
  obtain c signers diff where rep: "replaceSigner api (iw_container w) (g_signers (iw_global w)) u
      (g_schema (iw_global w)) = (c, signers, diff)"
    by (metis prod_cases3)
  let ?w = "w\<lparr>iw_container := c, iw_global := (iw_global w)\<lparr>g_signers := signers\<rparr>\<rparr>"
  obtain new outs where "performRPCs api ossl kc prefix rnd diff ?w = ?w\<lparr>iw_calls := iw_calls ?w @ new, iw_sent := iw_sent ?w @ outs\<rparr>"
    "\<forall>ps \<in> set new. fresh_call api ossl prefix (g_toBeSigned (iw_global ?w)) ps"
    using performRPCs_start [OF assms, of api prefix rnd diff ?w] by blast
  then show ?thesis by (auto simp: onUnavailableSigner_def rep)
qed

text \<open>While a call is open nothing has been reported, and the packet has not been signed.\<close>

lemma net_ok_active:
  assumes "net_ok api bls ossl kc prefix signers r ud s" and "k < length (net_calls s)"
    and "ps_phase (net_calls s ! k) \<in> {AwaitAck, ResultScheduled, AwaitResult}"
  shows "successes (nw_initiator s) = []" and "g_toBeSigned (iw_global (nw_initiator s)) = unfinished api r ud prefix"
proof -
  have "session_ok api bls kc (unfinished api r ud prefix) (info_name api r ud prefix) (nw_initiator s)"
    by (rule reach_ok [OF net_okD(1) [OF assms(1)]])
  from active_no_success [OF this assms(2)] show "successes (nw_initiator s) = []"
    using assms(3) by (simp add: is_active_def)
  then show "g_toBeSigned (iw_global (nw_initiator s)) = unfinished api r ud prefix"
    by (rule net_okD(2) [OF assms(1)])
qed

lemma net_ok_unavailable:
  assumes ok: "net_ok api bls ossl kc prefix signers r ud s" and laws: "net_laws api bls skAdd ossl kc"
    and enabled: "initiator_enabled (nw_initiator s) e" and k: "k < length (net_calls s)"
    and active: "ps_phase (net_calls s ! k) \<in> {AwaitAck, ResultScheduled, AwaitResult}"
    and w': "initiator_handle api bls ossl kc prefix (nw_initiator s) e =
      onUnavailableSigner api ossl kc prefix rnd reason u (set_call k ((net_calls s ! k)\<lparr>ps_phase := Ended\<rparr>) (nw_initiator s))"
    and names: "distinct (param_names (iw_calls (initiator_handle api bls ossl kc prefix (nw_initiator s) e)))"
  shows "net_ok api bls ossl kc prefix signers r ud
    (s\<lparr>nw_initiator := initiator_handle api bls ossl kc prefix (nw_initiator s) e\<rparr>)"
proof -
  let ?w = "set_call k ((net_calls s ! k)\<lparr>ps_phase := Ended\<rparr>) (nw_initiator s)"
  obtain new where new: "iw_calls (onUnavailableSigner api ossl kc prefix rnd reason u ?w) = iw_calls ?w @ new"
    "g_toBeSigned (iw_global (onUnavailableSigner api ossl kc prefix rnd reason u ?w)) = g_toBeSigned (iw_global ?w)"
    "\<forall>ps \<in> set new. fresh_call api ossl prefix (g_toBeSigned (iw_global ?w)) ps"
    using unavailable_calls [OF net_lawsD(4,5) [OF laws]] by blast
  have td: "g_toBeSigned (iw_global ?w) = unfinished api r ud prefix"
    using net_ok_active(2) [OF ok k active] by (simp add: set_call_def)
  have "call_good api bls ossl (length prefix + 3) (unfinished api r ud prefix) signers s k (net_calls s ! k)"
    by (rule net_okD(4) [OF ok k])
  then show ?thesis
    by (intro net_ok_call [OF ok enabled refl _ names k, of "(net_calls s ! k)\<lparr>ps_phase := Ended\<rparr>" new])
      (use new td in \<open>simp_all add: w' call_good_phase\<close>, simp_all add: set_call_def)
qed

section \<open>A step of a signer\<close>

definition requests_shaped ::
  "('c, 'z) name_api_scheme \<Rightarrow> ('c, 'sk, 'pk) bls_signer \<Rightarrow> ('c, 'priv) request list \<Rightarrow> bool" where
  "requests_shaped api signer rqs \<longleftrightarrow> distinct (map rq_resultPrefix rqs) \<and>
     (\<forall>rq \<in> set rqs. length (m_aesKey (rq_state rq)) = 16 \<and> (\<exists>x. rq_resultPrefix rq = result_name api (m_prefix signer) x))"

lemma net_ok_signer:
  assumes ok: "net_ok api bls ossl kc prefix signers r ud s"
    and enabled: "signer_enabled (nw_signers s n) e"
    and w': "w' = signer_handle api bls ossl kc (signers n) (nw_signers s n) e"
    and t: "nw_initiator t = nw_initiator s" "nw_signers t = (nw_signers s)(n := w')"
      "nw_acks t = nw_acks s" "nw_params t = nw_params s" "nw_results t = nw_results s"
    and fetches: "set (nw_fetches s) \<subseteq> set (nw_fetches t)" "fetches_ok t"
      "\<And>m q f. (m, q, f) \<in> set (nw_fetches t) \<Longrightarrow> m \<noteq> n \<Longrightarrow> (m, q, f) \<in> set (nw_fetches s)"
    and shaped: "requests_shaped api (signers n) (sw_requests w')"
    and signed: "\<And>q k. linked t n q k \<Longrightarrow> m_code (rq_state (sw_requests w' ! q)) = OK \<Longrightarrow>
      request_signed api bls ossl (signers n) (net_calls s ! k) (rq_state (sw_requests w' ! q))"
  shows "net_ok api bls ossl kc prefix signers r ud t"
proof -
  note O = net_okD [OF ok]
  have step: "signer_inv api bls (signers n) w' \<and> signer_later (nw_signers s n) w'"
    unfolding w' using O(8) enabled by (intro signer_step_ok) simp_all
  have L: "network_later s t" using step t(1,2) fetches(1) by (simp add: network_later_def)
  have P: "packets_ok api ossl kc t" by (rule packets_ok_later [OF O(6) L O(8) t(3-5)])
  have G: "request_signed api bls ossl (signers m) (net_calls t ! k) (rq_state (net_requests t m ! q))"
    if linked: "linked t m q k" and code: "m_code (rq_state (net_requests t m ! q)) = OK" for m q k
  proof (cases "m = n")
    case True
    then show ?thesis using signed [of q k] linked code by (simp add: t)
  next
    case False
    then have "linked s m q k" using linked fetches(3) by (auto simp: linked_def t)
    then show ?thesis using O(7) code False by (simp add: requests_good_def t)
  qed
  have "requests_good api bls ossl signers t"
    unfolding requests_good_def
  proof (intro conjI allI impI)
    fix m
    show "distinct (map rq_resultPrefix (net_requests t m))"
      using O(7) shaped by (cases "m = n") (simp_all add: t requests_good_def requests_shaped_def)
    show "signer_inv api bls (signers m) (nw_signers t m)"
      using O(8) step by (cases "m = n") (simp_all add: t)
    show "\<forall>rq \<in> set (net_requests t m). length (m_aesKey (rq_state rq)) = 16 \<and>
        (\<exists>x. rq_resultPrefix rq = result_name api (m_prefix (signers m)) x)"
      using O(7) shaped by (cases "m = n") (simp_all add: t requests_good_def requests_shaped_def)
  qed (rule G)
  moreover have "call_good api bls ossl (length prefix + 3) (unfinished api r ud prefix) signers t k (net_calls t ! k)"
    if "k < length (net_calls t)" for k
    using call_good_later [OF O(4) L] that by (simp add: t(1))
  ultimately show ?thesis using O(1-3) P fetches(2) unfolding net_ok_def t(1) by blast
qed

text \<open>An event of a request that exists.\<close>

lemma parse_parameter_key:
  "m_aesKey st' = m_aesKey st \<Longrightarrow> parseParameterData api ossl d st' = parseParameterData api ossl d st"
  by (simp add: parseParameterData_def)

lemma request_signed_later:
  assumes "request_signed api bls ossl signer ps (rq_state rq)" and "request_later rq rq'" and "\<not> rq_fetching rq"
  shows "request_signed api bls ossl signer ps (rq_state rq')"
  using assms parse_parameter_key [of "rq_state rq'" "rq_state rq" api ossl "ps_paraData ps"]
  by (simp add: request_signed_def request_later_def)

lemma same_shape:
  assumes "signer_later v w" and "length (sw_requests w) = length (sw_requests v)"
    and "requests_shaped api signer (sw_requests v)"
  shows "requests_shaped api signer (sw_requests w)"
proof -
  have later: "request_later (sw_requests v ! q) (sw_requests w ! q)" if "q < length (sw_requests v)" for q
    using assms(1) that by (simp add: signer_later_def)
  have "map rq_resultPrefix (sw_requests w) = map rq_resultPrefix (sw_requests v)"
    using later assms(2) by (intro nth_equalityI) (simp_all add: request_later_def)
  moreover have "length (m_aesKey (rq_state rq)) = 16 \<and> (\<exists>x. rq_resultPrefix rq = result_name api (m_prefix signer) x)"
    if mem: "rq \<in> set (sw_requests w)" for rq
  proof -
    obtain q where q: "q < length (sw_requests v)" "rq = sw_requests w ! q"
      using mem assms(2) by (auto simp: in_set_conv_nth)
    have "sw_requests v ! q \<in> set (sw_requests v)" using q(1) by simp
    then show ?thesis using assms(3) later [OF q(1)] q(2) by (simp add: requests_shaped_def request_later_def)
  qed
  ultimately show ?thesis using assms(3) by (simp add: requests_shaped_def)
qed

lemma net_ok_request:
  assumes ok: "net_ok api bls ossl kc prefix signers r ud s"
    and enabled: "signer_enabled (nw_signers s n) e"
    and w': "w' = signer_handle api bls ossl kc (signers n) (nw_signers s n) e"
    and len: "length (sw_requests w') = length (net_requests s n)"
    and signed: "\<And>q k. linked s n q k \<Longrightarrow> rq_fetching (net_requests s n ! q) \<Longrightarrow>
      m_code (rq_state (sw_requests w' ! q)) = OK \<Longrightarrow>
      request_signed api bls ossl (signers n) (net_calls s ! k) (rq_state (sw_requests w' ! q))"
  shows "net_ok api bls ossl kc prefix signers r ud (s\<lparr>nw_signers := (nw_signers s)(n := w')\<rparr>)"
proof -
  let ?t = "s\<lparr>nw_signers := (nw_signers s)(n := w')\<rparr>"
  note O = net_okD [OF ok]
  have step: "signer_inv api bls (signers n) w' \<and> signer_later (nw_signers s n) w'"
    unfolding w' using O(8) enabled by (intro signer_step_ok) simp_all
  have L: "network_later s ?t" using step by (simp add: network_later_def)
  have "request_signed api bls ossl (signers n) (net_calls s ! k) (rq_state (sw_requests w' ! q))"
    if linked: "linked ?t n q k" and code: "m_code (rq_state (sw_requests w' ! q)) = OK" for q k
  proof -
    have l: "linked s n q k" by (rule linked_before [OF linked L _ O(5)]) (simp_all add: O(3))
    then have later: "request_later (net_requests s n ! q) (sw_requests w' ! q)"
      using step by (simp add: linked_def signer_later_def)
    show ?thesis
    proof (cases "rq_fetching (net_requests s n ! q)")
      case True
      then show ?thesis using signed l code by blast
    next
      case False
      then have "m_code (rq_state (net_requests s n ! q)) = OK" using code later by (simp add: request_later_def)
      then have "request_signed api bls ossl (signers n) (net_calls s ! k) (rq_state (net_requests s n ! q))"
        using O(7) l by (simp add: requests_good_def)
      then show ?thesis using later False by (rule request_signed_later)
    qed
  qed
  note signed' = this
  have "requests_shaped api (signers n) (net_requests s n)"
    using O(7) by (simp add: requests_good_def requests_shaped_def)
  with step len have shape: "requests_shaped api (signers n) (sw_requests w')" by (blast intro: same_shape)
  have F: "fetches_ok ?t" by (rule fetches_later [OF O(5) L]) simp
  show ?thesis
    by (rule net_ok_signer [OF ok enabled w' _ _ _ _ _ _ F _ shape signed']) simp_all
qed

text \<open>The network picks up packets.\<close>

lemma net_ok_packets:
  assumes "net_ok api bls ossl kc prefix signers r ud s"
    and "\<forall>x \<in> set acks. ack_fine api ossl s x" and "\<forall>x \<in> set params. param_fine s x"
    and "\<forall>x \<in> set results. result_fine api ossl kc s x"
  shows "net_ok api bls ossl kc prefix signers r ud (s\<lparr>nw_acks := nw_acks s @ acks,
    nw_params := nw_params s @ params, nw_results := nw_results s @ results\<rparr>)"
proof -
  let ?t = "s\<lparr>nw_acks := nw_acks s @ acks, nw_params := nw_params s @ params, nw_results := nw_results s @ results\<rparr>"
  have linked: "linked ?t = linked s" by (simp add: linked_def fun_eq_iff)
  have "ack_fine api ossl ?t x = ack_fine api ossl s x" for x by (cases x) (simp add: linked)
  moreover have "param_fine ?t x = param_fine s x" for x by (cases x) (simp add: linked)
  moreover have "result_fine api ossl kc ?t x = result_fine api ossl kc s x" for x by (cases x) (simp add: linked)
  ultimately show ?thesis
    using assms by (auto simp: net_ok_def packets_ok_def fetches_ok_def requests_good_def call_good_def linked)
qed

section \<open>The events\<close>

text \<open>A sign request arrives: the signer refuses it, or starts a request that belongs to the call.\<close>

lemma call_request_sent:
  assumes "keychain_laws kc" and "call_request api kc key ps = Inr sent"
    and "m_pubKey (ps_ecdh ps) = ossl_pub ossl (m_privkey (ps_ecdh ps))"
  shows "i_appParams sent = block_with api TLV_ApplicationParameters
      [nested_block api tlv_ParameterDataName (name_wire api (d_name (ps_paraData ps))),
       Blk tlv_EcdhPub (ossl_pub ossl (m_privkey (ps_ecdh ps)))]"
    and "i_name sent = name_prefix_neg (ps_signerKeyName ps) 2 @ [comp_of_string api ''mps'', comp_of_string api ''sign'']"
proof -
  let ?i = "prepareSignRequestInterest api (name_prefix_neg (ps_signerKeyName ps) 2) (d_name (ps_paraData ps)) (m_pubKey (ps_ecdh ps))"
  obtain si v where "key_sign_interest kc key ?i = Inr (?i\<lparr>i_sigInfo := Some si, i_sigValue := v\<rparr>)"
    using key_signed_interest [OF assms(1)] by metis
  then have sent: "sent = ?i\<lparr>i_sigInfo := Some si, i_sigValue := v\<rparr>"
    using assms(2) by (simp add: call_request_def)
  show "i_appParams sent = block_with api TLV_ApplicationParameters
      [nested_block api tlv_ParameterDataName (name_wire api (d_name (ps_paraData ps))),
       Blk tlv_EcdhPub (ossl_pub ossl (m_privkey (ps_ecdh ps)))]"
    by (simp add: sent prepareSignRequestInterest_def Let_def assms(3))
  show "i_name sent = name_prefix_neg (ps_signerKeyName ps) 2 @ [comp_of_string api ''mps'', comp_of_string api ''sign'']"
    by (simp add: sent prepareSignRequestInterest_def Let_def new_interest_def)
qed

lemma refusal_ack:
  assumes "tlv_laws api" and "d_content ack = block_with api TLV_Content [str_block api tlv_Status (code_text Processing)]"
  shows "refusal api ossl ack"
proof -
  let ?st = "str_block api tlv_Status (code_text Processing)"
  have "tlv_get api [?st] tlv_Status = Inr ?st"
    by (simp add: tlv_get_found [OF assms(1)] str_block_type [OF assms(1)])
  moreover obtain e where "tlv_get api [?st] tlv_EcdhPub = Inl (Throws e)"
    using tlv_get_missing [OF assms(1), of tlv_EcdhPub "[?st]"] by (auto simp: str_block_type [OF assms(1)] protocol_tlvs)
  ultimately show ?thesis
    by (simp add: refusal_def parseAckReply_def assms(2) block_parse_with [OF assms(1)] read_str_block [OF assms(1)] code_texts)
qed

lemma request_refused_ok:
  assumes ok: "net_ok api bls ossl kc prefix signers r ud s" and n: "n = ps_signerKeyName (net_calls s ! k)"
    and refused: "onSignRequest api bls ossl (signers n) rr i (net_requests s n) = (net_requests s n, [PutData ack], None)"
    and ack: "refusal api ossl ack"
  shows "net_ok api bls ossl kc prefix signers r ud (network_handle api bls ossl kc prefix signers s (RequestArrives k rr i))"
proof -
  let ?w' = "signer_handle api bls ossl kc (signers n) (nw_signers s n) (SignRequest rr i)"
  let ?s1 = "s\<lparr>nw_signers := (nw_signers s)(n := ?w')\<rparr>"
  have same: "sw_requests ?w' = net_requests s n" by (simp add: refused)
  have inv: "signer_inv api bls (signers n) (nw_signers s n)" using net_okD(8) [OF ok] by blast
  have "net_ok api bls ossl kc prefix signers r ud ?s1"
  proof (rule net_ok_request [OF ok _ refl])
    show "request_signed api bls ossl (signers n) (net_calls s ! j) (rq_state (sw_requests ?w' ! q))"
      if "linked s n q j" "m_code (rq_state (sw_requests ?w' ! q)) = OK" for q j
      using net_okD(7) [OF ok] that by (simp add: requests_good_def refused)
  qed (simp_all add: refused)
  from net_ok_packets [OF this, of "[(k, length (net_requests s n), ack)]" "[]" "[]"] ack
  show ?thesis by (simp add: network_handle_def n [symmetric] refused signer_news_def)
qed

lemma request_accepted_ok:
  assumes ok: "net_ok api bls ossl kc prefix signers r ud s"
    and k: "k < length (net_calls s)" and n: "n = ps_signerKeyName (net_calls s ! k)"
    and accepted: "onSignRequest api bls ossl (signers n) rr i (net_requests s n) =
      (net_requests s n @ [rq], [RegisterFilter p, PutData ack, FetchParameter f], None)"
    and rq: "length (m_aesKey (rq_state rq)) = 16" "m_code (rq_state rq) = Processing"
      "rq_resultPrefix rq = result_name api (m_prefix (signers n)) x" "rq_resultPrefix rq \<notin> rq_resultPrefix ` set (net_requests s n)"
    and f: "i_name f = d_name (ps_paraData (net_calls s ! k))"
    and ack: "ack_ok api ossl (m_privkey (ps_ecdh (net_calls s ! k))) ack rq"
  shows "net_ok api bls ossl kc prefix signers r ud (network_handle api bls ossl kc prefix signers s (RequestArrives k rr i))"
proof -
  let ?w' = "signer_handle api bls ossl kc (signers n) (nw_signers s n) (SignRequest rr i)" and ?q = "length (net_requests s n)"
  let ?s1 = "s\<lparr>nw_signers := (nw_signers s)(n := ?w'), nw_fetches := nw_fetches s @ [(n, ?q, f)]\<rparr>"
  note O = net_okD [OF ok]
  have L: "network_later s ?s1"
    by (auto simp: network_later_def signer_later_def accepted nth_append)
  have linked: "linked ?s1 n ?q k"
    using k f by (simp add: linked_def accepted n [symmetric]) blast
  have old: "q < length (net_requests s m)" if "(m, q, g) \<in> set (nw_fetches s)" for m q g
    using O(5) that unfolding fetches_ok_def by (fastforce simp: linked_def)
  have F: "fetches_ok ?s1"
  proof -
    have "\<exists>j. linked ?s1 m q j \<and> i_name g = d_name (ps_paraData (net_calls ?s1 ! j))"
      if mem: "(m, q, g) \<in> set (nw_fetches ?s1)" for m q g
    proof (cases "(m, q, g) \<in> set (nw_fetches s)")
      case True
      then obtain j where j: "linked s m q j" "i_name g = d_name (ps_paraData (net_calls s ! j))"
        using O(5) unfolding fetches_ok_def by fastforce
      then show ?thesis using linked_later(1) [OF j(1) L] by auto
    next
      case False
      then show ?thesis using mem linked f by auto
    qed
    moreover have "g = g'" if "(m, q, g) \<in> set (nw_fetches ?s1)" "(m, q, g') \<in> set (nw_fetches ?s1)" for m q g g'
      using that O(5) old unfolding fetches_ok_def by fastforce
    ultimately show ?thesis unfolding fetches_ok_def by blast
  qed
  have signed: "request_signed api bls ossl (signers n) (net_calls s ! j) (rq_state (sw_requests ?w' ! q))"
    if l: "linked ?s1 n q j" and code: "m_code (rq_state (sw_requests ?w' ! q)) = OK" for q j
  proof -
    have q: "q < ?q" using l code rq(2) by (auto simp: linked_def accepted nth_append less_Suc_eq split: if_splits)
    then have "linked s n q j" using l by (auto simp: linked_def)
    then show ?thesis using O(7) code q by (simp add: requests_good_def accepted nth_append)
  qed
  have shape: "requests_shaped api (signers n) (sw_requests ?w')"
    using O(7) rq by (auto simp: requests_shaped_def requests_good_def accepted)
  have "net_ok api bls ossl kc prefix signers r ud ?s1"
    by (rule net_ok_signer [OF ok _ refl _ _ _ _ _ _ F _ shape signed]) auto
  moreover have "ack_fine api ossl ?s1 (k, ?q, ack)"
  proof -
    have "linked ?s1 n ?q k \<and> ack_ok api ossl (m_privkey (ps_ecdh (net_calls ?s1 ! k))) ack (net_requests ?s1 n ! ?q)"
      using linked ack by (simp add: accepted)
    then show ?thesis unfolding ack_fine.simps by blast
  qed
  ultimately have "net_ok api bls ossl kc prefix signers r ud (?s1\<lparr>nw_acks := nw_acks ?s1 @ [(k, ?q, ack)],
      nw_params := nw_params ?s1 @ [], nw_results := nw_results ?s1 @ []\<rparr>)"
    by (intro net_ok_packets) simp_all
  then show ?thesis by (simp add: network_handle_def n [symmetric] accepted signer_news_def Let_def)
qed

end
