(* ===== verification/Network_Steps.thy ===== *)
theory Network_Steps
  imports Network
begin

text \<open>
  Every event of the network keeps \<open>net_ok\<close>: one lemma per event, from the lemma of the
  handler it runs. The invariant holds at the start of a run and so in every execution.
\<close>

section \<open>The sign request and its acknowledgement\<close>

lemma request_accepted:
  assumes laws: "net_laws api bls skAdd ossl kc"
    and params: "i_appParams i = block_with api t
      [nested_block api tlv_ParameterDataName (name_wire api p), Blk tlv_EcdhPub (ossl_pub ossl a)]"
    and "m_verifySignRequestCallback signer i" and "interest_digest_valid api i"
  obtains rq ack f where "onSignRequest api bls ossl signer rr i rqs =
      (rqs @ [rq], [RegisterFilter (result_name api (m_prefix signer) (rr_requestId rr)), PutData ack, FetchParameter f], None)"
    and "rq_resultPrefix rq = result_name api (m_prefix signer) (rr_requestId rr)" "length (m_aesKey (rq_state rq)) = 16"
    and "m_code (rq_state rq) = Processing" "rq_fetching rq" "m_resultPrefixHandle (rq_state rq)"
    and "i_name f = p" "ack_ok api ossl a ack rq"
proof -
  note L = net_lawsD [OF laws]
  let ?rp = "result_name api (m_prefix signer) (rr_requestId rr)"
  obtain st secret ack where h: "onSignRequest api bls ossl signer rr i rqs =
      (rqs @ [\<lparr>rq_resultPrefix = ?rp, rq_state = st, rq_fetching = True\<rparr>], [RegisterFilter ?rp, PutData ack,
        FetchParameter ((new_interest p)\<lparr>i_canBePrefix := True, i_mustBeFresh := True, i_lifetime := TIMEOUT\<rparr>)], None)"
    "length (m_aesKey st) = 16" "m_code st = Processing" "m_resultPrefixHandle st"
    and parse: "\<And>ps :: ('a, 'g) per_signer. m_privkey (ps_ecdh ps) = a \<Longrightarrow>
      parseAckReply api ossl ack ps = Inr (ps\<lparr>ps_ecdh := (ps_ecdh ps)\<lparr>m_secret := secret\<rparr>,
        ps_aesKey := m_aesKey st, ps_hmacKey := m_hmacKey st, ps_nextResultName := ?rp @ [comp_of_version api 0]\<rparr>,
        ESTIMATE_PROCESS_TIME)"
    by (rule handshake_made [OF L(1-4) assms(2-4), of rr rqs]) blast
  have "ack_ok api ossl a ack \<lparr>rq_resultPrefix = ?rp, rq_state = st, rq_fetching = True\<rparr>"
    unfolding ack_ok_def using parse by auto
  with h show ?thesis by (intro that [OF h(1)]) (simp_all add: new_interest_def)
qed

text \<open>The Interest of a call, as the signer reads it.\<close>

lemma call_params:
  assumes laws: "net_laws api bls skAdd ossl kc" and ok: "net_ok api bls ossl kc prefix signers r ud s"
    and k: "k < length (net_calls s)"
    and "call_request api kc (g_signingKeyName (iw_global (nw_initiator s))) (net_calls s ! k) = Inr sent"
  shows "i_appParams sent = block_with api TLV_ApplicationParameters
    [nested_block api tlv_ParameterDataName (name_wire api (d_name (ps_paraData (net_calls s ! k)))),
     Blk tlv_EcdhPub (ossl_pub ossl (m_privkey (ps_ecdh (net_calls s ! k))))]"
  using net_okD(4) [OF ok k] by (intro call_request_sent(1) [OF net_lawsD(5) [OF laws] assms(4)]) (simp add: call_good_def)

lemma request_arrives_ok:
  assumes laws: "net_laws api bls skAdd ossl kc" and ok: "net_ok api bls ossl kc prefix signers r ud s"
    and guard: "network_guard api kc signers s (RequestArrives k rr i)"
  shows "net_ok api bls ossl kc prefix signers r ud (network_handle api bls ossl kc prefix signers s (RequestArrives k rr i))"
proof -
  note L = net_lawsD [OF laws]
  let ?ps = "net_calls s ! k" and ?n = "ps_signerKeyName (net_calls s ! k)"
  have k: "k < length (net_calls s)" using guard by simp
  obtain sent where sent: "call_request api kc (g_signingKeyName (iw_global (nw_initiator s))) ?ps = Inr sent"
    "i_appParams i = i_appParams sent"
    using guard by (auto split: sum.splits)
  have fresh: "result_name api (m_prefix (signers ?n)) (rr_requestId rr) \<notin> rq_resultPrefix ` set (net_requests s ?n)"
    using guard by (simp add: Let_def)
  show ?thesis
  proof (cases "m_verifySignRequestCallback (signers ?n) i \<and> interest_digest_valid api i")
    case True
    obtain rq ack f where h: "onSignRequest api bls ossl (signers ?n) rr i (net_requests s ?n) = (net_requests s ?n @ [rq],
        [RegisterFilter (result_name api (m_prefix (signers ?n)) (rr_requestId rr)), PutData ack, FetchParameter f], None)"
      and rq: "rq_resultPrefix rq = result_name api (m_prefix (signers ?n)) (rr_requestId rr)"
        "length (m_aesKey (rq_state rq)) = 16" "m_code (rq_state rq) = Processing"
      and f: "i_name f = d_name (ps_paraData ?ps)" and ack: "ack_ok api ossl (m_privkey (ps_ecdh ?ps)) ack rq"
      by (rule request_accepted [OF laws call_params [OF laws ok k sent(1), folded sent(2)], of "signers ?n" rr "net_requests s ?n"])
        (use True in \<open>blast+\<close>)
    show ?thesis
      by (rule request_accepted_ok [OF ok k refl h rq(2,3,1) _ f ack]) (simp add: rq(1) fresh)
  next
    case False
    then obtain ack where "onSignRequest api bls ossl (signers ?n) rr i (net_requests s ?n) =
        (net_requests s ?n, [PutData ack], None)"
      "d_content ack = block_with api TLV_Content [str_block api tlv_Status (code_text Processing)]"
      using onSignRequest_refused [OF L(1,3)] by metis
    then show ?thesis using request_refused_ok [OF ok refl] refusal_ack [OF L(2)] by blast
  qed
qed

lemma linked_request:
  assumes "requests_good api bls ossl signers s" and "linked s n q k"
  shows "length (m_aesKey (rq_state (net_requests s n ! q))) = 16"
    and "\<exists>x. rq_resultPrefix (net_requests s n ! q) = result_name api (m_prefix (signers n)) x"
    and "request_ok api bls (signers n) (net_requests s n ! q)"
proof -
  have "net_requests s n ! q \<in> set (net_requests s n)" using assms(2) by (simp add: linked_def)
  with assms(1) show "length (m_aesKey (rq_state (net_requests s n ! q))) = 16"
    "\<exists>x. rq_resultPrefix (net_requests s n ! q) = result_name api (m_prefix (signers n)) x"
    "request_ok api bls (signers n) (net_requests s n ! q)"
    unfolding requests_good_def signer_inv_def by blast+
qed

lemma param_names_update:
  assumes "k < length calls" and "d_name (ps_paraData ps) = d_name (ps_paraData (calls ! k))"
  shows "param_names (calls[k := ps]) = param_names calls"
  using assms by (simp add: param_names_def map_update list_update_same_conv)

lemma net_ok_one:
  assumes ok: "net_ok api bls ossl kc prefix signers r ud s" and "initiator_enabled (nw_initiator s) e"
    and k: "k < length (net_calls s)"
    and w': "initiator_handle api bls ossl kc prefix (nw_initiator s) e = w'"
    and unsigned: "successes w' = [] \<Longrightarrow> g_toBeSigned (iw_global w') = unfinished api r ud prefix"
    and calls: "iw_calls w' = (net_calls s)[k := ps]"
    and later: "call_later (net_calls s ! k) ps"
    and good: "call_good api bls ossl (length prefix + 3) (unfinished api r ud prefix) signers s k ps"
  shows "net_ok api bls ossl kc prefix signers r ud (s\<lparr>nw_initiator := w'\<rparr>)"
proof (rule net_ok_call [OF ok assms(2) w' [symmetric] unsigned _ k])
  show "distinct (param_names (iw_calls w'))"
    using net_okD(3) [OF ok] param_names_update [OF k, of ps] later by (simp add: calls call_later_def)
  show "iw_calls w' = (net_calls s)[k := ps] @ []" by (simp add: calls)
qed (use later good in simp_all)

lemma no_success_emit: "successes (emit outs w) = [] \<Longrightarrow> successes w = []"
  by (simp add: successes_def emit_def)

text \<open>The acknowledgement of a request releases the parameters of the run under its keys.\<close>

lemma ack_released:
  assumes laws: "net_laws api bls skAdd ossl kc" and ok: "net_ok api bls ossl kc prefix signers r ud s"
    and linked: "linked s n q k" and ack: "ack_ok api ossl (m_privkey (ps_ecdh (net_calls s ! k))) d (net_requests s n ! q)"
    and phase: "ps_phase (net_calls s ! k) = AwaitAck"
  obtains ps where "onAckData api ossl kc iv k d (nw_initiator s) =
      emit [ScheduleFetch ESTIMATE_PROCESS_TIME] (set_call k ps (nw_initiator s))"
    and "call_later (net_calls s ! k) ps" "ps_phase ps = ResultScheduled"
    and "ps_paraPrefixHandle ps = ps_paraPrefixHandle (net_calls s ! k)" "hmac_verify kc (ps_hmacKey ps) (ps_paraData ps)"
    and "call_good api bls ossl (length prefix + 3) (unfinished api r ud prefix) signers s k ps"
proof -
  note L = net_lawsD [OF laws] and O = net_okD [OF ok]
  let ?w = "nw_initiator s" and ?ps = "net_calls s ! k" and ?td = "unfinished api r ud prefix" and ?rq = "net_requests s n ! q"
  have name: "k < length (net_calls s)" "ps_signerKeyName ?ps = n" using linked by (simp_all add: linked_def)
  have good: "call_good api bls ossl (length prefix + 3) ?td signers s k ?ps" by (rule O(4) [OF name(1)])
  have notready: "\<not> ps_paraDataReady ?ps" using good phase by (simp add: call_good_def)
  obtain secret where parse: "parseAckReply api ossl d (?ps\<lparr>ps_phase := Ended\<rparr>) =
      Inr (?ps\<lparr>ps_phase := Ended, ps_ecdh := (ps_ecdh ?ps)\<lparr>m_secret := secret\<rparr>, ps_aesKey := m_aesKey (rq_state ?rq),
        ps_hmacKey := m_hmacKey (rq_state ?rq), ps_nextResultName := rq_resultPrefix ?rq @ [comp_of_version api 0]\<rparr>,
        ESTIMATE_PROCESS_TIME)"
    using ack unfolding ack_ok_def by (elim exE allE [of _ "?ps\<lparr>ps_phase := Ended\<rparr>"]) simp
  let ?ps1 = "?ps\<lparr>ps_phase := Ended, ps_ecdh := (ps_ecdh ?ps)\<lparr>m_secret := secret\<rparr>, ps_aesKey := m_aesKey (rq_state ?rq),
    ps_hmacKey := m_hmacKey (rq_state ?rq), ps_nextResultName := rq_resultPrefix ?rq @ [comp_of_version api 0]\<rparr>"
  obtain pd where pd: "onAckData api ossl kc iv k d ?w = emit [ScheduleFetch ESTIMATE_PROCESS_TIME]
      (set_call k (?ps1\<lparr>ps_paraData := pd, ps_paraDataReady := True, ps_phase := ResultScheduled\<rparr>) ?w)"
    "d_name pd = d_name (ps_paraData ?ps)" "hmac_verify kc (m_hmacKey (rq_state ?rq)) pd"
    and readable: "\<And>st. m_aesKey st = m_aesKey (rq_state ?rq) \<Longrightarrow> parseParameterData api ossl pd st = Inr ?td"
  proof (rule parameter_step [OF L(2-5) parse, of ?td iv])
    show "length (ps_aesKey ?ps1) = 16" using linked_request(1) [OF O(7) linked] by simp
    show "d_sigInfo ?td \<noteq> None" by (rule unfinished_sigInfo)
    show "d_content (ps_paraData ?ps) = content_of api (data_wire api ?td)"
      using good notready by (simp add: call_good_def)
  qed (use that in auto)
  show ?thesis
  proof (rule that [OF pd(1)])
    show "call_good api bls ossl (length prefix + 3) ?td signers s k
        (?ps1\<lparr>ps_paraData := pd, ps_paraDataReady := True, ps_phase := ResultScheduled\<rparr>)"
      using good linked name readable pd(2) by (auto simp: call_good_def keys_match_def)
  qed (use notready pd(2,3) in \<open>simp_all add: call_later_def\<close>)
qed

lemma ack_arrives_ok:
  assumes laws: "net_laws api bls skAdd ossl kc" and ok: "net_ok api bls ossl kc prefix signers r ud s"
    and mem: "(k, q, d) \<in> set (nw_acks s)"
    and enabled: "initiator_enabled (nw_initiator s) (AckReply k (FetchedData d) iv rnd)"
  shows "net_ok api bls ossl kc prefix signers r ud (network_handle api bls ossl kc prefix signers s (AckArrives k q d iv rnd))"
proof -
  note O = net_okD [OF ok]
  let ?w = "nw_initiator s" and ?ps = "net_calls s ! k" and ?td = "unfinished api r ud prefix"
  have k: "k < length (net_calls s)" and phase: "ps_phase ?ps = AwaitAck" using enabled by simp_all
  have td: "g_toBeSigned (iw_global ?w) = ?td" by (rule net_ok_active(2) [OF ok k]) (simp add: phase)
  have fine: "ack_fine api ossl s (k, q, d)" using O(6) mem unfolding packets_ok_def by blast
  have h: "initiator_handle api bls ossl kc prefix ?w (AckReply k (FetchedData d) iv rnd) = onAckData api ossl kc iv k d ?w"
    by simp
  have "net_ok api bls ossl kc prefix signers r ud (s\<lparr>nw_initiator := onAckData api ossl kc iv k d ?w\<rparr>)"
  proof (cases "refusal api ossl d")
    case True
    then obtain e where "parseAckReply api ossl d (?ps\<lparr>ps_phase := Ended\<rparr>) = Inl (Throws e)"
      unfolding refusal_def by blast
    then have "onAckData api ossl kc iv k d ?w = set_call k (?ps\<lparr>ps_phase := Ended\<rparr>) ?w"
      by (simp add: onAckData_def)
    then show ?thesis
      using call_good_phase(1) [OF O(4) [OF k]]
      by (intro net_ok_one [OF ok enabled k h, of "?ps\<lparr>ps_phase := Ended\<rparr>"]) (simp_all add: set_call_def td)
  next
    case False
    then obtain n where "linked s n q k" "ack_ok api ossl (m_privkey (ps_ecdh ?ps)) d (net_requests s n ! q)"
      using fine by auto
    then obtain ps where "onAckData api ossl kc iv k d ?w = emit [ScheduleFetch ESTIMATE_PROCESS_TIME] (set_call k ps ?w)"
      "call_later ?ps ps" "call_good api bls ossl (length prefix + 3) ?td signers s k ps"
      using ack_released [OF laws ok _ _ phase] by metis
    then show ?thesis
      by (intro net_ok_one [OF ok enabled k h, of ps]) (simp_all add: set_call_frame td)
  qed
  then show ?thesis by (simp add: network_handle_def)
qed

section \<open>The parameters\<close>

lemma fetch_arrives_ok:
  assumes ok: "net_ok api bls ossl kc prefix signers r ud s"
    and mem: "(n, q, f) \<in> set (nw_fetches s)" and name: "is_prefix_of (d_name (ps_paraData (net_calls s ! k))) (i_name f)"
    and enabled: "initiator_enabled (nw_initiator s) (ParameterInterest k)"
  shows "net_ok api bls ossl kc prefix signers r ud (network_handle api bls ossl kc prefix signers s (FetchArrives n q k))"
proof -
  note O = net_okD [OF ok]
  let ?w = "nw_initiator s" and ?ps = "net_calls s ! k"
  let ?outs = "[if ps_paraDataReady ?ps then PutParameter (ps_paraData ?ps) else WaitForever]"
  have k: "k < length (net_calls s)" using enabled by simp
  obtain j where j: "linked s n q j" "i_name f = d_name (ps_paraData (net_calls s ! j))"
    using O(5) mem unfolding fetches_ok_def by fastforce
  then have jl: "j < length (net_calls s)" by (simp add: linked_def)
  have "length (d_name (ps_paraData ?ps)) = length (i_name f)"
    using O(4) [OF k] O(4) [OF jl] j(2) by (simp add: call_good_def)
  with name j(2) have "d_name (ps_paraData ?ps) = d_name (ps_paraData (net_calls s ! j))"
    by (simp add: is_prefix_of_def)
  with k jl O(3) have "k = j" by (simp add: param_names_def distinct_conv_nth) metis
  with j(1) have linked: "linked s n q k" by simp
  have h: "onParameterInterest k ?w = emit ?outs ?w" by (simp add: onParameterInterest_def)
  let ?s1 = "s\<lparr>nw_initiator := emit ?outs ?w\<rparr>"
  have calls: "iw_calls (emit ?outs ?w) = net_calls s" by (simp add: emit_def)
  have "net_ok api bls ossl kc prefix signers r ud ?s1"
  proof (rule net_ok_initiator [OF ok enabled])
    show "g_toBeSigned (iw_global (emit ?outs ?w)) = unfinished api r ud prefix" if "successes (emit ?outs ?w) = []"
      using O(2) no_success_emit [OF that] by (simp add: emit_def)
  qed (use h O(3,4) calls in simp_all)
  moreover have "param_fine ?s1 x" if "x \<in> set (map (\<lambda>d. (n, q, d)) (put_params ?outs))" for x
    using that linked by (auto simp: linked_def emit_def split: if_splits)
  ultimately have "net_ok api bls ossl kc prefix signers r ud (?s1\<lparr>nw_acks := nw_acks ?s1 @ [],
      nw_params := nw_params ?s1 @ map (\<lambda>d. (n, q, d)) (put_params ?outs), nw_results := nw_results ?s1 @ []\<rparr>)"
    by (intro net_ok_packets) simp_all
  then show ?thesis by (simp add: network_handle_def h initiator_news_def emit_def)
qed

text \<open>The code \<open>OK\<close> is only set for a packet that was read and approved.\<close>

lemma parameter_signed:
  assumes "onParameterReply api bls ossl kc signer x rq = (rq', f)" and "request_ok api bls signer rq" and "rq_fetching rq"
    and "m_code (rq_state rq') = OK"
  shows "\<exists>d u. x = FetchedData d \<and> parseParameterData api ossl d (rq_state rq') = Inr u \<and>
    m_verifyToBeSignedCallback signer u \<and> m_signatureValue (rq_state rq') = piece_of api bls signer u"
proof -
  have rq: "m_code (rq_state rq) \<noteq> OK" "m_signatureValue (rq_state rq) = []"
    using assms(2,3) by (auto simp: request_ok_def Let_def)
  obtain d where x: "x = FetchedData d"
    using assms(1,4) by (cases x) (auto simp: set_code_def)
  have "hmac_verify kc (m_hmacKey (rq_state rq)) d"
    using assms(1,4) rq(1) x by (auto split: if_splits)
  moreover obtain u where u: "parseParameterData api ossl d (rq_state rq) = Inr u"
    using assms(1,4) rq(1) x by (auto simp: set_code_def split: if_splits sum.splits fault.splits)
  moreover have "m_verifyToBeSignedCallback signer u"
    using assms(1,4) rq(1) x u by (auto simp: set_code_def split: if_splits)
  ultimately have r: "rq' = (case ndnGenBLSSignature_data api bls (m_sk signer) u of
      Inl e \<Rightarrow> set_code OK rq | Inr v \<Rightarrow> (set_code OK rq)\<lparr>rq_state := (rq_state (set_code OK rq))\<lparr>m_signatureValue := v\<rparr>\<rparr>)"
    using assms(1) x by (auto simp: Let_def split: sum.splits)
  have "m_aesKey (rq_state rq') = m_aesKey (rq_state rq)"
    by (simp add: r set_code_def split: sum.split)
  from parse_parameter_key [OF this, of api ossl d] u have "parseParameterData api ossl d (rq_state rq') = Inr u" by simp
  moreover have "m_signatureValue (rq_state rq') = piece_of api bls signer u"
    using rq(2) by (simp add: r set_code_def piece_of_def split: sum.split)
  ultimately show ?thesis using x \<open>m_verifyToBeSignedCallback signer u\<close> by blast
qed

lemma parameter_reply_ok:
  assumes ok: "net_ok api bls ossl kc prefix signers r ud s"
    and fine: "\<And>d. x = FetchedData d \<Longrightarrow> param_fine s (n, q, d)"
    and enabled: "signer_enabled (nw_signers s n) (ParameterReply q x)"
  shows "net_ok api bls ossl kc prefix signers r ud
    (s\<lparr>nw_signers := (nw_signers s)(n := signer_handle api bls ossl kc (signers n) (nw_signers s n) (ParameterReply q x))\<rparr>)"
proof -
  note O = net_okD [OF ok]
  let ?rq = "net_requests s n ! q"
  obtain rq' f where h: "onParameterReply api bls ossl kc (signers n) x ?rq = (rq', f)" by force
  have q: "q < length (net_requests s n)" "rq_fetching ?rq" using enabled by simp_all
  let ?w' = "signer_handle api bls ossl kc (signers n) (nw_signers s n) (ParameterReply q x)"
  have rqs: "sw_requests ?w' = (net_requests s n)[q := rq'\<lparr>rq_fetching := False\<rparr>]" by (simp add: h)
  show ?thesis
  proof (rule net_ok_request [OF ok enabled refl])
    show "length (sw_requests ?w') = length (net_requests s n)" unfolding rqs by simp
    fix p j
    assume linked: "linked s n p j" and fetching: "rq_fetching (net_requests s n ! p)"
      and code: "m_code (rq_state (sw_requests ?w' ! p)) = OK"
    note S = linked_request(3) [OF O(7) linked]
    have [simp]: "p = q"
    proof (rule ccontr)
      assume "p \<noteq> q"
      with code [unfolded rqs] fetching S show False by (simp add: request_ok_def Let_def)
    qed
    have code': "m_code (rq_state rq') = OK" using code [unfolded rqs] q by simp
    obtain d u where d: "x = FetchedData d" "parseParameterData api ossl d (rq_state rq') = Inr u"
      "m_verifyToBeSignedCallback (signers n) u" "m_signatureValue (rq_state rq') = piece_of api bls (signers n) u"
      using parameter_signed [OF h _ q(2) code'] S by auto
    obtain k where k: "linked s n q k" "ps_paraDataReady (net_calls s ! k)" "d = ps_paraData (net_calls s ! k)"
      using fine [OF d(1)] by auto
    have "linked s n q j" using linked by simp
    from linked_unique [OF this k(1) O(5,3)] have [simp]: "j = k" .
    show "request_signed api bls ossl (signers n) (net_calls s ! j) (rq_state (sw_requests ?w' ! p))"
      unfolding rqs using d k q by (auto simp: request_signed_def)
  qed
qed

section \<open>The result\<close>

lemma timer_fires_ok:
  assumes laws: "net_laws api bls skAdd ossl kc" and ok: "net_ok api bls ossl kc prefix signers r ud s"
    and enabled: "initiator_enabled (nw_initiator s) (ResultTimer k)"
  shows "net_ok api bls ossl kc prefix signers r ud (network_handle api bls ossl kc prefix signers s (TimerFires k))"
proof -
  note O = net_okD [OF ok]
  let ?w = "nw_initiator s" and ?ps = "net_calls s ! k"
  have k: "k < length (net_calls s)" and phase: "ps_phase ?ps = ResultScheduled" using enabled by simp_all
  have good: "call_good api bls ossl (length prefix + 3) (unfinished api r ud prefix) signers s k ?ps" by (rule O(4) [OF k])
  then have ready: "ps_paraDataReady ?ps" using phase by (simp add: call_good_def)
  let ?ps' = "?ps\<lparr>ps_paraPrefixHandle := False, ps_phase := AwaitResult\<rparr>"
  obtain j where "key_sign_interest kc (g_signingKeyName (iw_global ?w))
      ((new_interest (ps_nextResultName ?ps))\<lparr>i_canBePrefix := True, i_mustBeFresh := True\<rparr>) = Inr j"
    using key_signed_interest [OF net_lawsD(5) [OF laws]] by metis
  then have h: "initiator_handle api bls ossl kc prefix ?w (ResultTimer k) = emit [SendInterest j] (set_call k ?ps' ?w)"
    by (simp add: onResultTimer_def Let_def)
  have td: "g_toBeSigned (iw_global ?w) = unfinished api r ud prefix" by (rule net_ok_active(2) [OF ok k]) (simp add: phase)
  have "net_ok api bls ossl kc prefix signers r ud (s\<lparr>nw_initiator := emit [SendInterest j] (set_call k ?ps' ?w)\<rparr>)"
    using call_good_phase(2) [OF good, of AwaitResult False] ready
    by (intro net_ok_one [OF ok enabled k h, of ?ps']) (simp_all add: set_call_frame td)
  then show ?thesis using h by (simp add: network_handle_def)
qed

text \<open>The Interest for the result reaches the request that belongs to the call.\<close>

lemma asked_request:
  assumes ok: "net_ok api bls ossl kc prefix signers r ud s" and k: "k < length (net_calls s)"
    and ready: "ps_paraDataReady (net_calls s ! k)"
    and name: "i_name i \<noteq> []" "butlast (i_name i) = ps_nextResultName (net_calls s ! k)"
    and q: "q < length (net_requests s (ps_signerKeyName (net_calls s ! k)))"
      "is_prefix_of (rq_resultPrefix (net_requests s (ps_signerKeyName (net_calls s ! k)) ! q)) (i_name i)"
  shows "linked s (ps_signerKeyName (net_calls s ! k)) q k"
    and "keys_match api (net_calls s ! k) (net_requests s (ps_signerKeyName (net_calls s ! k)) ! q)"
    and "length (i_name i) = length (m_prefix (signers (ps_signerKeyName (net_calls s ! k)))) + 5"
proof -
  note O = net_okD [OF ok]
  let ?ps = "net_calls s ! k"
  let ?n = "ps_signerKeyName ?ps"
  have "call_good api bls ossl (length prefix + 3) (unfinished api r ud prefix) signers s k ?ps" by (rule O(4) [OF k])
  then obtain p where p: "linked s ?n p k" "keys_match api ?ps (net_requests s ?n ! p)"
    using ready by (auto simp: call_good_def)
  have shape: "\<exists>x. rq_resultPrefix rq = result_name api (m_prefix (signers ?n)) x" if "rq \<in> set (net_requests s ?n)" for rq
    using O(7) that by (simp add: requests_good_def)
  have pl: "p < length (net_requests s ?n)" using p(1) by (simp add: linked_def)
  have len: "length (rq_resultPrefix (net_requests s ?n ! j)) = length (m_prefix (signers ?n)) + 3"
    if "j < length (net_requests s ?n)" for j
    using shape [OF nth_mem [OF that]] by (auto simp: result_name_def)
  have next_name: "ps_nextResultName ?ps = rq_resultPrefix (net_requests s ?n ! p) @ [comp_of_version api 0]"
    using p(2) by (simp add: keys_match_def)
  have i: "i_name i = rq_resultPrefix (net_requests s ?n ! p) @ [comp_of_version api 0, last (i_name i)]"
    using append_butlast_last_id [OF name(1)] name(2) next_name by simp
  have "rq_resultPrefix (net_requests s ?n ! q) = take (length (m_prefix (signers ?n)) + 3) (i_name i)"
    using q(2) len [OF q(1)] by (simp add: is_prefix_of_def)
  also have "\<dots> = rq_resultPrefix (net_requests s ?n ! p)"
    by (subst i) (simp add: len [OF pl])
  finally have "map rq_resultPrefix (net_requests s ?n) ! q = map rq_resultPrefix (net_requests s ?n) ! p"
    using q(1) pl by simp
  moreover have "distinct (map rq_resultPrefix (net_requests s ?n))" using O(7) by (simp add: requests_good_def)
  ultimately have "q = p" using q(1) pl nth_eq_iff_index_eq [of "map rq_resultPrefix (net_requests s ?n)" q p] by (simp only: length_map)
  with p show "linked s ?n q k" "keys_match api ?ps (net_requests s ?n ! q)" by simp_all
  show "length (i_name i) = length (m_prefix (signers ?n)) + 5"
    using arg_cong [OF i, of length] by (simp add: len [OF pl])
qed

lemma ask_arrives_ok:
  assumes laws: "net_laws api bls skAdd ossl kc" and ok: "net_ok api bls ossl kc prefix signers r ud s"
    and guard: "network_guard api kc signers s (AskArrives k q rnd i)"
    and enabled: "signer_enabled (nw_signers s (ps_signerKeyName (net_calls s ! k))) (ResultInterest q rnd i)"
  shows "net_ok api bls ossl kc prefix signers r ud (network_handle api bls ossl kc prefix signers s (AskArrives k q rnd i))"
proof -
  note L = net_lawsD [OF laws] and O = net_okD [OF ok]
  let ?n = "ps_signerKeyName (net_calls s ! k)"
  let ?rq = "net_requests s ?n ! q"
  have q: "q < length (net_requests s ?n)" "is_prefix_of (rq_resultPrefix ?rq) (i_name i)" using enabled by simp_all
  note A = asked_request [OF ok _ _ _ _ q]
  have k: "k < length (net_calls s)" using guard by simp
  have ready: "ps_paraDataReady (net_calls s ! k)" using guard by simp
  have linked: "linked s ?n q k"
    and match: "keys_match api (net_calls s ! k) ?rq" and len: "length (i_name i) = length (m_prefix (signers ?n)) + 5"
    using guard by (auto intro: A)
  obtain d rq' where h: "onResultInterest api ossl kc (signers ?n) rnd i ?rq = (rq', [PutData d], None)"
    and d: "hmac_verify kc (m_hmacKey (rq_state ?rq)) d" "\<And>ps :: ('a, 'g) per_signer. ps_aesKey ps = m_aesKey (rq_state ?rq) \<Longrightarrow>
      parseResultData api ossl d ps = Inr (result_elements api (rq_resultPrefix ?rq) (rq_state ?rq))"
    using result_made [OF L(2-5) linked_request(1) [OF O(7) linked] len] by metis
  let ?w' = "signer_handle api bls ossl kc (signers ?n) (nw_signers s ?n) (ResultInterest q rnd i)"
  let ?s1 = "s\<lparr>nw_signers := (nw_signers s)(?n := ?w')\<rparr>"
  have rqs: "sw_requests ?w' = (net_requests s ?n)[q := rq']" by (simp add: h)
  note st = onResultInterest_state [OF h]
  have "net_ok api bls ossl kc prefix signers r ud ?s1"
  proof (rule net_ok_request [OF ok enabled refl])
    show "length (sw_requests ?w') = length (net_requests s ?n)" unfolding rqs by simp
    fix p j
    assume l: "linked s ?n p j" and "rq_fetching (net_requests s ?n ! p)" and code: "m_code (rq_state (sw_requests ?w' ! p)) = OK"
    then have "m_code (rq_state (net_requests s ?n ! p)) = Processing"
      using linked_request(3) [OF O(7) l] by (simp add: request_ok_def Let_def)
    then have "m_code (rq_state (sw_requests ?w' ! p)) \<noteq> OK"
      unfolding rqs using st q(1) by (cases "p = q") auto
    with code show "request_signed api bls ossl (signers ?n) (net_calls s ! j) (rq_state (sw_requests ?w' ! p))" by simp
  qed
  moreover have "result_fine api ossl kc ?s1 (k, q, d)"
  proof -
    have keys: "m_aesKey (rq_state rq') = m_aesKey (rq_state ?rq)" "m_hmacKey (rq_state rq') = m_hmacKey (rq_state ?rq)"
      "rq_resultPrefix rq' = rq_resultPrefix ?rq" "m_code (rq_state rq') = m_code (rq_state ?rq)"
      "m_signatureValue (rq_state rq') = m_signatureValue (rq_state ?rq)"
      using st by auto
    have at: "net_requests ?s1 ?n ! q = rq'" using q(1) by (simp add: h)
    have "result_ok api ossl kc d rq'"
      unfolding result_ok_def keys using d by blast
    moreover have "keys_match api (net_calls ?s1 ! k) rq'" using match keys by (simp add: keys_match_def)
    moreover have "linked ?s1 ?n q k" using linked q(1) by (simp add: linked_def h)
    moreover have "ps_paraDataReady (net_calls ?s1 ! k)" using ready by simp
    ultimately show ?thesis unfolding result_fine.simps using at by metis
  qed
  ultimately have "net_ok api bls ossl kc prefix signers r ud (?s1\<lparr>nw_acks := nw_acks ?s1 @ [],
      nw_params := nw_params ?s1 @ [], nw_results := nw_results ?s1 @ [(k, q, d)]\<rparr>)"
    by (intro net_ok_packets) simp_all
  then show ?thesis by (simp add: network_handle_def h signer_news_def Let_def)
qed

text \<open>A piece that arrives is the one that the signer made for the packet of the run.\<close>

lemma piece_made:
  assumes "packet_laws api" and "d_sigInfo td \<noteq> None"
  shows "ndnGenBLSSignature_data api bls (m_sk signer) td = Inr (piece_of api bls signer td)"
  using data_ranges_unsigned [OF assms] by (auto simp: piece_of_def ndnGenBLSSignature_data_def)

lemma result_arrives_ok:
  assumes laws: "net_laws api bls skAdd ossl kc" and ok: "net_ok api bls ossl kc prefix signers r ud s"
    and mem: "(k, q, d) \<in> set (nw_results s)"
    and enabled: "initiator_enabled (nw_initiator s) (ResultReply k (FetchedData d) rnd)"
    and names: "distinct (param_names (iw_calls (initiator_handle api bls ossl kc prefix (nw_initiator s) (ResultReply k (FetchedData d) rnd))))"
  shows "net_ok api bls ossl kc prefix signers r ud (network_handle api bls ossl kc prefix signers s (ResultArrives k q d rnd))"
proof -
  note L = net_lawsD [OF laws] and O = net_okD [OF ok]
  let ?w = "nw_initiator s" and ?ps = "net_calls s ! k" and ?td = "unfinished api r ud prefix"
  let ?e = "ResultReply k (FetchedData d) rnd"
  have k: "k < length (net_calls s)" and phase: "ps_phase ?ps = AwaitResult" using enabled by simp_all
  have good: "call_good api bls ossl (length prefix + 3) ?td signers s k ?ps" by (rule O(4) [OF k])
  have td: "g_toBeSigned (iw_global ?w) = ?td" by (rule net_ok_active(2) [OF ok k]) (simp add: phase)
  have "result_fine api ossl kc s (k, q, d)" using O(6) mem unfolding packets_ok_def by blast
  then obtain n where n: "linked s n q k" "ps_paraDataReady ?ps" "keys_match api ?ps (net_requests s n ! q)"
    "result_ok api ossl kc d (net_requests s n ! q)"
    by auto
  let ?rq = "net_requests s n ! q"
  have name: "ps_signerKeyName ?ps = n" using n(1) by (simp add: linked_def)
  have keys: "ps_aesKey ?ps = m_aesKey (rq_state ?rq)" "ps_hmacKey ?ps = m_hmacKey (rq_state ?rq)"
    using n(3) by (simp_all add: keys_match_def)
  obtain p and st :: "'g sign_request" where r: "hmac_verify kc (m_hmacKey (rq_state ?rq)) d"
    "\<And>ps :: ('a, 'g) per_signer. ps_aesKey ps = m_aesKey (rq_state ?rq) \<Longrightarrow>
      parseResultData api ossl d ps = Inr (result_elements api p st)"
    "m_code st = OK \<Longrightarrow> m_code (rq_state ?rq) = OK \<and> m_signatureValue st = m_signatureValue (rq_state ?rq)"
    using n(4) unfolding result_ok_def by blast
  have st: "hmac_verify kc (ps_hmacKey ?ps) d"
    "parseResultData api ossl d (?ps\<lparr>ps_phase := Ended\<rparr>) = Inr (result_elements api p st)"
    using r(1,2) keys by simp_all
  note step = result_step [OF L(2) st, of bls prefix rnd]
  have "net_ok api bls ossl kc prefix signers r ud (s\<lparr>nw_initiator := initiator_handle api bls ossl kc prefix ?w ?e\<rparr>)"
  proof (cases "m_code st = OK \<or> m_code st = Processing")
    case False
    then show ?thesis
      using step phase by (intro net_ok_unavailable [OF ok laws enabled k _ _ names]) simp_all
  next
    case True
    show ?thesis
    proof (cases "m_code st = OK")
      case False
      then have h: "initiator_handle api bls ossl kc prefix ?w ?e =
          emit [ScheduleFetch ESTIMATE_PROCESS_TIME] (set_call k (?ps\<lparr>ps_phase := ResultScheduled\<rparr>) ?w)"
        using step True by simp
      show ?thesis unfolding h
        using call_good_phase(1) [OF good, of ResultScheduled] n(2)
        by (intro net_ok_one [OF ok enabled k h, of "?ps\<lparr>ps_phase := ResultScheduled\<rparr>"]) (simp_all add: set_call_frame td)
    next
      case True
      let ?b = "m_signatureValue st"
      let ?ps' = "?ps\<lparr>ps_phase := Delivered ?b\<rparr>"
      have h: "initiator_handle api bls ossl kc prefix ?w ?e = addSignature api bls kc ?b (set_call k ?ps' ?w)"
        using step True by simp
      have code: "m_code (rq_state ?rq) = OK" "?b = m_signatureValue (rq_state ?rq)" using r(3) True by simp_all
      have "request_signed api bls ossl (signers n) ?ps (rq_state ?rq)"
        using O(7) n(1) code(1) by (simp add: requests_good_def)
      then obtain u where u: "parseParameterData api ossl (ps_paraData ?ps) (rq_state ?rq) = Inr u"
        "m_verifyToBeSignedCallback (signers n) u" "m_signatureValue (rq_state ?rq) = piece_of api bls (signers n) u"
        by (auto simp: request_signed_def)
      have "parseParameterData api ossl (ps_paraData ?ps) (rq_state ?rq) = Inr ?td"
        using good n(2) keys(1) by (auto simp: call_good_def)
      with u(1) have "u = ?td" by simp
      then have "call_good api bls ossl (length prefix + 3) ?td signers s k ?ps'"
        using good n(2) name code(2) u(2,3) piece_made [OF L(3) unfinished_sigInfo, of bls]
        by (auto simp: call_good_def keys_match_def)
      moreover note A = addSignature_result [OF L(5), of api bls ?b "set_call k ?ps' ?w"]
      have "g_toBeSigned (iw_global (addSignature api bls kc ?b (set_call k ?ps' ?w))) = ?td"
        if none: "successes (addSignature api bls kc ?b (set_call k ?ps' ?w)) = []"
      proof (cases "Suc (length (g_fetchedSignatures (iw_global (set_call k ?ps' ?w)))) = length (g_signers (iw_global (set_call k ?ps' ?w)))")
        case True
        with A none show ?thesis by (auto simp: successes_def)
      next
        case False
        then have "addSignature api bls kc ?b (set_call k ?ps' ?w) = (set_call k ?ps' ?w)\<lparr>iw_global :=
            (iw_global (set_call k ?ps' ?w))\<lparr>g_fetchedSignatures := g_fetchedSignatures (iw_global (set_call k ?ps' ?w)) @ [?b]\<rparr>\<rparr>"
          using A by simp
        then show ?thesis using td by (simp add: set_call_def)
      qed
      moreover have "iw_calls (addSignature api bls kc ?b (set_call k ?ps' ?w)) = (net_calls s)[k := ?ps']"
        using A by (simp add: set_call_frame)
      ultimately show ?thesis unfolding h by (intro net_ok_one [OF ok enabled k h, of ?ps']) simp_all
    qed
  qed
  then show ?thesis by (simp add: network_handle_def)
qed

section \<open>Every execution\<close>

lemma lost_handled:
  assumes "lost_reply x"
  shows "\<exists>what. initiator_handle api bls ossl kc prefix w (AckReply k x iv rnd) = onNoReply api ossl kc prefix rnd what k w"
    and "\<exists>what. initiator_handle api bls ossl kc prefix w (ResultReply k x rnd) = onNoReply api ossl kc prefix rnd what k w"
  using assms by (cases x; auto)+

lemma reply_lost_ok:
  assumes laws: "net_laws api bls skAdd ossl kc" and ok: "net_ok api bls ossl kc prefix signers r ud s"
    and enabled: "initiator_enabled (nw_initiator s) e" and k: "k < length (net_calls s)"
    and active: "ps_phase (net_calls s ! k) \<in> {AwaitAck, ResultScheduled, AwaitResult}"
    and lost: "\<exists>what. initiator_handle api bls ossl kc prefix (nw_initiator s) e = onNoReply api ossl kc prefix rnd what k (nw_initiator s)"
    and names: "distinct (param_names (iw_calls (initiator_handle api bls ossl kc prefix (nw_initiator s) e)))"
  shows "net_ok api bls ossl kc prefix signers r ud (s\<lparr>nw_initiator := initiator_handle api bls ossl kc prefix (nw_initiator s) e\<rparr>)"
proof -
  obtain what where "initiator_handle api bls ossl kc prefix (nw_initiator s) e = onNoReply api ossl kc prefix rnd what k (nw_initiator s)"
    using lost by blast
  then show ?thesis
    by (intro net_ok_unavailable [OF ok laws enabled k active _ names]) (simp add: onNoReply_def Let_def)
qed

lemma network_step_ok:
  assumes laws: "net_laws api bls skAdd ossl kc" and ok: "net_ok api bls ossl kc prefix signers r ud s"
    and enabled: "network_enabled api bls ossl kc prefix signers s e"
  shows "net_ok api bls ossl kc prefix signers r ud (network_handle api bls ossl kc prefix signers s e)"
proof -
  have E: "network_guard api kc signers s e"
    "\<And>x. initiator_part e = Some x \<Longrightarrow> initiator_enabled (nw_initiator s) x"
    "\<And>n x. signer_part s e = Some (n, x) \<Longrightarrow> signer_enabled (nw_signers s n) x"
    "distinct (param_names (net_calls (network_handle api bls ossl kc prefix signers s e)))"
    using enabled by (auto simp: network_enabled_def)
  show ?thesis
  proof (cases e)
    case (RequestArrives k rr i)
    then show ?thesis using E(1) request_arrives_ok [OF laws ok] by blast
  next
    case (AckArrives k q d iv rnd)
    then show ?thesis using E(1,2) by (intro ack_arrives_ok [OF laws ok] | simp)+
  next
    case (FetchArrives n q k)
    then show ?thesis using E(1) E(2) [of "ParameterInterest k"] fetch_arrives_ok [OF ok, of n q _ k] by auto
  next
    case (ParameterArrives n q d)
    have "param_fine s (n, q, d)" using E(1) net_okD(6) [OF ok] ParameterArrives unfolding packets_ok_def by auto
    then show ?thesis
      using parameter_reply_ok [OF ok, of "FetchedData d" n q] E(3) ParameterArrives by (simp add: network_handle_def)
  next
    case (TimerFires k)
    then show ?thesis using E(2) timer_fires_ok [OF laws ok] by simp
  next
    case (AskArrives k q rnd i)
    then show ?thesis using E(1,3) ask_arrives_ok [OF laws ok] by simp
  next
    case (ResultArrives k q d rnd)
    then show ?thesis using E result_arrives_ok [OF laws ok, of k q d rnd] by (simp add: network_handle_def)
  next
    case (AckLost k x rnd)
    then show ?thesis
      using E(2) E(4) reply_lost_ok [OF laws ok _ _ _ lost_handled(1)] E(1)
      by (simp add: network_handle_def)
  next
    case (ResultLost k x rnd)
    then show ?thesis
      using E(2) E(4) reply_lost_ok [OF laws ok _ _ _ lost_handled(2)] E(1)
      by (simp add: network_handle_def)
  next
    case (ParameterLost n q x)
    then have "x \<noteq> FetchedData d" for d using E(1) by auto
    then show ?thesis
      using parameter_reply_ok [OF ok, of x n q] E(3) ParameterLost by (simp add: network_handle_def)
  qed
qed

lemma network_start_ok:
  assumes laws: "net_laws api bls skAdd ossl kc"
    and run: "multiPartySign api ossl kc prefix r rnd c ud schema key = Inr w" and "trusted_key c [] = None"
    and "distinct (param_names (iw_calls w))"
  shows "net_ok api bls ossl kc prefix signers r ud (network_start w)"
proof -
  note C = run_begins [OF net_lawsD(4,5) [OF laws] run]
  have "exec initiator_enabled (initiator_handle api bls ossl kc prefix) w [] w" by simp
  then have "initiator_reach api bls ossl kc prefix r ud w"
    unfolding initiator_reach_def using run assms(3) by blast
  moreover have "call_good api bls ossl (length prefix + 3) (unfinished api r ud prefix) signers (network_start w) k (iw_calls w ! k)"
    if "k < length (iw_calls w)" for k
  proof -
    have "fresh_call api ossl prefix (unfinished api r ud prefix) (iw_calls w ! k)" using C that by simp
    then show ?thesis by (auto simp: call_good_def fresh_call_def prepareParameterData_def new_data_def)
  qed
  ultimately show ?thesis
    using C assms(4) by (simp add: net_ok_def network_start_def fetches_ok_def packets_ok_def requests_good_def
        linked_def signer_start_def signer_inv_def)
qed

text \<open>The closed system as an event system with the invariant.\<close>

definition net_inv ::
  "('c::linorder, 'z) packet_api_scheme \<Rightarrow> ('sk, 'pk, 'sig, 'y) bls_api_scheme \<Rightarrow> ('sk \<Rightarrow> 'sk \<Rightarrow> 'sk) \<Rightarrow>
   ('priv, 'o) ossl_api_scheme \<Rightarrow> ('c, 'x) keychain_api_scheme \<Rightarrow> 'c name \<Rightarrow>
   ('c name \<Rightarrow> ('c, 'sk, 'pk) bls_signer) \<Rightarrow> nat \<Rightarrow> 'c data \<Rightarrow> ('c, 'pk, 'priv) network \<Rightarrow> bool" where
  "net_inv api bls skAdd ossl kc prefix signers r ud s \<longleftrightarrow> net_laws api bls skAdd ossl kc \<and>
     net_ok api bls ossl kc prefix signers r ud s"

interpretation net_run: invariant_system
  "network_enabled api bls ossl kc prefix signers" "network_handle api bls ossl kc prefix signers"
  "net_inv api bls skAdd ossl kc prefix signers r ud"
  by unfold_locales (unfold net_inv_def, blast intro: network_step_ok)

text \<open>A network that a run can lead to.\<close>

definition network_reach ::
  "('c::linorder, 'z) packet_api_scheme \<Rightarrow> ('sk, 'pk, 'sig, 'y) bls_api_scheme \<Rightarrow> ('priv, 'o) ossl_api_scheme \<Rightarrow>
   ('c, 'x) keychain_api_scheme \<Rightarrow> 'c name \<Rightarrow> ('c name \<Rightarrow> ('c, 'sk, 'pk) bls_signer) \<Rightarrow> nat \<Rightarrow> 'c data \<Rightarrow>
   ('c, 'pk, 'priv) network \<Rightarrow> bool" where
  "network_reach api bls ossl kc prefix signers r ud s \<longleftrightarrow> (\<exists>rnd c schema key w es.
     trusted_key c [] = None \<and> multiPartySign api ossl kc prefix r rnd c ud schema key = Inr w \<and>
     distinct (param_names (iw_calls w)) \<and>
     exec (network_enabled api bls ossl kc prefix signers) (network_handle api bls ossl kc prefix signers) (network_start w) es s)"

lemma network_reach_ok:
  assumes "net_laws api bls skAdd ossl kc" and "network_reach api bls ossl kc prefix signers r ud s"
  shows "net_ok api bls ossl kc prefix signers r ud s"
proof -
  obtain rnd c schema key w es where w: "trusted_key c [] = None"
    "multiPartySign api ossl kc prefix r rnd c ud schema key = Inr w" "distinct (param_names (iw_calls w))"
    "exec (network_enabled api bls ossl kc prefix signers) (network_handle api bls ossl kc prefix signers) (network_start w) es s"
    using assms(2) unfolding network_reach_def by blast
  have "net_inv api bls skAdd ossl kc prefix signers r ud (network_start w)"
    using network_start_ok [OF assms(1) w(2,1,3)] assms(1) by (simp add: net_inv_def)
  from net_run.exec_inv [OF w(4) this] show ?thesis by (simp add: net_inv_def)
qed

section \<open>The pieces of a run\<close>

lemma network_piece:
  assumes "net_laws api bls skAdd ossl kc" and "network_reach api bls ossl kc prefix signers r ud s"
    and "ps \<in> set (net_calls s)" and "ps_phase ps = Delivered b"
  shows "m_verifyToBeSignedCallback (signers (ps_signerKeyName ps)) (unfinished api r ud prefix)"
    and "ndnGenBLSSignature_data api bls (m_sk (signers (ps_signerKeyName ps))) (unfinished api r ud prefix) = Inr b"
proof -
  obtain k where "k < length (net_calls s)" "ps = net_calls s ! k" using assms(3) by (auto simp: in_set_conv_nth)
  with net_okD(4) [OF network_reach_ok [OF assms(1,2)]] assms(4)
  show "m_verifyToBeSignedCallback (signers (ps_signerKeyName ps)) (unfinished api r ud prefix)"
    "ndnGenBLSSignature_data api bls (m_sk (signers (ps_signerKeyName ps))) (unfinished api r ud prefix) = Inr b"
    by (auto simp: call_good_def)
qed

end
