(* ===== verification/Network_Run.thy ===== *)
theory Network_Run
  imports Network_Steps
begin

text \<open>
  The closed system can finish. When the signers accept the sign requests and approve the packet
  of the run, the network has an execution in which every call gets its piece, with packets of the
  two programs only (\<open>network_completes\<close>): one call after the other is taken through
  its seven events.
\<close>

section \<open>One call\<close>

lemma network_enabledI:
  assumes "net_ok api bls ossl kc prefix signers r ud s" and "network_guard api kc signers s e"
    and "\<And>x. initiator_part e = Some x \<Longrightarrow> initiator_enabled (nw_initiator s) x"
    and "\<And>n x. signer_part s e = Some (n, x) \<Longrightarrow> signer_enabled (nw_signers s n) x"
    and "param_names (net_calls (network_handle api bls ossl kc prefix signers s e)) = param_names (net_calls s)"
  shows "network_enabled api bls ossl kc prefix signers s e"
  using assms net_okD(3) [OF assms(1)] by (auto simp: network_enabled_def split: option.split)

lemma net_exec_ok:
  assumes "net_laws api bls skAdd ossl kc" and "net_ok api bls ossl kc prefix signers r ud s"
    and "exec (network_enabled api bls ossl kc prefix signers) (network_handle api bls ossl kc prefix signers) s es t"
  shows "net_ok api bls ossl kc prefix signers r ud t"
  using net_run.exec_inv [OF assms(3), of skAdd r ud] assms(1,2) by (simp add: net_inv_def)

text \<open>The sign request reaches the signer, which starts its first request.\<close>

lemma request_stage:
  assumes laws: "net_laws api bls skAdd ossl kc" and ok: "net_ok api bls ossl kc prefix signers r ud s"
    and k: "k < length (net_calls s)" and n: "ps_signerKeyName (net_calls s ! k) = n"
    and none: "net_requests s n = []" and m_prefix: "m_prefix (signers n) = name_prefix_neg n 2"
    and accepts: "\<forall>i. m_verifySignRequestCallback (signers n) i"
    and sent: "call_request api kc (g_signingKeyName (iw_global (nw_initiator s))) (net_calls s ! k) = Inr sent"
    and digest: "interest_digest_valid api (sent\<lparr>i_name := i_name sent @ [x]\<rparr>)"
  obtains e t rq ack f where "network_enabled api bls ossl kc prefix signers s e"
    and "network_handle api bls ossl kc prefix signers s e = t"
    and "nw_initiator t = nw_initiator s" "\<And>m. m \<noteq> n \<Longrightarrow> nw_signers t m = nw_signers s m"
    and "net_requests t n = [rq]" "rq_fetching rq" "m_code (rq_state rq) = Processing" "m_resultPrefixHandle (rq_state rq)"
    and "(k, 0, ack) \<in> set (nw_acks t)" "(n, 0, f) \<in> set (nw_fetches t)" "i_name f = d_name (ps_paraData (net_calls s ! k))"
    and "ack_ok api ossl (m_privkey (ps_ecdh (net_calls s ! k))) ack rq"
proof -
  define rr where "rr = \<lparr>rr_ecdh = 0, rr_salt = (\<lambda>_. 0), rr_requestId = 0, rr_iv = (\<lambda>_. 0)\<rparr>"
  let ?i = "sent\<lparr>i_name := i_name sent @ [x]\<rparr>" and ?ps = "net_calls s ! k" and ?rp = "result_name api (m_prefix (signers n)) 0"
  note params = call_params [OF laws ok k sent]
  have params': "i_appParams ?i = block_with api TLV_ApplicationParameters
    [nested_block api tlv_ParameterDataName (name_wire api (d_name (ps_paraData ?ps))),
     Blk tlv_EcdhPub (ossl_pub ossl (m_privkey (ps_ecdh ?ps)))]" using params by simp
  obtain rq ack f where h: "onSignRequest api bls ossl (signers n) rr ?i [] = ([] @ [rq],
      [RegisterFilter (result_name api (m_prefix (signers n)) (rr_requestId rr)), PutData ack, FetchParameter f], None)"
    "m_code (rq_state rq) = Processing" "rq_fetching rq" "m_resultPrefixHandle (rq_state rq)"
    "i_name f = d_name (ps_paraData ?ps)" "ack_ok api ossl (m_privkey (ps_ecdh ?ps)) ack rq"
    by (rule request_accepted [OF laws params' spec [OF accepts] digest, of rr "[]"]) blast
  let ?e = "RequestArrives k rr ?i"
  let ?t = "network_handle api bls ossl kc prefix signers s ?e"
  have t: "?t = s\<lparr>nw_signers := (nw_signers s)(n := \<lparr>sw_requests = [rq], sw_sent = sw_sent (nw_signers s n) @
        [RegisterFilter ?rp, PutData ack, FetchParameter f], sw_faults = sw_faults (nw_signers s n)\<rparr>),
      nw_fetches := nw_fetches s @ [(n, 0, f)], nw_acks := nw_acks s @ [(k, 0, ack)]\<rparr>"
    using h(1) by (simp add: network_handle_def n none signer_news_def fault_list_def rr_def)
  have "m_pubKey (ps_ecdh ?ps) = ossl_pub ossl (m_privkey (ps_ecdh ?ps))"
    using net_okD(4) [OF ok k] by (simp add: call_good_def)
  note name = call_request_sent(2) [OF net_lawsD(5) [OF laws] sent this, unfolded n]
  have "network_guard api kc signers s ?e"
    using k sent by (simp add: Let_def n none m_prefix name is_prefix_of_def)
  then have E: "network_enabled api bls ossl kc prefix signers s ?e"
    by (rule network_enabledI [OF ok]) (simp_all only: t, simp_all)
  show ?thesis by (rule that [OF E t _ _ _ h(3,2,4) _ _ h(5,6)]) simp_all
qed

text \<open>The acknowledgement reaches the call.\<close>

lemma ack_stage:
  assumes laws: "net_laws api bls skAdd ossl kc" and ok: "net_ok api bls ossl kc prefix signers r ud s"
    and k: "k < length (net_calls s)" "ps_signerKeyName (net_calls s ! k) = n" "ps_phase (net_calls s ! k) = AwaitAck"
    and "\<not> blocked (nw_initiator s)" and rq: "net_requests s n = [rq]"
    and mem: "(k, 0, ack) \<in> set (nw_acks s)" "(n, 0, f) \<in> set (nw_fetches s)"
    and f: "i_name f = d_name (ps_paraData (net_calls s ! k))"
    and ack: "ack_ok api ossl (m_privkey (ps_ecdh (net_calls s ! k))) ack rq"
  obtains e t ps where "network_enabled api bls ossl kc prefix signers s e"
    and "network_handle api bls ossl kc prefix signers s e = t"
    and "nw_initiator t = emit [ScheduleFetch ESTIMATE_PROCESS_TIME] (set_call k ps (nw_initiator s))"
    and "nw_signers t = nw_signers s" "nw_fetches t = nw_fetches s"
    and "ps_signerKeyName ps = n" "d_name (ps_paraData ps) = d_name (ps_paraData (net_calls s ! k))"
    and "ps_phase ps = ResultScheduled" "ps_paraPrefixHandle ps = ps_paraPrefixHandle (net_calls s ! k)"
    and "hmac_verify kc (ps_hmacKey ps) (ps_paraData ps)"
proof -
  have linked: "linked s n 0 k" unfolding linked_def using k mem(2) f rq by auto
  obtain ps where ps: "onAckData api ossl kc (\<lambda>_. 0) k ack (nw_initiator s) =
      emit [ScheduleFetch ESTIMATE_PROCESS_TIME] (set_call k ps (nw_initiator s))"
    "call_later (net_calls s ! k) ps" "ps_phase ps = ResultScheduled"
    "ps_paraPrefixHandle ps = ps_paraPrefixHandle (net_calls s ! k)" "hmac_verify kc (ps_hmacKey ps) (ps_paraData ps)"
    by (rule ack_released [OF laws ok linked _ k(3), of ack "\<lambda>_. 0"]) (use ack rq in simp)
  let ?e = "AckArrives k 0 ack (\<lambda>_. 0) (\<lambda>_. undefined)"
  have t: "network_handle api bls ossl kc prefix signers s ?e =
      s\<lparr>nw_initiator := emit [ScheduleFetch ESTIMATE_PROCESS_TIME] (set_call k ps (nw_initiator s))\<rparr>"
    using ps(1) by (simp add: network_handle_def)
  have same: "ps_signerKeyName ps = n" "d_name (ps_paraData ps) = d_name (ps_paraData (net_calls s ! k))"
    using ps(2) k(2) by (simp_all add: call_later_def)
  have "network_enabled api bls ossl kc prefix signers s ?e"
    by (rule network_enabledI [OF ok]) (simp_all only: t, simp_all add: mem(1) k assms(6) set_call_frame param_names_update same(2))
  then show ?thesis using ps(3-5) same by (intro that [OF _ t]) simp_all
qed

text \<open>The signer fetches the parameters, approves the packet and signs it.\<close>

lemma scheduled_request:
  assumes ok: "net_ok api bls ossl kc prefix signers r ud s"
    and k: "k < length (net_calls s)" "ps_phase (net_calls s ! k) \<in> {ResultScheduled, AwaitResult}"
    and n: "ps_signerKeyName (net_calls s ! k) = n" and rq: "net_requests s n = [rq]"
  shows "ps_paraDataReady (net_calls s ! k)" and "linked s n 0 k" and "keys_match api (net_calls s ! k) rq"
    and "m_aesKey st = ps_aesKey (net_calls s ! k) \<Longrightarrow>
      parseParameterData api ossl (ps_paraData (net_calls s ! k)) st = Inr (unfinished api r ud prefix)"
proof -
  have good: "call_good api bls ossl (length prefix + 3) (unfinished api r ud prefix) signers s k (net_calls s ! k)"
    by (rule net_okD(4) [OF ok k(1)])
  then show ready: "ps_paraDataReady (net_calls s ! k)" using k(2) by (auto simp: call_good_def)
  obtain q where q: "linked s n q k" "keys_match api (net_calls s ! k) (net_requests s n ! q)"
    using good ready n by (auto simp: call_good_def)
  moreover have [simp]: "q = 0" using q(1) rq by (simp add: linked_def)
  ultimately show "linked s n 0 k" "keys_match api (net_calls s ! k) rq" using rq by simp_all
  show "parseParameterData api ossl (ps_paraData (net_calls s ! k)) st = Inr (unfinished api r ud prefix)"
    if "m_aesKey st = ps_aesKey (net_calls s ! k)"
    using good ready that by (auto simp: call_good_def)
qed

lemma parameter_stage:
  assumes laws: "net_laws api bls skAdd ossl kc" and ok: "net_ok api bls ossl kc prefix signers r ud s"
    and k: "k < length (net_calls s)" "ps_phase (net_calls s ! k) = ResultScheduled"
    and n: "ps_signerKeyName (net_calls s ! k) = n" and rq: "net_requests s n = [rq]" "rq_fetching rq"
    and "\<not> blocked (nw_initiator s)" "ps_paraPrefixHandle (net_calls s ! k)"
    and mac: "hmac_verify kc (ps_hmacKey (net_calls s ! k)) (ps_paraData (net_calls s ! k))"
    and f: "(n, 0, f) \<in> set (nw_fetches s)" "i_name f = d_name (ps_paraData (net_calls s ! k))"
    and approves: "m_verifyToBeSignedCallback (signers n) (unfinished api r ud prefix)"
  obtains es t rq' where "exec (network_enabled api bls ossl kc prefix signers) (network_handle api bls ossl kc prefix signers) s es t"
    and "nw_initiator t = emit [PutParameter (ps_paraData (net_calls s ! k))] (nw_initiator s)"
    and "\<And>m. m \<noteq> n \<Longrightarrow> nw_signers t m = nw_signers s m" and "net_requests t n = [rq']"
    and "m_code (rq_state rq') = OK" "m_resultPrefixHandle (rq_state rq') = m_resultPrefixHandle (rq_state rq)"
proof -
  let ?ps = "net_calls s ! k" and ?td = "unfinished api r ud prefix"
  let ?pd = "ps_paraData ?ps"
  note R = scheduled_request [OF ok k(1) _ n rq(1)]
  have ready: "ps_paraDataReady ?ps" and match: "keys_match api ?ps rq" using R(1,3) k(2) by simp_all
  have parse: "parseParameterData api ossl ?pd (rq_state rq) = Inr ?td"
    using R(4) [of "rq_state rq"] k(2) match by (simp add: keys_match_def)
  let ?e1 = "FetchArrives n 0 k" and ?e2 = "ParameterArrives n 0 ?pd"
  define t1 where "t1 = network_handle api bls ossl kc prefix signers s ?e1"
  have t1: "t1 = s\<lparr>nw_initiator := emit [PutParameter ?pd] (nw_initiator s), nw_params := nw_params s @ [(n, 0, ?pd)]\<rparr>"
    using ready by (simp add: t1_def network_handle_def onParameterInterest_def initiator_news_def emit_def)
  have guard1: "network_guard api kc signers s ?e1" using f k(1) by force
  have E1: "network_enabled api bls ossl kc prefix signers s ?e1"
    by (rule network_enabledI [OF ok guard1])
      (simp_all only: t1_def [symmetric] t1, simp_all add: assms(8,9) k(1) emit_def)
  from network_step_ok [OF laws ok E1] have ok1: "net_ok api bls ossl kc prefix signers r ud t1" by (simp add: t1_def)
  let ?rq = "(set_code OK rq)\<lparr>rq_state := (rq_state (set_code OK rq))\<lparr>m_signatureValue := piece_of api bls (signers n) ?td\<rparr>, rq_fetching := False\<rparr>"
  have reply: "onParameterReply api bls ossl kc (signers n) (FetchedData ?pd) rq =
      ((set_code OK rq)\<lparr>rq_state := (rq_state (set_code OK rq))\<lparr>m_signatureValue := piece_of api bls (signers n) ?td\<rparr>\<rparr>, None)"
  proof -
    have "ndnGenBLSSignature_data api bls (m_sk (signers n)) ?td = Inr (piece_of api bls (signers n) ?td)"
      by (rule piece_made [OF net_lawsD(3) [OF laws] unfinished_sigInfo])
    then show ?thesis using mac match parse approves by (simp add: keys_match_def Let_def)
  qed
  define t2 where "t2 = network_handle api bls ossl kc prefix signers t1 ?e2"
  have t2: "t2 = t1\<lparr>nw_signers := (nw_signers s)(n := (nw_signers s n)\<lparr>sw_requests := [?rq]\<rparr>)\<rparr>"
    using rq(1) reply by (simp add: t2_def network_handle_def t1 fault_list_def)
  have E2: "network_enabled api bls ossl kc prefix signers t1 ?e2"
    by (rule network_enabledI [OF ok1]) (simp_all only: t2_def [symmetric] t2, simp_all add: t1 rq)
  have "exec (network_enabled api bls ossl kc prefix signers) (network_handle api bls ossl kc prefix signers) s [?e1, ?e2] t2"
    using E1 E2 by (simp add: t1_def [symmetric] t2_def [symmetric])
  then show ?thesis by (rule that [of _ t2 ?rq]) (simp_all add: t2 t1 set_code_def)
qed

text \<open>The call asks for the result and gets its piece.\<close>

lemma result_stage:
  assumes laws: "net_laws api bls skAdd ossl kc" and ok: "net_ok api bls ossl kc prefix signers r ud s"
    and k: "k < length (net_calls s)" "ps_phase (net_calls s ! k) = ResultScheduled"
    and n: "ps_signerKeyName (net_calls s ! k) = n" and rq: "net_requests s n = [rq]" "m_code (rq_state rq) = OK"
      "m_resultPrefixHandle (rq_state rq)"
    and nb: "\<not> blocked (nw_initiator s)"
  obtains es t w ps b where "exec (network_enabled api bls ossl kc prefix signers) (network_handle api bls ossl kc prefix signers) s es t"
    and "nw_initiator t = addSignature api bls kc b w" "iw_calls w = (net_calls s)[k := ps]" "ps_phase ps = Delivered b"
    and "ps_signerKeyName ps = n" "iw_global w = iw_global (nw_initiator s)" "\<not> blocked w"
    and "\<And>m. m \<noteq> n \<Longrightarrow> nw_signers t m = nw_signers s m"
proof -
  let ?w = "nw_initiator s" and ?ps = "net_calls s ! k" and ?rnd = "\<lambda>_ :: nat. undefined :: call_random"
  let ?psA = "?ps\<lparr>ps_paraPrefixHandle := False, ps_phase := AwaitResult\<rparr>"
  obtain j where "key_sign_interest kc (g_signingKeyName (iw_global ?w))
      ((new_interest (ps_nextResultName ?ps))\<lparr>i_canBePrefix := True, i_mustBeFresh := True\<rparr>) = Inr j"
    using key_signed_interest [OF net_lawsD(5) [OF laws]] by metis
  then have timer: "onResultTimer kc k ?w = emit [SendInterest j] (set_call k ?psA ?w)"
    by (simp add: onResultTimer_def Let_def)
  define t1 where "t1 = network_handle api bls ossl kc prefix signers s (TimerFires k)"
  have t1: "t1 = s\<lparr>nw_initiator := emit [SendInterest j] (set_call k ?psA ?w)\<rparr>"
    by (simp add: t1_def network_handle_def timer)
  have calls1: "net_calls t1 = (net_calls s)[k := ?psA]" by (simp add: t1 set_call_frame)
  have E1: "network_enabled api bls ossl kc prefix signers s (TimerFires k)"
    by (rule network_enabledI [OF ok])
      (simp_all only: t1_def [symmetric] calls1, simp_all add: k nb param_names_update)
  from network_step_ok [OF laws ok E1] have ok1: "net_ok api bls ossl kc prefix signers r ud t1" by (simp add: t1_def)
  have at1: "net_calls t1 ! k = ?psA" "k < length (net_calls t1)" "net_requests t1 n = [rq]" "nw_signers t1 = nw_signers s"
    using k(1) rq(1) by (simp_all add: calls1) (simp_all add: t1)
  have nb1: "\<not> blocked (nw_initiator t1)" unfolding t1 by simp (rule not_blocked_emit [OF nb], simp)
  have match: "keys_match api ?psA rq"
    using scheduled_request(3) [OF ok1 at1(2) _ _ at1(3)] at1(1) n by simp
  let ?i = "new_interest (ps_nextResultName ?ps @ [comp_of_version api 0])"
  let ?e2 = "AskArrives k 0 (\<lambda>_. 0) ?i"
  have name: "ps_nextResultName ?ps = rq_resultPrefix rq @ [comp_of_version api 0]" using match by (simp add: keys_match_def)
  have ready1: "ps_paraDataReady (net_calls t1 ! k)"
    using scheduled_request(1) [OF ok k(1) _ n rq(1)] k(2) at1(1) by simp
  have guard2: "network_guard api kc signers t1 ?e2" using at1 ready1 by (simp add: new_interest_def)
  have prefix2: "is_prefix_of (rq_resultPrefix rq) (i_name ?i)" by (simp add: new_interest_def name)
  have linked1: "linked t1 n 0 k" using scheduled_request(2) [OF ok1 at1(2) _ _ at1(3)] at1(1) n by simp
  have len: "length (i_name ?i) = length (m_prefix (signers n)) + 5"
    using asked_request(3) [OF ok1 at1(2), of ?i 0] guard2 at1 n prefix2 by simp
  obtain d rq' where result: "onResultInterest api ossl kc (signers n) (\<lambda>_. 0) ?i rq = (rq', [PutData d], None)"
    and d: "hmac_verify kc (m_hmacKey (rq_state rq)) d"
      "\<And>ps. ps_aesKey ps = m_aesKey (rq_state rq) \<Longrightarrow>
        parseResultData api ossl d ps = Inr (result_elements api (rq_resultPrefix rq) (rq_state rq))"
  proof (rule result_made [OF net_lawsD(2-5) [OF laws] _ len, of rq "\<lambda>_. 0"])
    show "length (m_aesKey (rq_state rq)) = 16"
      using linked_request(1) [OF net_okD(7) [OF ok1] linked1] at1(3) by simp
  qed (use that in blast)
  define t2 where "t2 = network_handle api bls ossl kc prefix signers t1 ?e2"
  have t2: "t2 = t1\<lparr>nw_signers := (nw_signers s)(n := \<lparr>sw_requests = [rq'], sw_sent = sw_sent (nw_signers s n) @ [PutData d],
        sw_faults = sw_faults (nw_signers s n)\<rparr>), nw_results := nw_results t1 @ [(k, 0, d)]\<rparr>"
    using rq(1) result at1 n by (simp add: t2_def network_handle_def signer_news_def fault_list_def)
  have E2: "network_enabled api bls ossl kc prefix signers t1 ?e2"
    by (rule network_enabledI [OF ok1 guard2])
      (simp_all only: t2_def [symmetric] t2, insert at1 n rq prefix2, auto)
  from network_step_ok [OF laws ok1 E2] have ok2: "net_ok api bls ossl kc prefix signers r ud t2" by (simp add: t2_def)
  let ?b = "m_signatureValue (rq_state rq)" and ?e3 = "ResultArrives k 0 d ?rnd" and ?w1 = "nw_initiator t1"
  let ?w = "set_call k (?psA\<lparr>ps_phase := Delivered ?b\<rparr>) ?w1"
  have step: "onResultData api bls ossl kc prefix ?rnd k d ?w1 = addSignature api bls kc ?b ?w"
  proof -
    have "hmac_verify kc (ps_hmacKey (net_calls t1 ! k)) d"
      "parseResultData api ossl d ((net_calls t1 ! k)\<lparr>ps_phase := Ended\<rparr>) = Inr (result_elements api (rq_resultPrefix rq) (rq_state rq))"
      using d match at1(1) by (simp_all add: keys_match_def)
    from result_step [OF net_lawsD(2) [OF laws] this] rq(2) at1(1) show ?thesis by simp
  qed
  define t3 where "t3 = network_handle api bls ossl kc prefix signers t2 ?e3"
  have t3: "t3 = t2\<lparr>nw_initiator := addSignature api bls kc ?b ?w\<rparr>"
    using step by (simp add: t3_def network_handle_def t2)
  have calls: "iw_calls ?w = (net_calls s)[k := ?psA\<lparr>ps_phase := Delivered ?b\<rparr>]"
    by (simp add: set_call_frame calls1)
  have "iw_calls (addSignature api bls kc ?b ?w) = (net_calls s)[k := ?psA\<lparr>ps_phase := Delivered ?b\<rparr>]"
    using conjunct1 [OF addSignature_result [OF net_lawsD(5) [OF laws], of api bls ?b ?w]] unfolding calls .
  then have "param_names (net_calls t3) = param_names (net_calls t2)"
    using k(1) by (simp add: t3 t2 calls1 param_names_update)
  then have E3: "network_enabled api bls ossl kc prefix signers t2 ?e3"
    by (intro network_enabledI [OF ok2]) (simp_all only: t3_def [symmetric], auto simp: t2 at1 nb1)
  have "exec (network_enabled api bls ossl kc prefix signers) (network_handle api bls ossl kc prefix signers) s
      [TimerFires k, ?e2, ?e3] t3"
    using E1 E2 E3 by (simp add: t1_def [symmetric] t2_def [symmetric] t3_def [symmetric])
  then show ?thesis
  proof (rule that [of _ t3 ?b ?w "?psA\<lparr>ps_phase := Delivered ?b\<rparr>"])
    show "\<not> blocked ?w" using nb1 by (simp add: blocked_def set_call_def)
    show "iw_global ?w = iw_global (nw_initiator s)" by (simp add: set_call_def t1 emit_def)
  qed (use n calls in \<open>simp_all add: t3 t2\<close>)
qed

section \<open>The run\<close>

text \<open>What is asked of the signer of a call, and of the Interest that reaches it.\<close>

definition willing :: "('c, 'sk, 'pk) bls_signer \<Rightarrow> 'c data \<Rightarrow> 'c name \<Rightarrow> bool" where
  "willing signer td n \<longleftrightarrow> m_prefix signer = name_prefix_neg n 2 \<and> m_verifyToBeSignedCallback signer td \<and>
     (\<forall>i. m_verifySignRequestCallback signer i)"

definition deliverable :: "('c, 'z) packet_api_scheme \<Rightarrow> 'c interest \<Rightarrow> bool" where
  "deliverable api sent \<longleftrightarrow> (\<exists>x. interest_digest_valid api (sent\<lparr>i_name := i_name sent @ [x]\<rparr>))"

definition all_willing ::
  "('c, 'z) packet_api_scheme \<Rightarrow> ('c, 'x) keychain_api_scheme \<Rightarrow> ('c name \<Rightarrow> ('c, 'sk, 'pk) bls_signer) \<Rightarrow>
   'c data \<Rightarrow> ('c, 'pk, 'priv) initiator_world \<Rightarrow> bool" where
  "all_willing api kc signers td w \<longleftrightarrow> (\<forall>ps \<in> set (iw_calls w). willing (signers (ps_signerKeyName ps)) td (ps_signerKeyName ps) \<and>
     (\<forall>sent. call_request api kc (g_signingKeyName (iw_global w)) ps = Inr sent \<longrightarrow> deliverable api sent))"

text \<open>The calls from \<open>m\<close> on have not been touched, nor their signers.\<close>

definition net_progress ::
  "('c, 'z) packet_api_scheme \<Rightarrow> ('c, 'x) keychain_api_scheme \<Rightarrow> ('c name \<Rightarrow> ('c, 'sk, 'pk) bls_signer) \<Rightarrow>
   'c data \<Rightarrow> nat \<Rightarrow> ('c, 'pk, 'priv) network \<Rightarrow> bool" where
  "net_progress api kc signers td m s \<longleftrightarrow> \<not> blocked (nw_initiator s) \<and>
     g_signers (iw_global (nw_initiator s)) = map ps_signerKeyName (net_calls s) \<and>
     distinct (map ps_signerKeyName (net_calls s)) \<and> length (g_fetchedSignatures (iw_global (nw_initiator s))) = m \<and>
     (\<forall>k < length (net_calls s). m \<le> k \<longrightarrow> ps_phase (net_calls s ! k) = AwaitAck \<and> ps_paraPrefixHandle (net_calls s ! k) \<and>
        net_requests s (ps_signerKeyName (net_calls s ! k)) = [] \<and>
        willing (signers (ps_signerKeyName (net_calls s ! k))) td (ps_signerKeyName (net_calls s ! k)) \<and>
        (\<forall>sent. call_request api kc (g_signingKeyName (iw_global (nw_initiator s))) (net_calls s ! k) = Inr sent \<longrightarrow> deliverable api sent))"

text \<open>One call through its seven events.\<close>

lemma call_served:
  assumes laws: "net_laws api bls skAdd ossl kc" and ok: "net_ok api bls ossl kc prefix signers r ud s"
    and progress: "net_progress api kc signers (unfinished api r ud prefix) k s" and k: "k < length (net_calls s)"
  obtains es t w ps b where "exec (network_enabled api bls ossl kc prefix signers) (network_handle api bls ossl kc prefix signers) s es t"
    and "nw_initiator t = addSignature api bls kc b w" "iw_calls w = (net_calls s)[k := ps]" "ps_phase ps = Delivered b"
    and "ps_signerKeyName ps = ps_signerKeyName (net_calls s ! k)" "iw_global w = iw_global (nw_initiator s)" "\<not> blocked w"
    and "\<And>m. m \<noteq> ps_signerKeyName (net_calls s ! k) \<Longrightarrow> nw_signers t m = nw_signers s m"
proof -
  let ?n = "ps_signerKeyName (net_calls s ! k)" and ?td = "unfinished api r ud prefix"
  let ?enabled = "network_enabled api bls ossl kc prefix signers" and ?handle = "network_handle api bls ossl kc prefix signers"
  have P: "\<not> blocked (nw_initiator s)" "ps_phase (net_calls s ! k) = AwaitAck" "ps_paraPrefixHandle (net_calls s ! k)"
    "net_requests s ?n = []" "willing (signers ?n) ?td ?n"
    "\<And>sent. call_request api kc (g_signingKeyName (iw_global (nw_initiator s))) (net_calls s ! k) = Inr sent \<Longrightarrow> deliverable api sent"
    using progress k by (simp_all add: net_progress_def)
  have W: "m_prefix (signers ?n) = name_prefix_neg ?n 2" "\<forall>i. m_verifySignRequestCallback (signers ?n) i"
    "m_verifyToBeSignedCallback (signers ?n) ?td"
    using P(5) by (simp_all add: willing_def)
  obtain sent where sent: "call_request api kc (g_signingKeyName (iw_global (nw_initiator s))) (net_calls s ! k) = Inr sent"
    using key_signed_interest [OF net_lawsD(5) [OF laws]] unfolding call_request_def by metis
  obtain x where x: "interest_digest_valid api (sent\<lparr>i_name := i_name sent @ [x]\<rparr>)"
    using P(6) [OF sent] unfolding deliverable_def by blast
  obtain e1 t1 rq ack f where S1: "?enabled s e1" "?handle s e1 = t1" "nw_initiator t1 = nw_initiator s"
    "\<And>m. m \<noteq> ?n \<Longrightarrow> nw_signers t1 m = nw_signers s m" "net_requests t1 ?n = [rq]" "rq_fetching rq" "m_resultPrefixHandle (rq_state rq)"
    "(k, 0, ack) \<in> set (nw_acks t1)" "(?n, 0, f) \<in> set (nw_fetches t1)" "i_name f = d_name (ps_paraData (net_calls s ! k))"
    "ack_ok api ossl (m_privkey (ps_ecdh (net_calls s ! k))) ack rq"
    by (rule request_stage [OF laws ok k refl P(4) W(1,2) sent x]) blast
  have ok1: "net_ok api bls ossl kc prefix signers r ud t1" using network_step_ok [OF laws ok S1(1)] S1(2) by simp
  obtain e2 t2 ps where S2: "?enabled t1 e2" "?handle t1 e2 = t2"
    "nw_initiator t2 = emit [ScheduleFetch ESTIMATE_PROCESS_TIME] (set_call k ps (nw_initiator t1))"
    "nw_signers t2 = nw_signers t1" "nw_fetches t2 = nw_fetches t1" "ps_signerKeyName ps = ?n"
    "d_name (ps_paraData ps) = d_name (ps_paraData (net_calls t1 ! k))" "ps_phase ps = ResultScheduled"
    "ps_paraPrefixHandle ps = ps_paraPrefixHandle (net_calls t1 ! k)" "hmac_verify kc (ps_hmacKey ps) (ps_paraData ps)"
    by (rule ack_stage [OF laws ok1, of k ?n rq ack f]) (use S1 k P in simp_all)
  have ok2: "net_ok api bls ossl kc prefix signers r ud t2" using network_step_ok [OF laws ok1 S2(1)] S2(2) by simp
  have calls2: "net_calls t2 = (net_calls s)[k := ps]" "iw_global (nw_initiator t2) = iw_global (nw_initiator s)"
    by (simp_all add: S2(3) S1(3) set_call_frame)
  have nb2: "\<not> blocked (nw_initiator t2)" unfolding S2(3) S1(3) by (rule not_blocked_emit [OF P(1)]) simp
  obtain es3 t3 rq' where S3: "exec ?enabled ?handle t2 es3 t3"
    "nw_initiator t3 = emit [PutParameter (ps_paraData (net_calls t2 ! k))] (nw_initiator t2)"
    "\<And>m. m \<noteq> ?n \<Longrightarrow> nw_signers t3 m = nw_signers t2 m" "net_requests t3 ?n = [rq']"
    "m_code (rq_state rq') = OK" "m_resultPrefixHandle (rq_state rq') = m_resultPrefixHandle (rq_state rq)"
    by (rule parameter_stage [OF laws ok2, of k ?n rq f])
      (use S1 S2 k P W(3) calls2 nb2 in simp_all)
  have ok3: "net_ok api bls ossl kc prefix signers r ud t3" by (rule net_exec_ok [OF laws ok2 S3(1)])
  have calls3: "net_calls t3 = (net_calls s)[k := ps]" "iw_global (nw_initiator t3) = iw_global (nw_initiator s)"
    by (simp_all add: S3(2) calls2 emit_def)
  have nb3: "\<not> blocked (nw_initiator t3)" using nb2 by (simp add: S3(2) blocked_def emit_def)
  obtain es4 t4 w ps' b where S4: "exec ?enabled ?handle t3 es4 t4" "nw_initiator t4 = addSignature api bls kc b w"
    "iw_calls w = (net_calls t3)[k := ps']" "ps_phase ps' = Delivered b" "ps_signerKeyName ps' = ?n"
    "iw_global w = iw_global (nw_initiator t3)" "\<not> blocked w" "\<And>m. m \<noteq> ?n \<Longrightarrow> nw_signers t4 m = nw_signers t3 m"
    by (rule result_stage [OF laws ok3, of k ?n rq']) (use S1(7) S2(6,8) S3(4-6) k calls3 nb3 in simp_all)
  have "exec ?enabled ?handle s [e1, e2] t2" using S1(1,2) S2(1,2) by simp
  with S3(1) S4(1) have "exec ?enabled ?handle s (([e1, e2] @ es3) @ es4) t4" unfolding exec_append by blast
  then show ?thesis
    by (rule that [of _ t4 b w ps']) (use S1 S2 S3 S4 calls3 in simp_all)
qed

lemma net_progress_step:
  assumes laws: "net_laws api bls skAdd ossl kc" and ok: "net_ok api bls ossl kc prefix signers r ud s"
    and progress: "net_progress api kc signers (unfinished api r ud prefix) m s" and m: "m < length (net_calls s)"
  obtains es t where "exec (network_enabled api bls ossl kc prefix signers) (network_handle api bls ossl kc prefix signers) s es t"
    and "if Suc m < length (net_calls s) then net_progress api kc signers (unfinished api r ud prefix) (Suc m) t
      else successes (nw_initiator t) \<noteq> []"
    and "length (net_calls t) = length (net_calls s)" "g_signers (iw_global (nw_initiator t)) = g_signers (iw_global (nw_initiator s))"
proof -
  let ?td = "unfinished api r ud prefix" and ?n = "length (net_calls s)" and ?g = "iw_global (nw_initiator s)"
  obtain es t w ps b where S: "exec (network_enabled api bls ossl kc prefix signers) (network_handle api bls ossl kc prefix signers) s es t"
    "nw_initiator t = addSignature api bls kc b w" "iw_calls w = (net_calls s)[m := ps]" "ps_phase ps = Delivered b"
    "ps_signerKeyName ps = ps_signerKeyName (net_calls s ! m)" "iw_global w = ?g" "\<not> blocked w"
    "\<And>n. n \<noteq> ps_signerKeyName (net_calls s ! m) \<Longrightarrow> nw_signers t n = nw_signers s n"
    by (rule call_served [OF laws ok progress m]) blast
  have P: "g_signers ?g = map ps_signerKeyName (net_calls s)" "distinct (map ps_signerKeyName (net_calls s))"
    "length (g_fetchedSignatures ?g) = m"
    using progress by (simp_all add: net_progress_def)
  note A = addSignature_result [OF net_lawsD(5) [OF laws], of api bls b w, folded S(2), unfolded S(3,6)]
  have calls: "net_calls t = (net_calls s)[m := ps]" using A by simp
  have names: "map ps_signerKeyName (net_calls t) = map ps_signerKeyName (net_calls s)"
    using m S(5) by (simp add: calls map_update) (metis length_map list_update_id nth_map)
  show ?thesis
  proof (rule that [OF S(1)])
    show "length (net_calls t) = ?n" by (simp add: calls)
    show "g_signers (iw_global (nw_initiator t)) = g_signers ?g" using A by simp
    show "if Suc m < ?n then net_progress api kc signers ?td (Suc m) t else successes (nw_initiator t) \<noteq> []"
    proof (cases "Suc m < ?n")
      case False
      then have "Suc m = ?n" using m by simp
      then show ?thesis using A P by (auto simp: successes_def)
    next
      case True
      then have t: "nw_initiator t = w\<lparr>iw_global := ?g\<lparr>g_fetchedSignatures := g_fetchedSignatures ?g @ [b]\<rparr>\<rparr>"
        using A P by simp
      have g: "\<not> blocked (nw_initiator t)" "g_signers (iw_global (nw_initiator t)) = g_signers ?g"
        "g_signingKeyName (iw_global (nw_initiator t)) = g_signingKeyName ?g"
        "length (g_fetchedSignatures (iw_global (nw_initiator t))) = Suc m"
        using S(7) P(3) by (simp_all add: t blocked_def)
      have rest: "net_calls t ! k = net_calls s ! k \<and>
          nw_signers t (ps_signerKeyName (net_calls s ! k)) = nw_signers s (ps_signerKeyName (net_calls s ! k))"
        if "k < ?n" "Suc m \<le> k" for k
      proof -
        have "map ps_signerKeyName (net_calls s) ! k \<noteq> map ps_signerKeyName (net_calls s) ! m"
          using P(2) that m by (subst nth_eq_iff_index_eq) simp_all
        then show ?thesis using that m S(8) by (simp add: calls)
      qed
      have "length (net_calls t) = ?n" by (simp add: calls)
      then have "net_progress api kc signers ?td (Suc m) t"
        using progress rest g P(1) names unfolding net_progress_def by simp
      then show ?thesis using True by simp
    qed
  qed
qed

lemma net_progress_succeeds:
  assumes laws: "net_laws api bls skAdd ossl kc" and "net_ok api bls ossl kc prefix signers r ud s"
    and "net_progress api kc signers (unfinished api r ud prefix) m s" and "m < length (net_calls s)"
  shows "\<exists>es t. exec (network_enabled api bls ossl kc prefix signers) (network_handle api bls ossl kc prefix signers) s es t \<and>
    successes (nw_initiator t) \<noteq> [] \<and> g_signers (iw_global (nw_initiator t)) = g_signers (iw_global (nw_initiator s))"
  using assms(2-4)
proof (induction "length (net_calls s) - m" arbitrary: m s)
  case 0
  then show ?case by simp
next
  case (Suc x)
  obtain es t where E: "exec (network_enabled api bls ossl kc prefix signers) (network_handle api bls ossl kc prefix signers) s es t"
    and o: "if Suc m < length (net_calls s) then net_progress api kc signers (unfinished api r ud prefix) (Suc m) t
      else successes (nw_initiator t) \<noteq> []"
    and l: "length (net_calls t) = length (net_calls s)" and g: "g_signers (iw_global (nw_initiator t)) = g_signers (iw_global (nw_initiator s))"
    by (rule net_progress_step [OF laws Suc.prems])
  show ?case
  proof (cases "Suc m < length (net_calls s)")
    case False
    with E o g show ?thesis by auto
  next
    case True
    have "x = length (net_calls t) - Suc m" using l Suc.hyps(2) by simp
    from Suc.hyps(1) [OF this net_exec_ok [OF laws Suc.prems(1) E]] True o l
    obtain fs u where F: "exec (network_enabled api bls ossl kc prefix signers) (network_handle api bls ossl kc prefix signers) t fs u"
      "successes (nw_initiator u) \<noteq> []" "g_signers (iw_global (nw_initiator u)) = g_signers (iw_global (nw_initiator t))" by auto
    have "exec (network_enabled api bls ossl kc prefix signers) (network_handle api bls ossl kc prefix signers) s (es @ fs) u"
      unfolding exec_append using E F(1) by blast
    with F(2,3) g show ?thesis by auto
  qed
qed

lemma network_completes:
  assumes laws: "net_laws api bls skAdd ossl kc"
    and run: "multiPartySign api ossl kc prefix r rnd c ud schema key = Inr w" and "g_signers (iw_global w) \<noteq> []"
    and empty: "trusted_key c [] = None" and names: "distinct (param_names (iw_calls w))"
    and willing: "all_willing api kc signers (unfinished api r ud prefix) w"
  shows "\<exists>es s. exec (network_enabled api bls ossl kc prefix signers) (network_handle api bls ossl kc prefix signers) (network_start w) es s \<and>
    successes (nw_initiator s) \<noteq> [] \<and> g_signers (iw_global (nw_initiator s)) = g_signers (iw_global w)"
proof -
  let ?td = "unfinished api r ud prefix"
  note B = run_begins [OF net_lawsD(4,5) [OF laws] run]
  have ok: "net_ok api bls ossl kc prefix signers r ud (network_start w)" by (rule network_start_ok [OF laws run empty names])
  have "distinct (g_signers (iw_global w))"
    using multiPartySign_ok [OF run empty, of bls] by (simp add: session_ok_def calls_ok_def)
  then have d: "distinct (map ps_signerKeyName (iw_calls w))" using B by simp
  have start: "net_progress api kc signers ?td 0 (network_start w)"
    unfolding net_progress_def
  proof (intro conjI allI impI)
    fix k assume "k < length (net_calls (network_start w))"
    then have mem: "net_calls (network_start w) ! k \<in> set (iw_calls w)" by (simp add: network_start_def)
    let ?ps = "net_calls (network_start w) ! k"
    have "fresh_call api ossl prefix ?td ?ps" using B mem by blast
    then show "ps_phase ?ps = AwaitAck" "ps_paraPrefixHandle ?ps" by (simp_all add: fresh_call_def)
    show "net_requests (network_start w) (ps_signerKeyName ?ps) = []" by (simp add: network_start_def signer_start_def)
    show "willing (signers (ps_signerKeyName ?ps)) ?td (ps_signerKeyName ?ps)"
      using willing mem by (simp add: all_willing_def)
    show "deliverable api sent"
      if "call_request api kc (g_signingKeyName (iw_global (nw_initiator (network_start w)))) ?ps = Inr sent" for sent
      using willing mem that by (simp add: all_willing_def network_start_def)
  qed (use B d in \<open>simp_all add: network_start_def\<close>)
  have "0 < length (net_calls (network_start w))"
    using B assms(3) by (cases "iw_calls w") (auto simp: network_start_def)
  from net_progress_succeeds [OF laws ok start this] show ?thesis by (simp add: network_start_def)
qed

text \<open>The parameter names of the calls differ when the random numbers do.\<close>

lemma performRPCs_names:
  assumes "ossl_laws ossl" and "keychain_laws kc"
  shows "param_names (iw_calls (performRPCs api ossl kc prefix rnd items w)) = param_names (iw_calls w) @
    map (\<lambda>j. d_name (prepareParameterData api (cr_param (rnd j)) td prefix)) [0..<length items]"
proof (induction items arbitrary: rnd w)
  case Nil
  show ?case by simp
next
  case (Cons n rest)
  have name: "d_name (prepareParameterData api x u prefix) = d_name (prepareParameterData api x td prefix)" for x u
    by (simp add: prepareParameterData_def new_data_def)
  obtain ps sent where p: "performRPC api ossl kc prefix (rnd 0) n (iw_global w) =
      ([ps], [RegisterParameter (d_name (ps_paraData ps)), SendInterest sent], None)"
    "d_name (ps_paraData ps) = d_name (prepareParameterData api (cr_param (rnd 0)) (g_toBeSigned (iw_global w)) prefix)"
    using performRPC_starts [OF assms] by metis
  have "d_name (ps_paraData ps) = d_name (prepareParameterData api (cr_param (rnd 0)) td prefix)"
    unfolding p(2) by (rule name)
  then show ?case
    using Cons.IH [of "rnd \<circ> Suc", unfolded o_def param_names_def] p(1)
    by (simp add: fault_list_def Let_def param_names_def map_upt_Suc o_def del: upt_Suc)
qed

lemma start_names:
  assumes "ossl_laws ossl" and "keychain_laws kc"
    and run: "multiPartySign api ossl kc prefix r rnd c ud schema key = Inr w"
    and inj: "inj (\<lambda>j. comp_of_number api (cr_param (rnd j)))"
  shows "distinct (param_names (iw_calls w))"
proof -
  obtain signers w0 where w: "w = performRPCs api ossl kc prefix rnd signers w0" "iw_calls w0 = []"
  proof -
    obtain td si where p: "prepareUnfinishedDataAndInfoData api r ud prefix = (td, si)" by force
    show ?thesis using run by (auto simp: multiPartySign_def res_bind_Inr_iff Let_def p intro: that)
  qed
  have "inj (\<lambda>j. d_name (prepareParameterData api (cr_param (rnd j)) ud prefix))"
    using inj by (simp add: inj_def prepareParameterData_def new_data_def)
  then have "inj_on (\<lambda>j. d_name (prepareParameterData api (cr_param (rnd j)) ud prefix)) {0..<length signers}"
    by (rule inj_on_subset) simp
  then show ?thesis
    unfolding w(1) performRPCs_names [OF assms(1,2), where td = ud] w(2) by (simp add: param_names_def distinct_map)
qed

section \<open>What is reported\<close>

lemma piece_list_delivered:
  assumes "piece_list p \<noteq> []"
  obtains b where "p = Delivered b"
  using assms by (cases p) simp_all

lemma network_reported:
  assumes laws: "net_laws api bls skAdd ossl kc" and reach: "network_reach api bls ossl kc prefix signers r ud s"
    and success: "(d, i) \<in> set (successes (nw_initiator s))"
  shows "\<forall>n \<in> set (g_signers (iw_global (nw_initiator s))). m_verifyToBeSignedCallback (signers n) (unfinished api r ud prefix)"
    and "d\<lparr>d_sigValue := []\<rparr> = unfinished api r ud prefix"
    and "comm_add skAdd \<Longrightarrow>
      \<forall>n \<in> set (g_signers (iw_global (nw_initiator s))). trusted_key c n = Some (blsGetPublicKey bls (m_sk (signers n))) \<Longrightarrow>
      container_passSchema api c (d_name ud) (g_signers (iw_global (nw_initiator s))) \<Longrightarrow> verify api bls c d i = Inr True"
    and "\<exists>f. asyncVerify d = Inr [ExpressInterest f] \<and> is_prefix_of (i_name f) (d_name i)"
proof -
  let ?td = "unfinished api r ud prefix" and ?w = "nw_initiator s"
  note L = net_lawsD [OF laws] and piece = network_piece [OF laws reach]
  have init: "initiator_reach api bls ossl kc prefix r ud ?w"
    by (rule net_okD(1) [OF network_reach_ok [OF laws reach]])
  note ok = reach_ok [OF init]
  then have c: "calls_ok ?w" "length (g_fetchedSignatures (iw_global ?w)) = length (g_signers (iw_global ?w))"
    using success by (auto simp: session_ok_def)
  show "d\<lparr>d_sigValue := []\<rparr> = ?td" using ok success by (auto simp: session_ok_def)
  show "\<forall>n \<in> set (g_signers (iw_global ?w)). m_verifyToBeSignedCallback (signers n) ?td"
  proof
    fix n assume "n \<in> set (g_signers (iw_global ?w))"
    then have "n \<in> set (delivered (iw_calls ?w))" using calls_ok_complete [OF c] by simp
    then obtain ps b where "ps \<in> set (iw_calls ?w)" "ps_phase ps = Delivered b" "ps_signerKeyName ps = n"
      by (auto simp: delivered_def elim: piece_list_delivered)
    then show "m_verifyToBeSignedCallback (signers n) ?td" using piece(1) by blast
  qed
  have "info_for api d (g_signers (iw_global ?w)) i"
    by (rule success_info_for [OF L(5) ok success]) (rule unfinished_props)
  then show "\<exists>f. asyncVerify d = Inr [ExpressInterest f] \<and> is_prefix_of (i_name f) (d_name i)"
    by (auto simp: info_for_def asyncVerify_def new_interest_def split: sum.splits)
  have pieces: "\<forall>ps \<in> set (iw_calls ?w). \<forall>b. ps_phase ps = Delivered b \<longrightarrow>
      ndnGenBLSSignature_data api bls (m_sk (signers (ps_signerKeyName ps))) ?td = Inr b"
    using piece(2) by blast
  show "verify api bls c d i = Inr True"
    if "comm_add skAdd" "\<forall>n \<in> set (g_signers (iw_global ?w)). trusted_key c n = Some (blsGetPublicKey bls (m_sk (signers n)))"
      "container_passSchema api c (d_name ud) (g_signers (iw_global ?w))"
    by (rule reported_verifies [OF L(1) that(1) L(2,3,5) init success pieces that(2,3)])
qed

end
