(* ===== verification/Collection.thy ===== *)
theory Collection
  imports Network_Run
begin

text \<open>
  What a run does, without packets and calls: it collects one piece from each of a list of signers.
  A signer that has given its piece stays on the list, another one can be replaced, and the
  collection is closed, and reported, when the last listed signer gives its piece. The initiator
  implements this specification, alone with arbitrary packets and in the closed system: two
  interpretations of the locale \<open>simulation\<close>.
\<close>

section \<open>The specification\<close>

record 'c collection =
  co_listed :: "'c name list"
  co_given :: "'c name set"
  co_closed :: bool
  co_failed :: nat

definition collection_start :: "'c name list \<Rightarrow> 'c collection" where
  "collection_start signers = \<lparr>co_listed = signers, co_given = {}, co_closed = False,
     co_failed = (if signers = [] then 1 else 0)\<rparr>"

inductive collect :: "'c collection \<Rightarrow> 'c collection \<Rightarrow> bool" where
  give: "\<not> co_closed s \<Longrightarrow> n \<in> set (co_listed s) \<Longrightarrow> n \<notin> co_given s \<Longrightarrow>
    collect s (s\<lparr>co_given := insert n (co_given s), co_closed := (insert n (co_given s) = set (co_listed s))\<rparr>)"
| replace: "\<not> co_closed s \<Longrightarrow> n \<in> set (co_listed s) \<Longrightarrow> n \<notin> co_given s \<Longrightarrow> distinct new \<Longrightarrow> n \<notin> set new \<Longrightarrow>
    set (co_listed s) - {n} \<subseteq> set new \<Longrightarrow> collect s (s\<lparr>co_listed := new\<rparr>)"
| fail: "\<not> co_closed s \<Longrightarrow> n \<in> set (co_listed s) \<Longrightarrow> n \<notin> co_given s \<Longrightarrow>
    collect s (s\<lparr>co_failed := Suc (co_failed s)\<rparr>)"

inductive_cases collectE: "collect s t"

text \<open>What the specification promises.\<close>

lemma collect_final: "rtranclp collect s t \<Longrightarrow> co_closed s \<Longrightarrow> t = s"
  by (induction rule: rtranclp_induct) (auto elim: collectE)

lemma collect_keeps: "rtranclp collect s t \<Longrightarrow> co_given s \<subseteq> co_given t \<and> co_failed s \<le> co_failed t"
  by (induction rule: rtranclp_induct) (auto elim!: collectE)

definition collection_ok :: "'c collection \<Rightarrow> bool" where
  "collection_ok s \<longleftrightarrow> distinct (co_listed s) \<and> co_given s \<subseteq> set (co_listed s) \<and>
     (co_closed s \<longrightarrow> co_given s = set (co_listed s))"

lemma collect_ok:
  assumes "rtranclp collect s t" and "collection_ok s"
  shows "collection_ok t"
  using assms(1)
proof (induction rule: rtranclp_induct)
  case base
  show ?case by (rule assms(2))
next
  case (step t u)
  from step.hyps(2) step.IH show ?case
  proof (cases rule: collect.cases)
    case (replace n new)
    then have "co_given t \<subseteq> set (co_listed t) - {n}" using step.IH by (auto simp: collection_ok_def)
    then have "co_given t \<subseteq> set new" using replace(7) by (rule subset_trans)
    then show ?thesis using replace step.IH by (simp add: collection_ok_def)
  qed (auto simp: collection_ok_def)
qed

section \<open>The initiator implements it\<close>

definition collection_of :: "('c, 'pk, 'priv) initiator_world \<Rightarrow> 'c collection" where
  "collection_of w = \<lparr>co_listed = g_signers (iw_global w), co_given = set (delivered (iw_calls w)),
     co_closed = (successes w \<noteq> []), co_failed = length (failures w)\<rparr>"

lemma collection_quiet:
  assumes "g_signers (iw_global w') = g_signers (iw_global w)" and "set (delivered (iw_calls w')) = set (delivered (iw_calls w))"
    and "iw_sent w' = iw_sent w @ outs" and "silent outs"
  shows "collection_of w' = collection_of w"
  using assms(1,2) told_silent [OF assms(4,3)] by (simp add: collection_of_def)

lemma delivered_update:
  assumes "k < length calls" and "piece_list (ps_phase (calls ! k)) = []"
  shows "set (delivered (calls[k := ps])) = (if piece_list (ps_phase ps) = [] then {} else {ps_signerKeyName ps}) \<union> set (delivered calls)"
proof -
  have "calls = take k calls @ calls ! k # drop (Suc k) calls"
    using assms(1) by (rule id_take_nth_drop)
  then have "delivered calls = delivered (take k calls @ calls ! k # drop (Suc k) calls)" by simp
  moreover have "calls[k := ps] = take k calls @ ps # drop (Suc k) calls"
    using assms(1) by (rule upd_conv_take_nth_drop)
  ultimately show ?thesis using assms(2) by (auto simp: delivered_def)
qed

lemma active_listed:
  assumes "session_ok api bls kc td kl w" and "k < length (iw_calls w)" and "is_active (ps_phase (iw_calls w ! k))"
  shows "ps_signerKeyName (iw_calls w ! k) \<in> set (g_signers (iw_global w))"
    and "ps_signerKeyName (iw_calls w ! k) \<notin> set (delivered (iw_calls w))" and "piece_list (ps_phase (iw_calls w ! k)) = []"
proof -
  have c: "calls_ok w" using assms(1) by (simp add: session_ok_def)
  have mem: "iw_calls w ! k \<in> set (iw_calls w)" "ps_phase (iw_calls w ! k) \<noteq> Ended"
    using assms(2,3) by (auto simp: is_active_def)
  then show "ps_signerKeyName (iw_calls w ! k) \<in> set (g_signers (iw_global w))" using c by (simp add: calls_ok_def)
  show none: "piece_list (ps_phase (iw_calls w ! k)) = []" using assms(3) by (auto simp: is_active_def)
  show "ps_signerKeyName (iw_calls w ! k) \<notin> set (delivered (iw_calls w))"
  proof
    assume "ps_signerKeyName (iw_calls w ! k) \<in> set (delivered (iw_calls w))"
    then obtain ps b where ps: "ps \<in> set (iw_calls w)" "ps_signerKeyName ps = ps_signerKeyName (iw_calls w ! k)" "ps_phase ps = Delivered b"
      by (auto simp: delivered_set)
    have "ps = iw_calls w ! k"
      using c mem ps by (intro same_call [of "iw_calls w"]) (simp_all add: calls_ok_def)
    with ps(3) none show False by simp
  qed
qed

text \<open>The call at a position changes and is no more than before.\<close>

lemma collection_set_call:
  assumes "k < length (iw_calls w)" and "piece_list (ps_phase (iw_calls w ! k)) = []" and "piece_list (ps_phase ps) = []"
  shows "collection_of (set_call k ps w) = collection_of w" and "collection_of (raise e (set_call k ps w)) = collection_of w"
    and "silent outs \<Longrightarrow> collection_of (emit outs (set_call k ps w)) = collection_of w"
proof -
  have d: "set (delivered (iw_calls (set_call k ps w))) = set (delivered (iw_calls w))"
    using delivered_update [OF assms(1,2), of ps] assms(3) by (simp add: set_call_def)
  show "collection_of (set_call k ps w) = collection_of w"
    by (rule collection_quiet [where outs = "[]"]) (simp_all add: d, simp_all add: set_call_def)
  then show "collection_of (raise e (set_call k ps w)) = collection_of w"
    by (simp add: collection_of_def raise_def successes_def failures_def)
  show "collection_of (emit outs (set_call k ps w)) = collection_of w" if "silent outs"
    by (rule collection_quiet [OF _ _ _ that]) (simp_all add: emit_def d, simp_all add: set_call_def)
qed

text \<open>A piece is a \<open>give\<close>.\<close>

lemma collection_piece:
  assumes kc: "keychain_laws kc" and s: "session_ok api bls kc td kl w" and k: "k < length (iw_calls w)"
    and active: "is_active (ps_phase (iw_calls w ! k))"
  shows "collect (collection_of w) (collection_of (addSignature api bls kc b (set_call k ((iw_calls w ! k)\<lparr>ps_phase := Delivered b\<rparr>) w)))"
proof -
  let ?n = "ps_signerKeyName (iw_calls w ! k)" and ?w1 = "set_call k ((iw_calls w ! k)\<lparr>ps_phase := Delivered b\<rparr>) w"
  let ?w' = "addSignature api bls kc b ?w1" and ?S = "set (g_signers (iw_global w))" and ?G = "set (delivered (iw_calls w))"
  note A = active_listed [OF s k active] and R = addSignature_result [OF kc, of api bls b ?w1]
  have c: "calls_ok w" using s by (simp add: session_ok_def)
  have none: "successes w = []" by (rule active_no_success [OF s k active])
  have "iw_calls ?w' = iw_calls ?w1" using R by blast
  then have given: "set (delivered (iw_calls ?w')) = insert ?n ?G"
    using delivered_update [OF k A(3)] by (simp add: set_call_def)
  have g: "iw_global ?w1 = iw_global w" "iw_sent ?w1 = iw_sent w" by (simp_all add: set_call_def)
  have "insert ?n ?G \<subseteq> ?S" using A(1) calls_ok_delivered(1) [OF c] by simp
  then have "insert ?n ?G = ?S \<longleftrightarrow> card (insert ?n ?G) = card ?S"
    by (metis List.finite_set card_subset_eq)
  moreover have "card (insert ?n ?G) = Suc (length (g_fetchedSignatures (iw_global w)))"
    using A(2) calls_ok_delivered(2) [OF c] by simp
  moreover have "card ?S = length (g_signers (iw_global w))" using c by (simp add: calls_ok_def distinct_card)
  ultimately have complete: "insert ?n ?G = ?S \<longleftrightarrow> Suc (length (g_fetchedSignatures (iw_global w))) = length (g_signers (iw_global w))"
    by simp
  have "g_signers (iw_global ?w') = g_signers (iw_global w)" using R g by simp
  moreover have "(successes ?w' \<noteq> []) = (insert ?n ?G = ?S) \<and> failures ?w' = failures w"
  proof (cases "Suc (length (g_fetchedSignatures (iw_global w))) = length (g_signers (iw_global w))")
    case True
    then obtain d i where "iw_sent ?w' = iw_sent w @ [SuccessCb d i]" using R g by auto
    then show ?thesis using True complete by (simp add: successes_def failures_def)
  next
    case False
    then have "iw_sent ?w' = iw_sent w" using R g by simp
    then show ?thesis using False complete none by (simp add: successes_def failures_def)
  qed
  ultimately have "collection_of ?w' = (collection_of w)\<lparr>co_given := insert ?n ?G, co_closed := (insert ?n ?G = ?S)\<rparr>"
    using given by (simp add: collection_of_def)
  then show ?thesis
    using collect.give [of "collection_of w" ?n] A(1,2) none by (simp add: collection_of_def)
qed

text \<open>A lost signer is a \<open>replace\<close> or a \<open>fail\<close>.\<close>

lemma collection_lost:
  assumes s: "session_ok api bls kc td kl w" and k: "k < length (iw_calls w)" and active: "is_active (ps_phase (iw_calls w ! k))"
  shows "collect (collection_of w) (collection_of (onUnavailableSigner api ossl kc prefix rnd reason
    (ps_signerKeyName (iw_calls w ! k)) (set_call k ((iw_calls w ! k)\<lparr>ps_phase := Ended\<rparr>) w)))"
proof -
  let ?n = "ps_signerKeyName (iw_calls w ! k)" and ?w1 = "set_call k ((iw_calls w ! k)\<lparr>ps_phase := Ended\<rparr>) w"
  let ?w' = "onUnavailableSigner api ossl kc prefix rnd reason ?n ?w1"
  note A = active_listed [OF s k active]
  have none: "successes w = []" by (rule active_no_success [OF s k active])
  have w1: "iw_global ?w1 = iw_global w" "iw_sent ?w1 = iw_sent w" "iw_container ?w1 = iw_container w"
    "set (delivered (iw_calls ?w1)) = set (delivered (iw_calls w))"
    using delivered_update [OF k A(3)] by (simp_all add: set_call_def)
  obtain c new diff where rep: "replaceSigner api (iw_container ?w1) (g_signers (iw_global ?w1)) ?n (g_schema (iw_global ?w1)) = (c, new, diff)"
    by (metis prod_cases3)
  have t: "trusted_key (iw_container ?w1) [] = None" using s w1 by (simp add: session_ok_def calls_ok_def)
  note frame = replaceSigner_frame [OF rep t]
  show ?thesis
  proof (cases "new = []")
    case True
    then have "iw_global ?w' = iw_global w" "iw_calls ?w' = iw_calls ?w1"
      "iw_sent ?w' = iw_sent w @ [FailureCb (reason @ '' And we cannot find replacements for the unavailable signer'')]"
      using rep w1 by (simp_all add: onUnavailableSigner_def)
    then have "collection_of ?w' = (collection_of w)\<lparr>co_failed := Suc (co_failed (collection_of w))\<rparr>"
      using w1(4) by (simp add: collection_of_def successes_def failures_def)
    then show ?thesis using collect.fail [of "collection_of w" ?n] A(1,2) none by (simp add: collection_of_def)
  next
    case False
    let ?w2 = "?w1\<lparr>iw_container := c, iw_global := (iw_global ?w1)\<lparr>g_signers := new\<rparr>\<rparr>"
    obtain calls outs fs m where p: "performRPCs api ossl kc prefix rnd diff ?w2 =
        ?w2\<lparr>iw_calls := iw_calls ?w2 @ calls, iw_sent := iw_sent ?w2 @ outs, iw_faults := iw_faults ?w2 @ fs\<rparr>"
      "\<forall>ps \<in> set calls. ps_phase ps = AwaitAck" "silent outs"
      using performRPCs_shape [of api ossl kc prefix rnd diff ?w2] by blast
    have w': "?w' = performRPCs api ossl kc prefix rnd diff ?w2" using rep False by (simp add: onUnavailableSigner_def)
    have "delivered calls = []" using p(2) by (simp add: delivered_def filter_empty_conv)
    then have "set (delivered (iw_calls ?w')) = set (delivered (iw_calls w))"
      using w1(4) by (simp add: w' p(1)) (simp add: delivered_def)
    moreover have "successes ?w' = successes w \<and> failures ?w' = failures w"
      by (rule told_silent [OF p(3)]) (simp add: w' p(1) w1(2))
    moreover have "g_signers (iw_global ?w') = new" by (simp add: w' p(1))
    ultimately have "collection_of ?w' = (collection_of w)\<lparr>co_listed := new\<rparr>" by (simp add: collection_of_def)
    moreover have "set (g_signers (iw_global w)) - {?n} \<subseteq> set new" "distinct new" "?n \<notin> set new"
      using frame False w1(1) by auto
    ultimately show ?thesis
      using collect.replace [of "collection_of w" ?n new] A(1,2) none by (simp add: collection_of_def)
  qed
qed

section \<open>Every event\<close>

lemma collection_step:
  assumes kc: "keychain_laws kc" and s: "session_ok api bls kc td kl w" and enabled: "initiator_enabled w e"
  shows "rtranclp collect (collection_of w) (collection_of (initiator_handle api bls ossl kc prefix w e))"
proof (cases e)
  case (AckReply k x iv rnd)
  then have k: "k < length (iw_calls w)" "is_active (ps_phase (iw_calls w ! k))" using enabled by (auto simp: is_active_def)
  note Q = collection_set_call [OF k(1) active_listed(3) [OF s k]]
  have no_reply: "rtranclp collect (collection_of w) (collection_of (onNoReply api ossl kc prefix rnd what k w))" for what
    using r_into_rtranclp [of collect, OF collection_lost [OF s k, of ossl prefix rnd]] by (simp add: onNoReply_def Let_def)
  show ?thesis
  proof (cases x)
    case (FetchedData d)
    then have h: "initiator_handle api bls ossl kc prefix w e = onAckData api ossl kc iv k d w" by (simp add: AckReply)
    have "collection_of (onAckData api ossl kc iv k d w) = collection_of w"
      by (cases rule: onAckData_cases [of api ossl kc iv k d w]) (simp_all add: Q)
    then show ?thesis by (simp add: h)
  qed (use no_reply in \<open>simp_all add: AckReply\<close>)
next
  case (ResultTimer k)
  then have k: "k < length (iw_calls w)" "is_active (ps_phase (iw_calls w ! k))" using enabled by (auto simp: is_active_def)
  note Q = collection_set_call [OF k(1) active_listed(3) [OF s k]]
  have "collection_of (onResultTimer kc k w) = collection_of w"
    by (simp add: onResultTimer_def Let_def Q split: sum.split)
  then show ?thesis by (simp add: ResultTimer)
next
  case (ResultReply k x rnd)
  then have k: "k < length (iw_calls w)" "is_active (ps_phase (iw_calls w ! k))" using enabled by (auto simp: is_active_def)
  note Q = collection_set_call [OF k(1) active_listed(3) [OF s k]]
  have no_reply: "rtranclp collect (collection_of w) (collection_of (onNoReply api ossl kc prefix rnd what k w))" for what
    using r_into_rtranclp [of collect, OF collection_lost [OF s k, of ossl prefix rnd]] by (simp add: onNoReply_def Let_def)
  show ?thesis
  proof (cases x)
    case (FetchedData d)
    then have h: "initiator_handle api bls ossl kc prefix w e = onResultData api bls ossl kc prefix rnd k d w"
      by (simp add: ResultReply)
    have "rtranclp collect (collection_of w) (collection_of (onResultData api bls ossl kc prefix rnd k d w))"
    proof (cases rule: onResultData_cases [of api bls ossl kc prefix rnd k d w])
      case (piece b)
      then show ?thesis using collection_piece [OF kc s k] by (simp add: r_into_rtranclp)
    next
      case (error reason)
      then show ?thesis using r_into_rtranclp [of collect, OF collection_lost [OF s k, of ossl prefix rnd reason]] by simp
    qed (simp_all add: Q)
    then show ?thesis by (simp add: h)
  qed (use no_reply in \<open>simp_all add: ResultReply\<close>)
next
  case (ParameterInterest k)
  have "collection_of (emit outs w) = collection_of w" if "silent outs" for outs
    by (rule collection_quiet [OF _ _ _ that]) (simp_all add: emit_def)
  then show ?thesis by (simp add: ParameterInterest onParameterInterest_def)
qed

definition session_inv ::
  "('c, 'z) packet_api_scheme \<Rightarrow> ('sk, 'pk, 'sig, 'y) bls_api_scheme \<Rightarrow> ('c, 'x) keychain_api_scheme \<Rightarrow>
   'c data \<Rightarrow> 'c name \<Rightarrow> ('c, 'pk, 'priv) initiator_world \<Rightarrow> bool" where
  "session_inv api bls kc td kl w \<longleftrightarrow> keychain_laws kc \<and> session_ok api bls kc td kl w"

interpretation initiator_collects: simulation initiator_enabled "initiator_handle api bls ossl kc prefix"
    "session_inv api bls kc td kl" collection_of collect
  for api :: "('c::linorder, 'z) packet_api_scheme" and bls :: "('sk, 'pk, 'sig, 'y) bls_api_scheme"
    and ossl :: "('priv, 'o) ossl_api_scheme" and kc :: "('c, 'x) keychain_api_scheme"
    and prefix kl :: "'c name" and td :: "'c data"
  by unfold_locales (simp_all add: session_inv_def initiator_step_ok, blast intro: collection_step)

lemma collection_begins:
  fixes w :: "('a::linorder, 'd, 'e) initiator_world"
  assumes "ossl_laws ossl" and "keychain_laws kc"
    and run: "multiPartySign api ossl kc prefix r rnd c ud schema key = Inr w"
  shows "collection_of w = collection_start (g_signers (iw_global w))"
proof -
  have "successes w = [] \<and> length (failures w) = (if g_signers (iw_global w) = [] then 1 else 0)"
  proof -
    obtain signers where sel: "getAvailableSigners api c schema = Inr signers"
      using run by (auto simp: multiPartySign_def res_bind_Inr_iff)
    obtain td si where p: "prepareUnfinishedDataAndInfoData api r ud prefix = (td, si)" by force
    define w0 :: "('a, 'd, 'e) initiator_world" where "w0 = \<lparr>iw_container = c, iw_global = \<lparr>g_signers = signers, g_schema = schema, g_toBeSigned = td, g_signInfo = si,
      g_fetchedSignatures = [], g_signingKeyName = key\<rparr>, iw_calls = [],
      iw_sent = if length signers = 0 then [FailureCb ''No sufficient number of known signers.''] else [], iw_faults = []\<rparr>"
    have w: "w = performRPCs api ossl kc prefix rnd signers w0"
      using run by (simp add: multiPartySign_def sel p Let_def w0_def)
    obtain new outs fs m where "performRPCs api ossl kc prefix rnd signers w0 = w0\<lparr>iw_calls := iw_calls w0 @ new, iw_sent := iw_sent w0 @ outs, iw_faults := iw_faults w0 @ fs\<rparr>"
      "silent outs"
      using performRPCs_shape [of api ossl kc prefix rnd signers w0] unfolding w by blast
    then show ?thesis unfolding w by (simp add: successes_def failures_def silent_def w0_def)
  qed
  moreover have "delivered (iw_calls w) = []"
    using run_begins [OF assms] by (auto simp: delivered_def filter_empty_conv fresh_call_def)
  ultimately show ?thesis by (simp add: collection_of_def collection_start_def)
qed

section \<open>The closed system implements it\<close>

lemma pick_up_initiator: "nw_initiator (pick_up s e t) = nw_initiator t"
  by (cases e) (simp_all add: Let_def)

lemma network_initiator:
  "nw_initiator (network_handle api bls ossl kc prefix signers s e) = (case initiator_part e of
     None \<Rightarrow> nw_initiator s | Some x \<Rightarrow> initiator_handle api bls ossl kc prefix (nw_initiator s) x)"
  by (simp add: network_handle_def pick_up_initiator Let_def split: option.split)

interpretation network_collects: simulation
  "network_enabled api bls ossl kc prefix signers" "network_handle api bls ossl kc prefix signers"
  "net_inv api bls skAdd ossl kc prefix signers r ud" "\<lambda>s. collection_of (nw_initiator s)" collect
proof unfold_locales
  fix s e
  assume inv: "net_inv api bls skAdd ossl kc prefix signers r ud s"
    and enabled: "network_enabled api bls ossl kc prefix signers s e"
  have kc: "keychain_laws kc" and ok: "net_ok api bls ossl kc prefix signers r ud s"
    using inv net_lawsD(5) by (auto simp: net_inv_def)
  note S = reach_ok [OF net_okD(1) [OF ok]]
  show "rtranclp collect (collection_of (nw_initiator s)) (collection_of (nw_initiator (network_handle api bls ossl kc prefix signers s e)))"
    using collection_step [OF kc S] enabled
    by (cases "initiator_part e") (auto simp: network_initiator network_enabled_def)
qed

end
