(* ===== verification/Spec2Isabelle.thy ===== *)
theory Spec2Isabelle
  imports Run_Witnesses Players_Witnesses Collection
begin

text \<open>
  A verification development for ndn-multi-party-signature, a C++ library with which several
  parties of a Named Data Networking application sign one packet together (BLS multi-signatures).

  \<^bold>\<open>The program.\<close> An \<^emph>\<open>initiator\<close> (\<^verbatim>\<open>src/initiator.cpp\<close>) has a packet to be
  signed and a schema. It asks the schema container (\<^verbatim>\<open>src/schema.cpp\<close>) for a list of
  signers that satisfies the schema and starts one remote call per signer: an Interest with an
  ECDH key, to which the \<^emph>\<open>signer\<close> (\<^verbatim>\<open>src/signer.cpp\<close>) answers with an
  acknowledgement and its own ECDH key; the signer fetches the packet, encrypted under the
  derived key (\<^verbatim>\<open>src/crypto-helpers.cpp\<close>), asks its callbacks, and offers its signature
  piece (\<^verbatim>\<open>src/bls-helpers.cpp\<close>) as a result the initiator fetches later, repeatedly when
  it is not ready. A signer that fails is replaced through the container. When all pieces are
  there the initiator aggregates them, puts the signer list
  (\<^verbatim>\<open>src/mps-signer-list.cpp\<close>) into an info packet and calls the success callback. A
  \<^emph>\<open>verifier\<close> (\<^verbatim>\<open>src/verifier.cpp\<close>) decides about a packet with its info packet
  by the container's policy and the aggregate of the signers' keys, and can fetch the info packet
  itself. The directory \<^verbatim>\<open>temp/\<close> holds the prototype these players grew from, with an
  initiator, a signer and a verifier that talk without encryption; no build file compiles it, but
  it is modelled too.

  \<^bold>\<open>Theories, in the order of their imports.\<close>

  \<^item> \<^verbatim>\<open>Mps_Prelude\<close>: faults and results (an exception is \<open>Throws\<close>, undefined
    behaviour is \<open>Undefined\<close>), and lemmas on lists, filters and counts.
  \<^item> \<^verbatim>\<open>Name_Set\<close>: \<^verbatim>\<open>std::set\<close> as an ascending list, with the locale
    \<open>ordered_set\<close>.
  \<^item> \<^verbatim>\<open>Event_System\<close>: executions of a component that reacts to events; the locales
    \<open>invariant_system\<close>, \<open>history_system\<close> and \<open>simulation\<close>, interpreted on the signer, the
    initiator and the closed system.
  \<^item> \<^verbatim>\<open>Ndn_Api\<close>: the interface of ndn-cxx (names, TLV elements, packets), a parameter.
  \<^item> \<^verbatim>\<open>Wildcard_Name\<close>, \<^verbatim>\<open>Schema\<close>, \<^verbatim>\<open>Schema_Container\<close>: the three
    classes of \<^verbatim>\<open>include/ndnmps/schema.hpp\<close>. \<open>wildcard\<close>, \<open>schema\<close> and \<open>container\<close> are
    their fields; each member function is the definition of its name (\<open>wc_match\<close>,
    \<open>schema_match\<close> and \<open>container_passSchema\<close> where a name is used twice). The lemmas
    characterise the decision by counts, show that the greedy selection finds a list exactly when
    there is one, and that a replacement never repeats and gets the best list there is.
  \<^item> \<^verbatim>\<open>Bls_Helpers\<close>, \<^verbatim>\<open>Crypto_Helpers\<close>, \<^verbatim>\<open>Signer_List\<close>: one definition per
    function of the file of that name; BLS and OpenSSL are the parameters \<open>bls_api\<close> and
    \<open>ossl_api\<close>. The lemmas are the round trips (sign and verify, encrypt and decrypt, encode
    and decode) and the sum of pieces under the sum of keys.
  \<^item> \<^verbatim>\<open>Verifier\<close>: \<open>verify\<close>, and \<open>asyncVerify\<close> with its continuations; soundness and
    completeness of the decision.
  \<^item> \<^verbatim>\<open>Signer\<close>: the fields of \<^verbatim>\<open>BLSSigner\<close> (\<open>bls_signer\<close>) and of a request
    (\<open>sign_request\<close>); a handler per entry of the event loop: \<open>onSignRequest\<close>,
    \<open>onParameterReply\<close>, \<open>onResultInterest\<close>. The lemmas follow a request from
    \<^verbatim>\<open>Processing\<close> to its final code.
  \<^item> \<^verbatim>\<open>Initiator\<close>: the two states of \<^verbatim>\<open>initiator.cpp\<close> (\<open>global_state\<close>,
    \<open>per_signer\<close>), the packets, \<open>multiPartySign\<close>, \<open>performRPC\<close> and each of its
    continuations. \<^verbatim>\<open>Initiator_Session\<close>: a run as an event system, its invariant
    \<open>session_ok\<close>, and what can never follow.
  \<^item> \<^verbatim>\<open>Protocol\<close>, \<^verbatim>\<open>Honest_Run\<close>: the packets that initiator and signer make for each
    other, step by step, and the run in which everybody answers.
  \<^item> \<^verbatim>\<open>Network\<close>, \<^verbatim>\<open>Network_Steps\<close>, \<^verbatim>\<open>Network_Run\<close>: a run of the initiator, its
    signers and the packets on their way as one event system (\<open>network\<close>, \<open>network_handle\<close>). Its
    invariant \<open>net_ok\<close> says from which request or call every packet comes; a lemma per event keeps
    it, and from it follows that the pieces of a run are those of its signers for its packet. The
    last theory takes the calls of a run one after the other to their pieces.
  \<^item> \<^verbatim>\<open>Collection\<close>: the specification of a run (\<open>collection\<close>, \<open>collect\<close>), its promises, and
    that the initiator, alone and in the closed system, implements it (\<open>simulation\<close>).
  \<^item> \<^verbatim>\<open>Signer_Choice\<close>: the signer list of a run and the failures it reports; what every
    event keeps of them (\<open>choice_ok\<close>, \<open>failures_ok\<close>).
  \<^item> \<^verbatim>\<open>Initiator_Runs\<close>: the object \<^verbatim>\<open>MPSInitiator\<close>, several runs of which share its
    schema container (\<open>runs_world\<close>): what a step of a run may change (\<open>run_step_ok\<close>), and that
    runs do not disturb each other.
  \<^item> \<^verbatim>\<open>Ord_Map\<close>: \<^verbatim>\<open>std::map\<close> as a list of entries in ascending order, with the
    locale \<open>ordered_map\<close>. \<^verbatim>\<open>Crypto_Players\<close>: \<^verbatim>\<open>MpsSigner\<close>, \<^verbatim>\<open>MpsVerifier\<close> and \<^verbatim>\<open>MpsAggregator\<close>
    of \<^verbatim>\<open>temp/crypto-players.cpp\<close>; the lemmas are the round trips of signing, the agreement of
    the prototype's verification with \<open>Verifier.verify\<close>, and what is fetched before it.
  \<^item> \<^verbatim>\<open>Players_Signer\<close>, \<^verbatim>\<open>Players_Verifier\<close>, \<^verbatim>\<open>Players_Initiator\<close>: the three classes of
    \<^verbatim>\<open>temp/players.cpp\<close>, a definition per function (a class name in front where the library has a
    function of the same name). Verifier and initiator are event systems with the contracts
    \<open>step_ok\<close> and \<open>player_step_ok\<close>, which every operation keeps. \<^verbatim>\<open>Players_Run\<close>: the
    round in which the signer's last piece ends a signature.
  \<^item> \<^verbatim>\<open>Ndn_Instance\<close>, \<^verbatim>\<open>Library_Instances\<close>, \<^verbatim>\<open>Crypto_Instances\<close>: concrete
    functions for the parameters that satisfy their laws; \<^verbatim>\<open>Witnesses\<close>,
    \<^verbatim>\<open>Component_Witnesses\<close>, \<^verbatim>\<open>Run_Witnesses\<close>, \<^verbatim>\<open>Players_Witnesses\<close>: every property with hypotheses,
    applied to concrete inputs.

  \<^bold>\<open>Libraries.\<close> ndn-cxx, the Boost property tree, the BLS library, OpenSSL and the key chain are
  not in the repository: each is a record of functions, an argument of the definitions that call
  it, and what its documentation promises is a predicate (\<open>name_laws\<close>, \<open>tlv_laws\<close>,
  \<open>packet_laws\<close>, \<open>uri_laws\<close>, \<open>ptree_laws\<close>, \<open>bls_laws\<close>, \<open>ossl_laws\<close>, \<open>keychain_laws\<close>) which
  appears as a hypothesis where it is needed. The prototype looks at the result codes of the BLS
  library and calls more of ndn-cxx (\<open>bls_code_laws\<close>, \<open>bls_sum_law\<close>, \<open>players_laws\<close>), and asks a
  version of the schema class that is not in the repository (\<open>schema_ops\<close>, which also has the
  clock's verdict on a validity period).

  \<^bold>\<open>Time and order.\<close> The face and the scheduler are not modelled as programs: an event may be
  handled whenever the code has a continuation waiting for it, so that every order of replies,
  timeouts and timers is an execution. A continuation that captures a shared state names it by its
  position in a list. Nothing runs on fuel: all loops of the program are over finite lists; that a
  chain of replacements ends is \<open>replaceSigner_decreases\<close>. The loop of the prototype over a
  set that its body extends, \<open>satisfy_loop\<close>, ends because the identifiers it visits ascend.

  \<^bold>\<open>The network.\<close> In the closed system an Interest reaches the filter that its name matches, again
  and again if the network likes, and Data reaches the continuation that waits for it; a reply can be
  lost at any time. What is assumed (\<open>network_guard\<close>, \<open>network_enabled\<close>) is that no packet is made
  up or changed, that the Interests of a call carry the names the initiator gave them, and that
  random numbers do not repeat: the parameter names of the calls of a run differ (\<open>start_names\<close>
  derives it for the start), and so do the result names of a signer. An attacker who sends packets of
  his own is outside this system; the properties of the single programs hold for every packet.

  \<^bold>\<open>Not modelled.\<close> The tests, in \<^verbatim>\<open>tests/\<close> and \<^verbatim>\<open>temp/crypto-players.t.cpp\<close>. Lifetimes:
  the continuations of \<^verbatim>\<open>asyncVerify\<close> hold references to the arguments, and a packet
  or state that is gone by then is not represented; nor is the release of OpenSSL objects. Logging,
  timing output, the getters, and the registration of prefixes with the forwarder and its failure
  callbacks, which only print. \<^verbatim>\<open>MultipartySchemaContainer::loadTrustedIds\<close>, and
  \<^verbatim>\<open>verify\<close> and \<^verbatim>\<open>asyncVerify\<close> of the prototype's verifier, which are declared
  and never defined.
\<close>

section \<open>The closed system\<close>

text \<open>
  C1: the protocol works between the programs. When a run has selected its signers for the schema that
  decides about the packet, its random parameter names differ, the signers are willing (each listens
  under the prefix of its key name, accepts sign requests and approves the packet), the container
  knows their public keys, and an Interest can be given a valid digest, then the network of the
  initiator and these signers has an execution at whose end the success callback has been called, and
  the packet and the info packet it was given are accepted by the verifier. Every packet of the
  execution was made by one of the two programs.
\<close>

theorem network_works:
  assumes "net_laws api bls skAdd ossl kc" and "comm_add skAdd"
    and "multiPartySign api ossl kc prefix r rnd c ud schema signingKey = Inr w" and "g_signers (iw_global w) \<noteq> []"
    and "find (\<lambda>s. schema_match api s (d_name ud)) (m_schemas c) = Some schema"
    and "\<forall>n. trusted_key c n \<noteq> None \<longrightarrow> trusted_key c n = Some (blsGetPublicKey bls (m_sk (signers n)))"
    and "trusted_key c [] = None" and "distinct (param_names (iw_calls w))"
    and "all_willing api kc signers (unfinished api r ud prefix) w"
  shows "\<exists>es s d i. exec (network_enabled api bls ossl kc prefix signers) (network_handle api bls ossl kc prefix signers)
      (network_start w) es s \<and>
    successes (nw_initiator s) = [(d, i)] \<and> d_name d = d_name ud \<and> verify api bls c d i = Inr True"
proof -
  obtain es s where E: "exec (network_enabled api bls ossl kc prefix signers) (network_handle api bls ossl kc prefix signers)
      (network_start w) es s"
    "successes (nw_initiator s) \<noteq> []" "g_signers (iw_global (nw_initiator s)) = g_signers (iw_global w)"
    using network_completes [OF assms(1,3,4,7-9)] by blast
  have reach: "network_reach api bls ossl kc prefix signers r ud s"
    unfolding network_reach_def using assms(3,7,8) E(1) by blast
  have "session_ok api bls kc (unfinished api r ud prefix) (info_name api r ud prefix) (nw_initiator s)"
    by (rule reach_ok [OF net_okD(1) [OF network_reach_ok [OF assms(1) reach]]])
  then obtain d i where success: "successes (nw_initiator s) = [(d, i)]"
    using E(2) by (auto simp: session_ok_def)
  then have mem: "(d, i) \<in> set (successes (nw_initiator s))" by simp
  note R = network_reported [OF assms(1) reach mem]
  have "verify api bls c d i = Inr True"
    by (rule R(3) [OF assms(2)]) (use run_selection [OF assms(3,5)] assms(6) in \<open>simp_all add: E(3)\<close>)
  moreover have "d_name d = d_name ud" using arg_cong [OF R(2), of d_name] by (simp add: unfinished_props)
  ultimately show ?thesis using E(1) success by blast
qed

text \<open>
  C2: what the network reports, a verifier accepts. Whatever the network does with the packets of the
  initiator and of its signers (delays, losses, repetitions, refusals and replacements included),
  every pair that the success callback is given is accepted by every verifier that trusts the public
  keys of the listed signers and whose policy accepts the list, also when it fetches the info packet
  itself: its one Interest asks for the name of the info packet, and that packet makes it call its
  callback with true. Nothing is assumed of the pieces.
\<close>

theorem network_verified:
  assumes "net_laws api bls skAdd ossl kc" and "comm_add skAdd"
    and "network_reach api bls ossl kc prefix signers r ud s" and "(d, i) \<in> set (successes (nw_initiator s))"
    and "\<forall>n \<in> set (g_signers (iw_global (nw_initiator s))). trusted_key c n = Some (blsGetPublicKey bls (m_sk (signers n)))"
    and "container_passSchema api c (d_name ud) (g_signers (iw_global (nw_initiator s)))"
  shows "verify api bls c d i = Inr True \<and>
    (\<exists>f. asyncVerify d = Inr [ExpressInterest f] \<and> is_prefix_of (i_name f) (d_name i) \<and>
      asyncVerify_reply api bls c d (InfoData i) = Inr [FinishCallback True])"
  using network_reported(3) [OF assms(1,3,4,2,5,6)] network_reported(4) [OF assms(1,3,4)] by auto

text \<open>
  C3: nobody signs without consent. Whatever the network does, when the success callback is given a
  packet, it is the packet of the run but for the signature value, and the application of every listed
  signer has approved exactly this packet.
\<close>

theorem network_consent:
  assumes "net_laws api bls skAdd ossl kc" and "network_reach api bls ossl kc prefix signers r ud s"
    and "(d, i) \<in> set (successes (nw_initiator s))"
  shows "d\<lparr>d_sigValue := []\<rparr> = unfinished api r ud prefix \<and>
    (\<forall>n \<in> set (g_signers (iw_global (nw_initiator s))).
       m_verifyToBeSignedCallback (signers n) (unfinished api r ud prefix))"
  using network_reported(1,2) [OF assms] by blast

section \<open>The specification of a run\<close>

text \<open>
  C4: a run is a collection of pieces. Whatever packets, timeouts and timers reach the initiator, the run
  goes through the steps of the specification \<open>collect\<close>: listed signers give one piece each, a
  listed signer that has not given one is replaced by signers that leave the others on the list, or
  the failure callback is called; with the last piece the collection is closed, which is when the
  success callback is called, and nothing changes any more. So at every moment the list has no
  repetition, who has given a piece is on it, and after the success these are all of the list.
\<close>

theorem run_refines_collection:
  assumes "ossl_laws ossl" and "keychain_laws kc"
    and "multiPartySign api ossl kc prefix r rnd c ud schema signingKey = Inr w" and "trusted_key c [] = None"
    and "exec initiator_enabled (initiator_handle api bls ossl kc prefix) w es v"
    and "exec initiator_enabled (initiator_handle api bls ossl kc prefix) v fs v'"
  shows "rtranclp collect (collection_start (g_signers (iw_global w))) (collection_of v) \<and>
    rtranclp collect (collection_of v) (collection_of v') \<and>
    (successes v \<noteq> [] \<longrightarrow> collection_of v' = collection_of v) \<and> collection_ok (collection_of v)"
proof -
  let ?inv = "session_inv api bls kc (unfinished api r ud prefix) (info_name api r ud prefix)"
  have start: "collection_of w = collection_start (g_signers (iw_global w))" by (rule collection_begins [OF assms(1-3)])
  have inv: "?inv w" using multiPartySign_ok [OF assms(3,4)] assms(2) by (simp add: session_inv_def)
  then have v: "?inv v" using initiator_collects.exec_inv [OF assms(5)] by blast
  have a: "rtranclp collect (collection_start (g_signers (iw_global w))) (collection_of v)"
    using initiator_collects.exec_simulated [OF assms(5) inv] by (simp add: start)
  have b: "rtranclp collect (collection_of v) (collection_of v')"
    by (rule initiator_collects.exec_simulated [OF assms(6) v])
  have "distinct (g_signers (iw_global w))" using inv by (simp add: session_inv_def session_ok_def calls_ok_def)
  then have "collection_ok (collection_start (g_signers (iw_global w)))" by (simp add: collection_ok_def collection_start_def)
  from collect_ok [OF a this] collect_final [OF b] a b show ?thesis by (auto simp: collection_of_def)
qed

section \<open>Properties that span the components\<close>

text \<open>
  C5: the protocol works. When a run has selected its signers for the schema that decides about
  the packet, and the container knows the public keys of the signers' secret keys, then there is
  an execution, namely the one in which every signer answers and delivers its signature piece, at
  whose end the success callback has been called, and the packet and the info packet it was given
  are accepted by the verifier.
\<close>

theorem protocol_works:
  assumes "bls_laws bls skAdd" and "comm_add skAdd" and "tlv_laws api" and "packet_laws api" and "ossl_laws ossl"
    and "keychain_laws kc"
    and "multiPartySign api ossl kc prefix r rnd c ud schema signingKey = Inr w" and "g_signers (iw_global w) \<noteq> []"
    and "find (\<lambda>s. schema_match api s (d_name ud)) (m_schemas c) = Some schema"
    and "\<forall>n. trusted_key c n \<noteq> None \<longrightarrow> trusted_key c n = Some (blsGetPublicKey bls (sk n))" and "trusted_key c [] = None"
  shows "\<exists>es w' d i. exec initiator_enabled (initiator_handle api bls ossl kc prefix) w es w' \<and>
    successes w' = [(d, i)] \<and> d_name d = d_name ud \<and> verify api bls c d i = Inr True"
proof -
  let ?td = "unfinished api r ud prefix" and ?kl = "info_name api r ud prefix"
  obtain m where m: "data_unsigned api ?td = Inr m"
    using data_ranges_unsigned [OF assms(4) unfinished_sigInfo] by blast
  define F where "F = (\<lambda>n. blsSignatureSerialize bls encodingBuf_size (blsSign bls (sk n) m))"
  obtain es w' where E: "exec initiator_enabled (initiator_handle api bls ossl kc prefix) w es w'"
    "succeeded F (g_signers (iw_global w)) w'"
    using honest_run [OF assms(3-8)] by blast
  have reach: "initiator_reach api bls ossl kc prefix r ud w'"
    unfolding initiator_reach_def using assms(7,11) E(1) by blast
  note ok = reach_ok [OF reach]
  obtain d i where s: "successes w' = [(d, i)]" and d: "d\<lparr>d_sigValue := []\<rparr> = ?td"
    using ok E(2) by (auto simp: session_ok_def succeeded_def)
  have signers: "g_signers (iw_global w') = g_signers (iw_global w)" using E(2) by (simp add: succeeded_def)
  have pass: "container_passSchema api c (d_name ud) (g_signers (iw_global w'))"
    unfolding signers by (rule run_selection(1) [OF assms(7,9)])
  have "\<forall>n \<in> set (g_signers (iw_global w')). trusted_key c n = Some (blsGetPublicKey bls (sk n))"
    using run_selection(2) [OF assms(7,9)] assms(10) by (simp add: signers)
  moreover have "\<forall>ps \<in> set (iw_calls w'). \<forall>b. ps_phase ps = Delivered b \<longrightarrow>
      ndnGenBLSSignature_data api bls (sk (ps_signerKeyName ps)) ?td = Inr b"
    using E(2) m by (simp add: succeeded_def F_def ndnGenBLSSignature_data_def)
  ultimately have "verify api bls c d i = Inr True"
    using reported_verifies [OF assms(1-4,6) reach _ _ _ pass] s by simp
  moreover have "d_name d = d_name ud"
    using arg_cong [OF d, of d_name] by (simp add: unfinished_props)
  ultimately show ?thesis using E(1) s by blast
qed

text \<open>
  C7: what a run reports, a verifier accepts. When the success callback delivers a packet and its
  info packet, and every piece that was delivered is the honest signature piece of its signer,
  then every verifier that trusts the signers' public keys and whose policy accepts the signer
  list for the packet's name accepts the pair, whatever the order in which the pieces came.
\<close>

theorem reported_packet_verifies:
  assumes "bls_laws bls skAdd" and "comm_add skAdd" and "tlv_laws api" and "packet_laws api" and "keychain_laws kc"
    and "initiator_reach api bls ossl kc prefix r ud w" and "(d, i) \<in> set (successes w)"
    and "\<forall>ps \<in> set (iw_calls w). \<forall>b. ps_phase ps = Delivered b \<longrightarrow>
      ndnGenBLSSignature_data api bls (sk (ps_signerKeyName ps)) (unfinished api r ud prefix) = Inr b"
    and "\<forall>n \<in> set (g_signers (iw_global w)). trusted_key c n = Some (blsGetPublicKey bls (sk n))"
    and "container_passSchema api c (d_name ud) (g_signers (iw_global w))"
  shows "verify api bls c d i = Inr True"
  by (rule reported_verifies [OF assms])

text \<open>
  C14: the handshake. A call the initiator has started sends one signed Interest; a signer that
  gets an Interest with its parameters, and whose callback accepts it, starts a request in the
  code \<^verbatim>\<open>Processing\<close>, answers with an acknowledgement that verifies under its public key,
  and asks for the parameter data of the call; and from this acknowledgement the initiator derives
  the same AES and HMAC keys, the result name under the result prefix with version 0, and the
  delay of one second.
\<close>

theorem handshake:
  assumes "bls_laws bls skAdd" and "tlv_laws api" and "packet_laws api" and "ossl_laws ossl" and "keychain_laws kc"
    and "performRPC api ossl kc prefix rnd n g = ([ps], outs, None)"
  shows "\<exists>sent. outs = [RegisterParameter (d_name (ps_paraData ps)), SendInterest sent] \<and>
    (\<forall>i. i_appParams i = i_appParams sent \<and> m_verifySignRequestCallback signer i \<and> interest_digest_valid api i \<longrightarrow>
      (\<exists>rq ack fetch ecdh. onSignRequest api bls ossl signer rr i rqs =
          (rqs @ [rq], [RegisterFilter (rq_resultPrefix rq), PutData ack, FetchParameter fetch], None) \<and>
        m_code (rq_state rq) = Processing \<and> rq_fetching rq \<and>
        d_name ack = i_name i \<and> ndnBLSVerify_data api bls (blsGetPublicKey bls (m_sk signer)) ack = Inr True \<and>
        i_name fetch = d_name (ps_paraData ps) \<and>
        parseAckReply api ossl ack ps = Inr (ps\<lparr>ps_ecdh := ecdh, ps_aesKey := m_aesKey (rq_state rq),
          ps_hmacKey := m_hmacKey (rq_state rq),
          ps_nextResultName := rq_resultPrefix rq @ [comp_of_version api 0]\<rparr>, 1000)))"
proof -
  obtain sent where sent: "outs = [RegisterParameter (d_name (ps_paraData ps)), SendInterest sent]"
    "i_appParams sent = block_with api TLV_ApplicationParameters
      [nested_block api tlv_ParameterDataName (name_wire api (d_name (ps_paraData ps))),
       Blk tlv_EcdhPub (ossl_pub ossl (m_privkey (ps_ecdh ps)))]"
    using performRPC_started [OF assms(4-6)] by metis
  have "\<exists>rq ack fetch ecdh. onSignRequest api bls ossl signer rr i rqs =
          (rqs @ [rq], [RegisterFilter (rq_resultPrefix rq), PutData ack, FetchParameter fetch], None) \<and>
        m_code (rq_state rq) = Processing \<and> rq_fetching rq \<and>
        d_name ack = i_name i \<and> ndnBLSVerify_data api bls (blsGetPublicKey bls (m_sk signer)) ack = Inr True \<and>
        i_name fetch = d_name (ps_paraData ps) \<and>
        parseAckReply api ossl ack ps = Inr (ps\<lparr>ps_ecdh := ecdh, ps_aesKey := m_aesKey (rq_state rq),
          ps_hmacKey := m_hmacKey (rq_state rq),
          ps_nextResultName := rq_resultPrefix rq @ [comp_of_version api 0]\<rparr>, 1000)"
    if i: "i_appParams i = i_appParams sent" "m_verifySignRequestCallback signer i" "interest_digest_valid api i" for i
  proof -
    let ?rp = "result_name api (m_prefix signer) (rr_requestId rr)"
    obtain st ecdh aes hmac ack where sr:
      "onSignRequest api bls ossl signer rr i rqs =
        (rqs @ [\<lparr>rq_resultPrefix = ?rp, rq_state = st, rq_fetching = True\<rparr>],
         [RegisterFilter ?rp, PutData ack, FetchParameter ((new_interest (d_name (ps_paraData ps)))
           \<lparr>i_canBePrefix := True, i_mustBeFresh := True, i_lifetime := TIMEOUT\<rparr>)], None)"
      "m_aesKey st = aes" "m_hmacKey st = hmac" "m_code st = Processing" "d_name ack = i_name i"
      "ndnBLSVerify_data api bls (blsGetPublicKey bls (m_sk signer)) ack = Inr True"
      "parseAckReply api ossl ack ps = Inr (ps\<lparr>ps_ecdh := ecdh, ps_aesKey := aes, ps_hmacKey := hmac,
        ps_nextResultName := ?rp @ [comp_of_version api 0]\<rparr>, ESTIMATE_PROCESS_TIME)"
      using handshake_step [OF assms(1-4) i(1) [unfolded sent(2)] i(2,3)] by metis
    then show ?thesis
      by (intro exI [of _ "\<lparr>rq_resultPrefix = ?rp, rq_state = st, rq_fetching = True\<rparr>"] exI [of _ ack]
          exI [of _ "(new_interest (d_name (ps_paraData ps)))\<lparr>i_canBePrefix := True, i_mustBeFresh := True, i_lifetime := TIMEOUT\<rparr>"]
          exI [of _ ecdh])
        (simp add: new_interest_def ESTIMATE_PROCESS_TIME_def)
  qed
  with sent(1) show ?thesis by blast
qed

text \<open>
  An honest call delivers the signer's piece. After the handshake of a call for the packet
  \<open>u\<close>, the initiator publishes the parameters under the name the signer asked for; the signer,
  when its callback approves \<open>u\<close>, ends with the code \<^verbatim>\<open>OK\<close> and its signature piece of
  \<open>u\<close>; its answer to a result Interest of the right length makes the initiator record exactly
  this piece for the call.
\<close>

theorem honest_call_delivers:
  assumes "bls_laws bls skAdd" and "tlv_laws api" and "packet_laws api" and "ossl_laws ossl" and "keychain_laws kc"
    and "performRPC api ossl kc prefix rnd n g = ([ps], outs, None)" and "SendInterest sent \<in> set outs"
    and "iw_calls w ! k = ps" and "k < length (iw_calls w)" and "d_sigInfo (g_toBeSigned g) \<noteq> None"
    and "i_appParams i = i_appParams sent" and "m_verifySignRequestCallback signer i" and "interest_digest_valid api i"
    and "m_verifyToBeSignedCallback signer (g_toBeSigned g)"
    and "length (i_name ri) = length (m_prefix signer) + 5"
  shows "\<exists>rq ack fetch pd rq1 piece rq2 result.
    onSignRequest api bls ossl signer rr i rqs = (rqs @ [rq], [RegisterFilter (rq_resultPrefix rq), PutData ack, FetchParameter fetch], None) \<and>
    ps_paraData (iw_calls (onAckData api ossl kc iv k ack w) ! k) = pd \<and>
    ps_paraDataReady (iw_calls (onAckData api ossl kc iv k ack w) ! k) \<and>
    ps_phase (iw_calls (onAckData api ossl kc iv k ack w) ! k) = ResultScheduled \<and> d_name pd = i_name fetch \<and>
    onParameterReply api bls ossl kc signer (FetchedData pd) rq = (rq1, None) \<and>
    ndnGenBLSSignature_data api bls (m_sk signer) (g_toBeSigned g) = Inr piece \<and>
    m_code (rq_state rq1) = OK \<and> m_signatureValue (rq_state rq1) = piece \<and>
    onResultInterest api ossl kc signer rr2 ri rq1 = (rq2, [PutData result], None) \<and>
    (\<forall>v. ps_aesKey (iw_calls v ! k) = m_aesKey (rq_state rq) \<and> ps_hmacKey (iw_calls v ! k) = m_hmacKey (rq_state rq) \<longrightarrow>
      onResultData api bls ossl kc prefix rnd2 k result v =
        addSignature api bls kc piece (set_call k ((iw_calls v ! k)\<lparr>ps_phase := Delivered piece\<rparr>) v)) \<and>
    ps_aesKey (iw_calls (onAckData api ossl kc iv k ack w) ! k) = m_aesKey (rq_state rq) \<and>
    ps_hmacKey (iw_calls (onAckData api ossl kc iv k ack w) ! k) = m_hmacKey (rq_state rq)"
proof -
  let ?u = "g_toBeSigned g" and ?ps = "ps\<lparr>ps_phase := Ended\<rparr>"
  obtain sent' where sent': "outs = [RegisterParameter (d_name (ps_paraData ps)), SendInterest sent']"
    "i_appParams sent' = block_with api TLV_ApplicationParameters
      [nested_block api tlv_ParameterDataName (name_wire api (d_name (ps_paraData ps))),
       Blk tlv_EcdhPub (ossl_pub ossl (m_privkey (ps_ecdh ps)))]"
    "ps_paraData ps = prepareParameterData api (cr_param rnd) ?u prefix"
    using performRPC_started [OF assms(4-6)] by metis
  have params: "i_appParams i = block_with api TLV_ApplicationParameters
      [nested_block api tlv_ParameterDataName (name_wire api (d_name (ps_paraData ps))),
       Blk tlv_EcdhPub (ossl_pub ossl (m_privkey (ps_ecdh ?ps)))]"
    using assms(7,11) sent'(1,2) by simp
  obtain st ecdh aes hmac ack where sr:
    "onSignRequest api bls ossl signer rr i rqs =
      (rqs @ [\<lparr>rq_resultPrefix = result_name api (m_prefix signer) (rr_requestId rr), rq_state = st, rq_fetching = True\<rparr>],
       [RegisterFilter (result_name api (m_prefix signer) (rr_requestId rr)), PutData ack,
        FetchParameter ((new_interest (d_name (ps_paraData ps)))\<lparr>i_canBePrefix := True, i_mustBeFresh := True, i_lifetime := TIMEOUT\<rparr>)], None)"
    "m_aesKey st = aes" "m_hmacKey st = hmac" "length aes = 16"
    "parseAckReply api ossl ack ?ps = Inr (?ps\<lparr>ps_ecdh := ecdh, ps_aesKey := aes, ps_hmacKey := hmac,
      ps_nextResultName := result_name api (m_prefix signer) (rr_requestId rr) @ [comp_of_version api 0]\<rparr>, ESTIMATE_PROCESS_TIME)"
    using handshake_step [OF assms(1-4) params assms(12,13)] by metis
  let ?ps1 = "?ps\<lparr>ps_ecdh := ecdh, ps_aesKey := aes, ps_hmacKey := hmac,
      ps_nextResultName := result_name api (m_prefix signer) (rr_requestId rr) @ [comp_of_version api 0]\<rparr>"
  let ?rq = "\<lparr>rq_resultPrefix = result_name api (m_prefix signer) (rr_requestId rr), rq_state = st, rq_fetching = True\<rparr>"
  obtain pd where pd: "onAckData api ossl kc iv k ack w = emit [ScheduleFetch ESTIMATE_PROCESS_TIME]
      (set_call k (?ps1\<lparr>ps_paraData := pd, ps_paraDataReady := True, ps_phase := ResultScheduled\<rparr>) w)"
    "hmac_verify kc hmac pd" "d_name pd = d_name (ps_paraData ps)"
    "\<And>st. m_aesKey st = aes \<Longrightarrow> parseParameterData api ossl pd st = Inr ?u"
    by (rule parameter_step [OF assms(2-5), where ack = ack and w = w and k = k and ps = ?ps1 and ms = ESTIMATE_PROCESS_TIME
        and u = ?u and iv = iv])
      (use sr(4,5) assms(8,10) sent'(3) in \<open>simp_all add: prepareParameterData_def Let_def\<close>)
  obtain m where m: "data_unsigned api ?u = Inr m"
    using data_ranges_unsigned [OF assms(3,10)] by blast
  define piece where "piece = blsSignatureSerialize bls encodingBuf_size (blsSign bls (m_sk signer) m)"
  have gen: "ndnGenBLSSignature_data api bls (m_sk signer) ?u = Inr piece"
    by (simp add: ndnGenBLSSignature_data_def m piece_def)
  let ?rq1 = "?rq\<lparr>rq_state := st\<lparr>m_code := OK, m_signatureValue := piece\<rparr>\<rparr>"
  have reply: "onParameterReply api bls ossl kc signer (FetchedData pd) ?rq = (?rq1, None)"
    using pd(2,4) sr(2,3) assms(14) gen by (simp add: set_code_def)
  obtain result rq2 where res: "onResultInterest api ossl kc signer rr2 ri ?rq1 = (rq2, [PutData result], None)"
    "hmac_verify kc hmac result"
    "\<And>ps. ps_aesKey ps = aes \<Longrightarrow> parseResultData api ossl result ps =
      Inr (result_elements api (rq_resultPrefix ?rq1) (rq_state ?rq1))"
    by (rule result_made [OF assms(2-5), where rq = ?rq1 and i = ri and signer = signer and rnd = rr2]) (use sr(2,3,4) assms(15) in simp_all)
  have deliver: "onResultData api bls ossl kc prefix rnd2 k result v =
        addSignature api bls kc piece (set_call k ((iw_calls v ! k)\<lparr>ps_phase := Delivered piece\<rparr>) v)"
    if "ps_aesKey (iw_calls v ! k) = aes" "ps_hmacKey (iw_calls v ! k) = hmac" for v
    using result_step [OF assms(2), where kc = kc and w = v and k = k and d = result and ossl = ossl
        and st = "rq_state ?rq1" and p = "rq_resultPrefix ?rq1"] res(2,3) that by simp
  have call: "iw_calls (onAckData api ossl kc iv k ack w) ! k =
      ?ps1\<lparr>ps_paraData := pd, ps_paraDataReady := True, ps_phase := ResultScheduled\<rparr>"
    using assms(9) by (simp add: pd(1) emit_def) (simp add: set_call_def)
  show ?thesis
    by (rule exI [of _ ?rq], rule exI [of _ ack],
        rule exI [of _ "(new_interest (d_name (ps_paraData ps)))\<lparr>i_canBePrefix := True, i_mustBeFresh := True, i_lifetime := TIMEOUT\<rparr>"],
        rule exI [of _ pd], rule exI [of _ ?rq1],
        rule exI [of _ piece], rule exI [of _ rq2], rule exI [of _ result])
      (use sr(1,2,3) call pd(3) reply gen res(1) deliver in \<open>simp add: new_interest_def del: onParameterReply.simps\<close>)
qed

text \<open>
  What a result means. The signer answers a result Interest of the right length; when the
  keys of both ends agree, the initiator takes the code \<^verbatim>\<open>OK\<close> as the delivery of the stored
  signature value, \<^verbatim>\<open>Processing\<close> as a reason to ask again after a second, and every other
  code as an unavailable signer.
\<close>

theorem result_understood:
  assumes "tlv_laws api" and "packet_laws api" and "ossl_laws ossl" and "keychain_laws kc"
    and "length (m_aesKey (rq_state rq)) = 16" and "length (i_name i) = length (m_prefix signer) + 5"
    and "ps_aesKey (iw_calls w ! k) = m_aesKey (rq_state rq)" and "ps_hmacKey (iw_calls w ! k) = m_hmacKey (rq_state rq)"
  shows "\<exists>rq' d. onResultInterest api ossl kc signer iv i rq = (rq', [PutData d], None) \<and> d_name d = i_name i \<and>
    onResultData api bls ossl kc prefix rnd k d w = (let ps = iw_calls w ! k in
      case m_code (rq_state rq) of
        OK \<Rightarrow> addSignature api bls kc (m_signatureValue (rq_state rq))
          (set_call k (ps\<lparr>ps_phase := Delivered (m_signatureValue (rq_state rq))\<rparr>) w)
      | Processing \<Rightarrow> emit [ScheduleFetch 1000] (set_call k (ps\<lparr>ps_phase := ResultScheduled\<rparr>) w)
      | _ \<Rightarrow> onUnavailableSigner api ossl kc prefix rnd
          (''Received Error code when requesting signer '' @ name_uri api (name_prefix_neg (ps_signerKeyName ps) 2))
          (ps_signerKeyName ps) (set_call k (ps\<lparr>ps_phase := Ended\<rparr>) w))"
proof -
  obtain d rq' where d: "onResultInterest api ossl kc signer iv i rq = (rq', [PutData d], None)" "d_name d = i_name i"
    "hmac_verify kc (m_hmacKey (rq_state rq)) d"
    "\<And>ps. ps_aesKey ps = m_aesKey (rq_state rq) \<Longrightarrow>
      parseResultData api ossl d ps = Inr (result_elements api (rq_resultPrefix rq) (rq_state rq))"
    using result_made [OF assms(1-6)] by metis
  have "hmac_verify kc (ps_hmacKey (iw_calls w ! k)) d" using d(3) assms(8) by simp
  note R = result_step [OF assms(1) this d(4)]
  show ?thesis
    using d(1,2) assms(7)
    by (intro exI [of _ rq'] exI [of _ d])
      (cases "m_code (rq_state rq)"; simp add: R ESTIMATE_PROCESS_TIME_def Let_def)
qed

text \<open>
  The announced name is not used. A result with the code \<^verbatim>\<open>Processing\<close> announces the
  next version of the result name; the initiator reads the name and drops it, so that its next
  Interest asks again for the name it asked for before.
\<close>

theorem processing_reply_same_name:
  assumes "tlv_laws api" and "packet_laws api" and "ossl_laws ossl" and "keychain_laws kc"
    and "length (m_aesKey (rq_state rq)) = 16" and "length (i_name i) = length (m_prefix signer) + 5"
    and "ps_aesKey (iw_calls w ! k) = m_aesKey (rq_state rq)" and "ps_hmacKey (iw_calls w ! k) = m_hmacKey (rq_state rq)"
    and "m_code (rq_state rq) = Processing" and "k < length (iw_calls w)"
  shows "\<exists>rq' d es b nb. onResultInterest api ossl kc signer iv i rq = (rq', [PutData d], None) \<and>
    parseResultData api ossl d (iw_calls w ! k) = Inr es \<and> tlv_get api es tlv_ResultName = Inr b \<and>
    block_from_value api b = Inr nb \<and>
    name_of_block api nb = Inr (rq_resultPrefix rq @ [comp_of_version api ((m_version (rq_state rq) + 1) mod 2 ^ 64)]) \<and>
    (\<exists>j. iw_sent (onResultTimer kc k (onResultData api bls ossl kc prefix rnd k d w)) =
        iw_sent w @ [ScheduleFetch 1000, SendInterest j] \<and>
      i_name j = ps_nextResultName (iw_calls w ! k))"
proof -
  obtain d rq' where d: "onResultInterest api ossl kc signer iv i rq = (rq', [PutData d], None)"
    "hmac_verify kc (m_hmacKey (rq_state rq)) d"
    "\<And>ps. ps_aesKey ps = m_aesKey (rq_state rq) \<Longrightarrow>
      parseResultData api ossl d ps = Inr (result_elements api (rq_resultPrefix rq) (rq_state rq))"
    using result_made [OF assms(1-6)] by metis
  have h: "hmac_verify kc (ps_hmacKey (iw_calls w ! k)) d" using d(2) assms(8) by simp
  let ?w1 = "onResultData api bls ossl kc prefix rnd k d w"
  have w1: "?w1 = emit [ScheduleFetch 1000] (set_call k ((iw_calls w ! k)\<lparr>ps_phase := ResultScheduled\<rparr>) w)"
    using assms(7,9) by (simp add: result_step [OF assms(1) h d(3)] ESTIMATE_PROCESS_TIME_def)
  have call: "iw_calls ?w1 ! k = (iw_calls w ! k)\<lparr>ps_phase := ResultScheduled\<rparr>" "iw_sent ?w1 = iw_sent w @ [ScheduleFetch 1000]"
    using assms(10) unfolding w1 by (simp_all add: emit_def set_call_def)
  let ?j = "(new_interest (ps_nextResultName (iw_calls w ! k)))\<lparr>i_canBePrefix := True, i_mustBeFresh := True\<rparr>"
  obtain si v where j: "key_sign_interest kc (g_signingKeyName (iw_global ?w1)) ?j = Inr (?j\<lparr>i_sigInfo := Some si, i_sigValue := v\<rparr>)"
    using key_signed_interest [OF assms(4)] by metis
  have "iw_sent (onResultTimer kc k ?w1) = iw_sent w @ [ScheduleFetch 1000, SendInterest (?j\<lparr>i_sigInfo := Some si, i_sigValue := v\<rparr>)]"
    using call j by (simp add: onResultTimer_def Let_def) (simp add: emit_def set_call_def)
  moreover have "i_name (?j\<lparr>i_sigInfo := Some si, i_sigValue := v\<rparr>) = ps_nextResultName (iw_calls w ! k)"
    by (simp add: new_interest_def)
  moreover have "parseResultData api ossl d (iw_calls w ! k) = Inr (result_elements api (rq_resultPrefix rq) (rq_state rq))"
    using d(3) assms(7) by simp
  ultimately show ?thesis
    using d(1) result_lookups(4) [OF assms(1,9), of "rq_resultPrefix rq"] from_nested_block [OF assms(1)] name_of_wire [OF assms(1)]
    by blast
qed

text \<open>The step that takes the last piece.\<close>

lemma last_piece_step:
  assumes "keychain_laws kc" and "initiator_reach api bls ossl kc prefix r ud w"
    and "initiator_enabled w (ResultReply k (FetchedData d) rnd)"
    and "hmac_verify kc (ps_hmacKey (iw_calls w ! k)) d"
    and "parseResultData api ossl d ((iw_calls w ! k)\<lparr>ps_phase := Ended\<rparr>) = Inr es"
    and "tlv_get api es tlv_Status = Inr st" and "read_string api st = ''200''"
    and "tlv_get api es tlv_BLSSigValue = Inr b"
    and "Suc (length (g_fetchedSignatures (iw_global w))) = length (g_signers (iw_global w))"
  shows "let w' = initiator_handle api bls ossl kc prefix w (ResultReply k (FetchedData d) rnd) in
    initiator_reach api bls ossl kc prefix r ud w' \<and> (\<exists>d' i'. successes w' = [(d', i')]) \<and>
    g_signers (iw_global w') = g_signers (iw_global w) \<and>
    g_fetchedSignatures (iw_global w') = g_fetchedSignatures (iw_global w) @ [blk_value b]"
proof -
  let ?ps = "(iw_calls w ! k)\<lparr>ps_phase := Delivered (blk_value b)\<rparr>"
    and ?pieces = "g_fetchedSignatures (iw_global w) @ [blk_value b]"
    and ?e = "ResultReply k (FetchedData d) rnd"
  have ok: "session_ok api bls kc (unfinished api r ud prefix) (info_name api r ud prefix) w"
    by (rule reach_ok [OF assms(2)])
  have k: "k < length (iw_calls w)" "is_active (ps_phase (iw_calls w ! k))"
    using assms(3) by (auto simp: is_active_def)
  have step: "onResultData api bls ossl kc prefix rnd k d w = addSignature api bls kc (blk_value b) (set_call k ?ps w)"
    using assms(4-8) by (simp add: onResultData_def)
  obtain agg where agg: "ndnBLSAggregateSignature_bufs bls ?pieces = Inr agg"
    by (cases ?pieces) (simp_all add: ndnBLSAggregateSignature_bufs_def split_beta Let_def)
  obtain si v where sig: "\<And>i. i = (g_signInfo (iw_global w))\<lparr>d_content :=
      content_of api (signers_wireEncode api (g_signers (iw_global w)))\<rparr> \<Longrightarrow>
      key_sign_data kc (g_signingKeyName (iw_global w)) i = Inr (i\<lparr>d_sigInfo := Some si, d_sigValue := v\<rparr>)"
    using key_signed_data [OF assms(1)] by metis
  have "initiator_reach api bls ossl kc prefix r ud (initiator_handle api bls ossl kc prefix w ?e)"
    by (rule reach_extend [OF assms(2,3)])
  moreover have "successes w = []" by (rule active_no_success [OF ok k])
  ultimately show ?thesis
    using agg sig [OF refl] assms(9)
    by (simp add: step addSignature_def Let_def set_call_def emit_def successes_def)
qed

text \<open>
  The last piece ends the run. When the result that delivers the last missing piece arrives
  in a reachable world, the success callback is called, once, in this step.
\<close>

theorem last_piece_reports:
  assumes "keychain_laws kc" and "initiator_reach api bls ossl kc prefix r ud w"
    and "initiator_enabled w (ResultReply k (FetchedData d) rnd)"
    and "hmac_verify kc (ps_hmacKey (iw_calls w ! k)) d"
    and "parseResultData api ossl d ((iw_calls w ! k)\<lparr>ps_phase := Ended\<rparr>) = Inr es"
    and "tlv_get api es tlv_Status = Inr st" and "read_string api st = ''200''"
    and "tlv_get api es tlv_BLSSigValue = Inr b"
    and "Suc (length (g_fetchedSignatures (iw_global w))) = length (g_signers (iw_global w))"
  shows "length (successes (initiator_handle api bls ossl kc prefix w (ResultReply k (FetchedData d) rnd))) = 1"
  using last_piece_step [OF assms] by (auto simp: Let_def)

text \<open>
  C11: the initiator trusts the pieces. Whatever bytes the last signer sends as its signature piece,
  the initiator reports success with the aggregate of what it was sent; whether a verifier accepts
  what was reported is decided only by the verification of this aggregate under the sum of the
  keys, which the initiator never runs.
\<close>

theorem initiator_trusts_pieces:
  assumes "tlv_laws api" and "packet_laws api" and "keychain_laws kc"
    and "initiator_reach api bls ossl kc prefix r ud w"
    and "initiator_enabled w (ResultReply k (FetchedData d) rnd)"
    and "hmac_verify kc (ps_hmacKey (iw_calls w ! k)) d"
    and "parseResultData api ossl d ((iw_calls w ! k)\<lparr>ps_phase := Ended\<rparr>) = Inr es"
    and "tlv_get api es tlv_Status = Inr st" and "read_string api st = ''200''"
    and "tlv_get api es tlv_BLSSigValue = Inr b"
    and "Suc (length (g_fetchedSignatures (iw_global w))) = length (g_signers (iw_global w))"
    and "\<forall>n \<in> set (g_signers (iw_global w)). trusted_key c n = Some (pk n)"
    and "container_passSchema api c (d_name ud) (g_signers (iw_global w))"
  shows "\<exists>d' i' agg sum m.
    successes (initiator_handle api bls ossl kc prefix w (ResultReply k (FetchedData d) rnd)) = [(d', i')] \<and>
    ndnBLSAggregateSignature_bufs bls (g_fetchedSignatures (iw_global w) @ [blk_value b]) = Inr agg \<and>
    ndnBLSAggregatePublicKey bls (map pk (g_signers (iw_global w))) = Inr sum \<and>
    data_unsigned api (unfinished api r ud prefix) = Inr m \<and>
    verify api bls c d' i' = Inr (blsVerify bls (blsSignatureDeserialize bls (sig_uninit bls) agg) sum m = 1)"
proof -
  let ?w = "initiator_handle api bls ossl kc prefix w (ResultReply k (FetchedData d) rnd)"
    and ?td = "unfinished api r ud prefix" and ?signers = "g_signers (iw_global w)"
  obtain d' i' where w': "initiator_reach api bls ossl kc prefix r ud ?w" "successes ?w = [(d', i')]"
    "g_signers (iw_global ?w) = ?signers"
    "g_fetchedSignatures (iw_global ?w) = g_fetchedSignatures (iw_global w) @ [blk_value b]"
    using last_piece_step [OF assms(3-11)] by (auto simp: Let_def)
  note ok = reach_ok [OF w'(1)]
  have agg: "ndnBLSAggregateSignature_bufs bls (g_fetchedSignatures (iw_global w) @ [blk_value b]) = Inr (d_sigValue d')"
    and td: "d'\<lparr>d_sigValue := []\<rparr> = ?td"
    using ok w'(2,4) by (auto simp: session_ok_def)
  have info: "info_for api d' ?signers i'"
    using success_info_for [OF assms(3) ok _ unfinished_props(2)] w'(2,3) by simp
  obtain n ns where signers: "?signers = n # ns" using assms(11) by (cases ?signers) auto
  let ?sum = "foldl (blsPublicKeyAdd bls) (pk n) (map pk ns)"
  have key: "aggregateKey bls c ?signers = Inr ?sum"
    using aggregateKey_trusted [OF assms(12), of bls] by (simp add: signers)
  have "d_name d' = d_name ud" using arg_cong [OF td, of d_name] by (simp add: unfinished_props)
  then have v: "verify api bls c d' i' = ndnBLSVerify_data api bls ?sum d'"
    using assms(13) key by (simp add: verify_info_for [OF assms(1,2) info])
  have "d_sigInfo d' = d_sigInfo ?td" using arg_cong [OF td, of d_sigInfo] by simp
  then obtain rs where rs: "data_ranges api d' = Inr rs" "data_unsigned api d' = Inr (concat rs)"
    using data_ranges_unsigned [OF assms(2), of d'] unfinished_sigInfo [of api r ud prefix] by auto
  have "data_unsigned api ?td = Inr (concat rs)"
    using rs(2) data_unsigned_sigValue [OF assms(2), where d = d' and v = "[]"] by (simp add: td)
  then show ?thesis
    using w'(2) agg v rs(1)
    by (simp add: signers ndnBLSAggregatePublicKey_def ndnBLSVerify_data_def foldl_append_concat)
qed

section \<open>Concrete inputs\<close>

text \<open>The secret keys are the public keys in the instance.\<close>

lemma comm_add_demo: "comm_add ((+) :: nat \<Rightarrow> nat \<Rightarrow> nat)"
  by (simp add: comm_add_def)

definition demo_sk :: "gcomp name \<Rightarrow> nat" where
  "demo_sk n = (case trusted_key demo_container n of Some k \<Rightarrow> k | None \<Rightarrow> 0)"

lemma demo_sk_key: "trusted_key demo_container n \<noteq> None \<Longrightarrow>
    trusted_key demo_container n = Some (blsGetPublicKey demo_bls (demo_sk n))"
  by (auto simp: demo_sk_def demo_bls_def)

text \<open>The signers of the demo container, each with its secret key, which accept and approve everything.\<close>

definition demo_party :: "gcomp name \<Rightarrow> (gcomp, nat, nat) bls_signer" where
  "demo_party n = demo_signer\<lparr>m_sk := demo_sk n, m_prefix := name_prefix_neg n 2\<rparr>"

lemma demo_willing: "all_willing demo kc demo_party td w"
proof -
  have "deliverable demo sent" for sent
    unfolding deliverable_def by (rule exI [of _ "GComp 2 ''digest''"]) simp
  then show ?thesis by (simp add: all_willing_def willing_def demo_party_def demo_signer_def)
qed

lemma net_laws_demo: "net_laws demo demo_bls (+) demo_ossl demo_keychain"
  using bls_laws_demo demo_laws by (simp add: net_laws_def)

lemma demo_run:
  obtains w :: "(gcomp, nat, nat) initiator_world" where "demo_start demo_container demo_schema = Inr w"
    "g_signers (iw_global w) = demo_signers" "distinct (param_names (iw_calls w))"
proof -
  obtain w :: "(gcomp, nat, nat) initiator_world" where w: "demo_start demo_container demo_schema = Inr w"
    "g_signers (iw_global w) = demo_signers"
    using demo_started [OF demo_selection demo_no_empty_name] by metis
  have "inj (\<lambda>j. comp_of_number demo (cr_param (demo_random j)))"
    using leading_digits_of by (simp add: inj_def demo_random_def) (metis add_left_cancel option.inject)
  from start_names [OF ossl_laws_demo keychain_laws_demo w(1) this] w that show ?thesis by blast
qed

lemma demo_schema_found:
  "find (\<lambda>s. schema_match demo s (d_name (new_data (key ''data'' ''7'')))) (m_schemas demo_container) = Some demo_schema"
  by (simp add: demo_container_def schema_match_def demo_schema_def new_data_def)

lemma demo_party_key: "\<forall>n. trusted_key demo_container n \<noteq> None \<longrightarrow>
    trusted_key demo_container n = Some (blsGetPublicKey demo_bls (m_sk (demo_party n)))"
  using demo_sk_key by (simp add: demo_party_def)

theorem network_works_witness:
  "\<exists>w es s d i. demo_start demo_container demo_schema = Inr w \<and>
    exec (network_enabled demo demo_bls demo_ossl demo_keychain [GComp 8 ''i''] demo_party)
      (network_handle demo demo_bls demo_ossl demo_keychain [GComp 8 ''i''] demo_party) (network_start w) es s \<and>
    successes (nw_initiator s) = [(d, i)] \<and> verify demo demo_bls demo_container d i = Inr True"
proof -
  obtain w :: "(gcomp, nat, nat) initiator_world" where w: "demo_start demo_container demo_schema = Inr w"
    "g_signers (iw_global w) = demo_signers" "distinct (param_names (iw_calls w))"
    by (rule demo_run)
  have ne: "g_signers (iw_global w) \<noteq> []" by (simp add: w(2))
  from network_works [OF net_laws_demo comm_add_demo w(1) ne demo_schema_found demo_party_key demo_no_empty_name w(3) demo_willing] w(1)
  show ?thesis by blast
qed

text \<open>A network at the successful end of the run.\<close>

abbreviation demo_network :: "(gcomp, nat, nat) network \<Rightarrow> bool" where
  "demo_network \<equiv> network_reach demo demo_bls demo_ossl demo_keychain [GComp 8 ''i''] demo_party 7 (new_data (key ''data'' ''7''))"

lemma demo_network_success:
  obtains s d i where "demo_network s" "(d, i) \<in> set (successes (nw_initiator s))"
    "g_signers (iw_global (nw_initiator s)) = demo_signers"
proof -
  obtain w :: "(gcomp, nat, nat) initiator_world" where w: "demo_start demo_container demo_schema = Inr w"
    "g_signers (iw_global w) = demo_signers" "distinct (param_names (iw_calls w))"
    by (rule demo_run)
  have ne: "g_signers (iw_global w) \<noteq> []" by (simp add: w(2))
  obtain es s where E: "exec (network_enabled demo demo_bls demo_ossl demo_keychain [GComp 8 ''i''] demo_party)
      (network_handle demo demo_bls demo_ossl demo_keychain [GComp 8 ''i''] demo_party) (network_start w) es s"
    "successes (nw_initiator s) \<noteq> []" "g_signers (iw_global (nw_initiator s)) = g_signers (iw_global w)"
    using network_completes [OF net_laws_demo w(1) ne demo_no_empty_name w(3) demo_willing] by blast
  have "demo_network s"
    unfolding network_reach_def using w(1,3) demo_no_empty_name E(1) by blast
  moreover obtain d i where "(d, i) \<in> set (successes (nw_initiator s))"
    using E(2) by (cases "successes (nw_initiator s)") auto
  ultimately show ?thesis using that E(3) w(2) by simp
qed

theorem network_verified_witness:
  "\<exists>s d i. demo_network s \<and> (d, i) \<in> set (successes (nw_initiator s)) \<and> verify demo demo_bls demo_container d i = Inr True \<and>
    asyncVerify_reply demo demo_bls demo_container d (InfoData i) = Inr [FinishCallback True]"
proof -
  obtain s d i where s: "demo_network s" "(d, i) \<in> set (successes (nw_initiator s))"
    "g_signers (iw_global (nw_initiator s)) = demo_signers"
    by (rule demo_network_success)
  have keys: "\<forall>n \<in> set (g_signers (iw_global (nw_initiator s))).
      trusted_key demo_container n = Some (blsGetPublicKey demo_bls (m_sk (demo_party n)))"
  proof
    fix n assume "n \<in> set (g_signers (iw_global (nw_initiator s)))"
    then have "trusted_key demo_container n \<noteq> None" by (auto simp: s(3) trusted_key_def demo_container_def)
    then show "trusted_key demo_container n = Some (blsGetPublicKey demo_bls (m_sk (demo_party n)))"
      using demo_party_key by blast
  qed
  have "container_passSchema demo demo_container (d_name (new_data (key ''data'' ''7''))) (g_signers (iw_global (nw_initiator s)))"
    using demo_policy by (simp add: s(3) new_data_def)
  from network_verified [OF net_laws_demo comm_add_demo s(1,2) keys this] s(1,2) show ?thesis by blast
qed

theorem network_consent_witness:
  "\<exists>s d i. demo_network s \<and> (d, i) \<in> set (successes (nw_initiator s)) \<and>
    g_signers (iw_global (nw_initiator s)) = demo_signers \<and> d_name d = key ''data'' ''7'' \<and>
    (\<forall>n \<in> set demo_signers. m_verifyToBeSignedCallback (demo_party n) (unfinished demo 7 (new_data (key ''data'' ''7'')) [GComp 8 ''i'']))"
proof -
  obtain s d i where s: "demo_network s" "(d, i) \<in> set (successes (nw_initiator s))"
    "g_signers (iw_global (nw_initiator s)) = demo_signers"
    by (rule demo_network_success)
  note R = network_consent [OF net_laws_demo s(1,2)]
  then have "d\<lparr>d_sigValue := []\<rparr> = unfinished demo 7 (new_data (key ''data'' ''7'')) [GComp 8 ''i'']" by blast
  from arg_cong [OF this, of d_name] have "d_name d = key ''data'' ''7''"
    by (simp add: unfinished_props new_data_name)
  with R [unfolded s(3)] s show ?thesis by blast
qed

theorem run_refines_collection_witness:
  "\<exists>w v. demo_start demo_container demo_schema = Inr w \<and> successes v \<noteq> [] \<and> demo_reach v \<and>
    rtranclp collect (collection_start demo_signers) (collection_of v) \<and> co_closed (collection_of v) \<and>
    co_given (collection_of v) = set demo_signers"
proof -
  obtain w :: "(gcomp, nat, nat) initiator_world" where w: "demo_start demo_container demo_schema = Inr w"
    "g_signers (iw_global w) = demo_signers"
    using demo_started [OF demo_selection demo_no_empty_name] by metis
  obtain es v where E: "demo_initiator_exec w es v" "succeeded (\<lambda>_. []) demo_signers v"
    using honest_run [OF demo_laws w(1), where F = "\<lambda>_. []" and bls = demo_bls] unfolding w(2) by blast
  have none: "demo_initiator_exec v [] v" by simp
  have R: "demo_reach v" unfolding initiator_reach_def using w(1) demo_no_empty_name E(1) by blast
  have v: "successes v \<noteq> []" "g_signers (iw_global v) = demo_signers" using E(2) by (simp_all add: succeeded_def)
  note C = run_refines_collection [OF ossl_laws_demo keychain_laws_demo w(1) demo_no_empty_name E(1) none, unfolded w(2)]
  then have ok: "collection_ok (collection_of v)" by blast
  have closed: "co_closed (collection_of v)" using v(1) by (simp add: collection_of_def)
  have "co_given (collection_of v) = set demo_signers"
    using ok closed by (simp add: collection_ok_def) (simp add: collection_of_def v(2))
  with C closed w(1) v(1) R show ?thesis by blast
qed

theorem protocol_works_witness:
  "\<exists>w es w' d i. demo_start demo_container demo_schema = Inr w \<and> demo_initiator_exec w es w' \<and>
    successes w' = [(d, i)] \<and> verify demo demo_bls demo_container d i = Inr True"
proof -
  obtain w :: "(gcomp, nat, nat) initiator_world" where w: "demo_start demo_container demo_schema = Inr w"
    "g_signers (iw_global w) = demo_signers"
    using demo_started [OF demo_selection demo_no_empty_name] by metis
  have ne: "g_signers (iw_global w) \<noteq> []" by (simp add: w(2))
  have keys: "\<forall>n. trusted_key demo_container n \<noteq> None \<longrightarrow>
      trusted_key demo_container n = Some (blsGetPublicKey demo_bls (demo_sk n))"
    using demo_sk_key by blast
  from protocol_works [OF bls_laws_demo comm_add_demo demo_laws w(1) ne demo_schema_found keys demo_no_empty_name] w(1)
  show ?thesis by blast
qed

theorem reported_packet_verifies_witness:
  "\<exists>w d i. demo_reach w \<and> successes w = [(d, i)] \<and> verify demo demo_bls demo_container d i = Inr True"
proof -
  let ?td = "unfinished demo 7 (new_data (key ''data'' ''7'')) [GComp 8 ''i'']"
  obtain m where m: "data_unsigned demo ?td = Inr m"
    using data_ranges_unsigned [OF packet_laws_demo unfinished_sigInfo] by blast
  define F where "F = (\<lambda>n. blsSignatureSerialize demo_bls encodingBuf_size (blsSign demo_bls (demo_sk n) m))"
  obtain w d i where w: "demo_reach w" "successes w = [(d, i)]" "g_signers (iw_global w) = demo_signers"
    "\<forall>ps \<in> set (iw_calls w). ps_phase ps = Delivered (F (ps_signerKeyName ps))"
    by (rule demo_success [of F])
  have mem: "(d, i) \<in> set (successes w)" by (simp add: w(2))
  have pieces: "\<forall>ps \<in> set (iw_calls w). \<forall>b. ps_phase ps = Delivered b \<longrightarrow>
      ndnGenBLSSignature_data demo demo_bls (demo_sk (ps_signerKeyName ps)) ?td = Inr b"
    using w(4) m by (simp add: F_def ndnGenBLSSignature_data_def)
  have keys: "\<forall>n \<in> set (g_signers (iw_global w)). trusted_key demo_container n = Some (blsGetPublicKey demo_bls (demo_sk n))"
  proof
    fix n assume "n \<in> set (g_signers (iw_global w))"
    then have "trusted_key demo_container n \<noteq> None" by (auto simp: w(3) trusted_key_def demo_container_def)
    then show "trusted_key demo_container n = Some (blsGetPublicKey demo_bls (demo_sk n))" by (rule demo_sk_key)
  qed
  have "container_passSchema demo demo_container (d_name (new_data (key ''data'' ''7''))) (g_signers (iw_global w))"
    using demo_policy by (simp add: w(3) new_data_def)
  from reported_packet_verifies [OF bls_laws_demo comm_add_demo tlv_laws_demo packet_laws_demo keychain_laws_demo
      w(1) mem pieces keys this] w(1,2)
  show ?thesis by blast
qed

text \<open>One call and an Interest that carries its parameters.\<close>

abbreviation "demo_global \<equiv> \<lparr>g_signers = demo_signers, g_schema = demo_schema, g_toBeSigned = demo_packet,
  g_signInfo = new_data (key ''i'' ''1''), g_fetchedSignatures = [], g_signingKeyName = key ''i'' ''1''\<rparr>"

lemma demo_call:
  obtains ps sent where "performRPC demo demo_ossl demo_keychain [GComp 8 ''i''] (demo_random 0) (key ''a'' ''1'') demo_global =
      ([ps], [RegisterParameter (d_name (ps_paraData ps)), SendInterest sent], None)"
  using performRPC_starts [OF ossl_laws_demo keychain_laws_demo] by metis

lemma demo_accepts: "m_verifySignRequestCallback demo_signer i" "m_verifyToBeSignedCallback demo_signer u"
  by (simp_all add: demo_signer_def)

lemma demo_arrived: "\<exists>i. i_appParams i = i_appParams sent \<and> interest_digest_valid demo i"
  by (rule exI [of _ "(new_interest [GComp 2 ''digest''])\<lparr>i_appParams := i_appParams sent\<rparr>"]) (simp add: new_interest_def)

abbreviation "demo_rr \<equiv> \<lparr>rr_ecdh = 5, rr_salt = (\<lambda>_. 1), rr_requestId = 9, rr_iv = (\<lambda>_. 2)\<rparr>"

theorem handshake_witness:
  "\<exists>ps rq ack ps' f1 f2 i. onSignRequest demo demo_bls demo_ossl demo_signer demo_rr i [] = ([rq], [f1, PutData ack, f2], None) \<and>
    parseAckReply demo demo_ossl ack ps = Inr (ps', 1000) \<and>
    ps_aesKey ps' = m_aesKey (rq_state rq) \<and> ps_hmacKey ps' = m_hmacKey (rq_state rq)"
proof -
  obtain ps sent where c: "performRPC demo demo_ossl demo_keychain [GComp 8 ''i''] (demo_random 0) (key ''a'' ''1'') demo_global =
      ([ps], [RegisterParameter (d_name (ps_paraData ps)), SendInterest sent], None)"
    by (rule demo_call)
  obtain i where i: "i_appParams i = i_appParams sent" "interest_digest_valid demo i" using demo_arrived by blast
  from handshake [OF bls_laws_demo demo_laws c, of demo_signer demo_rr "[]"] i demo_accepts(1)
  obtain rq ack fetch ecdh where
    r: "onSignRequest demo demo_bls demo_ossl demo_signer demo_rr i [] = ([] @ [rq], [RegisterFilter (rq_resultPrefix rq), PutData ack, FetchParameter fetch], None)"
    and p: "parseAckReply demo demo_ossl ack ps = Inr (ps\<lparr>ps_ecdh := ecdh, ps_aesKey := m_aesKey (rq_state rq),
          ps_hmacKey := m_hmacKey (rq_state rq),
          ps_nextResultName := rq_resultPrefix rq @ [comp_of_version demo 0]\<rparr>, 1000)"
    by blast
  show ?thesis by (intro exI conjI, use r in simp, use p in simp) simp_all
qed

text \<open>A world with one call, under given keys.\<close>

definition call_world :: "(gcomp, nat) per_signer \<Rightarrow> (gcomp, nat, nat) initiator_world" where
  "call_world ps = \<lparr>iw_container = demo_container, iw_global = demo_global, iw_calls = [ps], iw_sent = [], iw_faults = []\<rparr>"

definition keyed_call :: "bytes \<Rightarrow> string \<Rightarrow> (gcomp, nat) per_signer" where
  "keyed_call aes hmac = \<lparr>ps_signerKeyName = key ''a'' ''1'', ps_ecdh = \<lparr>m_privkey = 3, m_pubKey = [], m_secret = []\<rparr>,
    ps_aesKey = aes, ps_hmacKey = hmac, ps_paraData = new_data [], ps_paraDataReady = True,
    ps_nextResultName = key ''r'' ''0'', ps_paraPrefixHandle = False, ps_phase = AwaitResult\<rparr>"

abbreviation "demo_fetch \<equiv> new_interest (replicate 6 (GComp 8 ''r''))"

lemma demo_fetch_length: "length (i_name demo_fetch) = length (m_prefix demo_signer) + 5"
  by (simp add: new_interest_def demo_signer_def)

theorem honest_call_delivers_witness:
  "\<exists>(ps :: (gcomp, nat) per_signer) rq pd rq1 piece. onParameterReply demo demo_bls demo_ossl demo_keychain demo_signer (FetchedData pd) rq = (rq1, None) \<and>
    ndnGenBLSSignature_data demo demo_bls 1 demo_packet = Inr piece \<and> m_signatureValue (rq_state rq1) = piece \<and>
    ps_paraData ps = pd \<and> ps_phase ps = ResultScheduled"
proof -
  obtain ps sent where c: "performRPC demo demo_ossl demo_keychain [GComp 8 ''i''] (demo_random 0) (key ''a'' ''1'') demo_global =
      ([ps], [RegisterParameter (d_name (ps_paraData ps)), SendInterest sent], None)"
    by (rule demo_call)
  obtain i where i: "i_appParams i = i_appParams sent" "interest_digest_valid demo i" using demo_arrived by blast
  have w: "iw_calls (call_world ps) ! 0 = ps" "0 < length (iw_calls (call_world ps))" by (simp_all add: call_world_def)
  have u: "d_sigInfo (g_toBeSigned demo_global) \<noteq> None" by simp
  have sk: "m_sk demo_signer = 1" by (simp add: demo_signer_def)
  have sent: "SendInterest sent \<in> set [RegisterParameter (d_name (ps_paraData ps)), SendInterest sent]" by simp
  note H = honest_call_delivers [OF bls_laws_demo demo_laws c sent w u i(1) demo_accepts(1) i(2) demo_accepts(2) demo_fetch_length,
      of demo_rr "[]" "\<lambda>_. 0" "\<lambda>_. 0" demo_random]
  then obtain rq ack pd rq1 piece where r:
    "ps_paraData (iw_calls (onAckData demo demo_ossl demo_keychain (\<lambda>_. 0) 0 ack (call_world ps)) ! 0) = pd"
    "ps_phase (iw_calls (onAckData demo demo_ossl demo_keychain (\<lambda>_. 0) 0 ack (call_world ps)) ! 0) = ResultScheduled"
    "onParameterReply demo demo_bls demo_ossl demo_keychain demo_signer (FetchedData pd) rq = (rq1, None)"
    "ndnGenBLSSignature_data demo demo_bls (m_sk demo_signer) (g_toBeSigned demo_global) = Inr piece"
    "m_signatureValue (rq_state rq1) = piece"
    by blast
  have "ndnGenBLSSignature_data demo demo_bls 1 demo_packet = Inr piece" using r(4) unfolding sk by simp
  with r(1-3,5) show ?thesis by blast
qed

theorem result_understood_witness:
  "\<exists>rq rq' d w c. m_code (rq_state rq) = FailedDependency \<and>
    onResultInterest demo demo_ossl demo_keychain demo_signer (\<lambda>_. 0) demo_fetch rq = (rq', [PutData d], None) \<and>
    iw_container (onResultData demo demo_bls demo_ossl demo_keychain [] demo_random 0 d w) = c \<and>
    key ''a'' ''1'' \<in> set (m_unavailableSigners c)"
proof -
  obtain rq0 :: "(gcomp, nat) request" where rq0: "length (m_aesKey (rq_state rq0)) = 16"
    using demo_request by metis
  let ?rq = "set_code FailedDependency rq0"
  let ?w = "call_world (keyed_call (m_aesKey (rq_state ?rq)) (m_hmacKey (rq_state ?rq)))"
  have k: "length (m_aesKey (rq_state ?rq)) = 16" "m_code (rq_state ?rq) = FailedDependency"
    using rq0 by (simp_all add: set_code_def)
  have w: "ps_aesKey (iw_calls ?w ! 0) = m_aesKey (rq_state ?rq)" "ps_hmacKey (iw_calls ?w ! 0) = m_hmacKey (rq_state ?rq)"
    "iw_container ?w = demo_container" "ps_signerKeyName (iw_calls ?w ! 0) = key ''a'' ''1''"
    by (simp_all add: call_world_def keyed_call_def)
  obtain rq' d where r: "onResultInterest demo demo_ossl demo_keychain demo_signer (\<lambda>_. 0) demo_fetch ?rq = (rq', [PutData d], None)"
    "onResultData demo demo_bls demo_ossl demo_keychain [] demo_random 0 d ?w =
      onUnavailableSigner demo demo_ossl demo_keychain [] demo_random
          (''Received Error code when requesting signer '' @ name_uri demo (name_prefix_neg (ps_signerKeyName (iw_calls ?w ! 0)) 2))
          (ps_signerKeyName (iw_calls ?w ! 0)) (set_call 0 ((iw_calls ?w ! 0)\<lparr>ps_phase := Ended\<rparr>) ?w)"
    using result_understood [OF demo_laws k(1) demo_fetch_length w(1,2), of "\<lambda>_. 0" demo_bls "[]" demo_random] k(2)
    by (auto simp: Let_def)
  have "key ''a'' ''1'' \<in> set (m_unavailableSigners (iw_container
      (onResultData demo demo_bls demo_ossl demo_keychain [] demo_random 0 d ?w)))"
    unfolding r(2) w(4)
    by (subst onUnavailableSigner_container)
      (simp_all add: call_world_def set_call_def demo_no_empty_name mark_unavailable_def)
  with r(1) k(2) show ?thesis by blast
qed

theorem processing_reply_same_name_witness:
  "\<exists>rq rq' d w j. m_code (rq_state rq) = Processing \<and>
    onResultInterest demo demo_ossl demo_keychain demo_signer (\<lambda>_. 0) demo_fetch rq = (rq', [PutData d], None) \<and>
    iw_sent (onResultTimer demo_keychain 0 (onResultData demo demo_bls demo_ossl demo_keychain [] demo_random 0 d w)) =
      [ScheduleFetch 1000, SendInterest j] \<and> i_name j = key ''r'' ''0''"
proof -
  obtain rq :: "(gcomp, nat) request" where rq: "length (m_aesKey (rq_state rq)) = 16" "m_code (rq_state rq) = Processing"
    using demo_request by metis
  let ?w = "call_world (keyed_call (m_aesKey (rq_state rq)) (m_hmacKey (rq_state rq)))"
  have w: "ps_aesKey (iw_calls ?w ! 0) = m_aesKey (rq_state rq)" "ps_hmacKey (iw_calls ?w ! 0) = m_hmacKey (rq_state rq)"
    "0 < length (iw_calls ?w)" "iw_sent ?w = []" "ps_nextResultName (iw_calls ?w ! 0) = key ''r'' ''0''"
    by (simp_all add: call_world_def keyed_call_def)
  from processing_reply_same_name [OF demo_laws rq(1) demo_fetch_length w(1,2) rq(2) w(3), of "\<lambda>_. 0" demo_bls "[]" demo_random]
  obtain rq' d j where "onResultInterest demo demo_ossl demo_keychain demo_signer (\<lambda>_. 0) demo_fetch rq = (rq', [PutData d], None)"
    "iw_sent (onResultTimer demo_keychain 0 (onResultData demo demo_bls demo_ossl demo_keychain [] demo_random 0 d ?w)) =
      iw_sent ?w @ [ScheduleFetch 1000, SendInterest j]" "i_name j = ps_nextResultName (iw_calls ?w ! 0)"
    by blast
  with rq(2) show ?thesis unfolding w(4,5) append_Nil by blast
qed

text \<open>The run with one signer, at the arrival of its result.\<close>

text \<open>
  A run with one signer, up to the arrival of its result, whose piece is the byte 7.
\<close>

abbreviation "one_container \<equiv> small_container\<lparr>m_schemas := [one_schema]\<rparr>"

lemma demo_last_piece:
  obtains w e k d rnd es st b where "e = ResultReply k (FetchedData d) rnd" and "demo_reach w" and "initiator_enabled w e"
    and "hmac_verify demo_keychain (ps_hmacKey (iw_calls w ! k)) d"
    and "parseResultData demo demo_ossl d ((iw_calls w ! k)\<lparr>ps_phase := Ended\<rparr>) = Inr es"
    and "tlv_get demo es tlv_Status = Inr st" and "read_string demo st = ''200''"
    and "tlv_get demo es tlv_BLSSigValue = Inr b" and "blk_value b = [7]"
    and "Suc (length (g_fetchedSignatures (iw_global w))) = length (g_signers (iw_global w))"
    and "g_fetchedSignatures (iw_global w) = []" and "g_signers (iw_global w) = [key ''a'' ''1'']" and "successes w = []"
proof -
  have t: "trusted_key small_container [] = None" by (simp add: trusted_key_def)
  obtain w :: "(gcomp, nat, nat) initiator_world" where w: "demo_start small_container one_schema = Inr w"
    "length (iw_calls w) = length [key ''a'' ''1'']" "progress (\<lambda>_. []) [key ''a'' ''1''] 0 w"
    using demo_started [OF small_selection t] by metis
  have p: "0 < length (iw_calls w)" "ps_phase (iw_calls w ! 0) = AwaitAck" "\<not> blocked w"
    "g_fetchedSignatures (iw_global w) = []" "g_signers (iw_global w) = [key ''a'' ''1'']"
    using w(2,3) by (simp_all add: progress_def)
  obtain fs w2 ps where E: "demo_initiator_exec w fs w2"
    and w2: "iw_calls w2 = (iw_calls w)[0 := ps]" "iw_global w2 = iw_global w" "ps_phase ps = AwaitResult"
      "length (ps_aesKey ps) = 16" "\<not> blocked w2"
    by (rule call_to_result [OF demo_laws p(1-3)])
  have reach: "demo_reach w2" unfolding initiator_reach_def using w(1) t E by blast
  have call: "iw_calls w2 ! 0 = ps" "0 < length (iw_calls w2)" using p(1) by (simp_all add: w2(1))
  define st where "st = \<lparr>m_ecdh = ps_ecdh ps, m_aesKey = ps_aesKey ps, m_code = OK, m_signatureValue = [7],
    m_version = 0, m_resultPrefixHandle = True, m_hmacKey = ps_hmacKey ps\<rparr>"
  define rq :: "(gcomp, nat) request" where "rq = \<lparr>rq_resultPrefix = [], rq_state = st, rq_fetching = False\<rparr>"
  have "length (m_aesKey (rq_state rq)) = 16" by (simp add: rq_def st_def w2(4))
  then obtain d where d: "hmac_verify demo_keychain (m_hmacKey (rq_state rq)) d"
    "\<And>ps. ps_aesKey ps = m_aesKey (rq_state rq) \<Longrightarrow>
      parseResultData demo demo_ossl d ps = Inr (result_elements demo (rq_resultPrefix rq) (rq_state rq))"
    using result_made [OF demo_laws _ demo_fetch_length] by metis
  let ?e = "ResultReply 0 (FetchedData d) demo_random"
  have en: "initiator_enabled w2 ?e" using call w2(3,5) by simp
  have h: "hmac_verify demo_keychain (ps_hmacKey (iw_calls w2 ! 0)) d" using d(1) call(1) by (simp add: rq_def st_def)
  have es: "parseResultData demo demo_ossl d ((iw_calls w2 ! 0)\<lparr>ps_phase := Ended\<rparr>) = Inr (result_elements demo [] st)"
    using d(2) call(1) by (simp add: rq_def st_def)
  have ok: "m_code st = OK" by (simp add: st_def)
  have reads: "read_string demo (str_block demo tlv_Status (code_text (m_code st))) = ''200''"
    by (simp add: read_str_block [OF tlv_laws_demo] ok code_texts)
  have n: "Suc (length (g_fetchedSignatures (iw_global w2))) = length (g_signers (iw_global w2))"
    by (simp add: w2(2) p(4,5))
  have none: "successes w2 = []"
    using active_no_success [OF reach_ok [OF reach] call(2)] by (simp add: call(1) w2(3) is_active_def)
  have piece: "tlv_get demo (result_elements demo [] st) tlv_BLSSigValue = Inr (Blk tlv_BLSSigValue [7])"
    using result_lookups(2) [OF tlv_laws_demo ok] by (simp add: st_def)
  show ?thesis
    by (rule that [OF refl reach en h es result_lookups(1) [OF tlv_laws_demo] reads piece _ n])
      (simp_all add: none w2(2) p)
qed

theorem last_piece_reports_witness:
  "\<exists>w e. demo_reach w \<and> initiator_enabled w e \<and> successes w = [] \<and>
    length (successes (initiator_handle demo demo_bls demo_ossl demo_keychain [GComp 8 ''i''] w e)) = 1"
proof -
  obtain w e k d rnd es st b where r: "e = ResultReply k (FetchedData d) rnd" "demo_reach w" "initiator_enabled w e"
    "hmac_verify demo_keychain (ps_hmacKey (iw_calls w ! k)) d"
    "parseResultData demo demo_ossl d ((iw_calls w ! k)\<lparr>ps_phase := Ended\<rparr>) = Inr es"
    "tlv_get demo es tlv_Status = Inr st" "read_string demo st = ''200''" "tlv_get demo es tlv_BLSSigValue = Inr b"
    "blk_value b = [7]" "Suc (length (g_fetchedSignatures (iw_global w))) = length (g_signers (iw_global w))"
    "g_fetchedSignatures (iw_global w) = []" "g_signers (iw_global w) = [key ''a'' ''1'']" "successes w = []"
    by (rule demo_last_piece)
  have "length (successes (initiator_handle demo demo_bls demo_ossl demo_keychain [GComp 8 ''i''] w (ResultReply k (FetchedData d) rnd))) = 1"
    using last_piece_reports [OF keychain_laws_demo r(2) _ r(4-8,10)] r(1,3) by simp
  then show ?thesis using r(1-3,13) by metis
qed

theorem initiator_trusts_pieces_witness:
  "\<exists>w d i. demo_reach w \<and> successes w = [(d, i)] \<and> verify demo demo_bls one_container d i = Inr False"
proof -
  obtain w e k d rnd es st b where r: "e = ResultReply k (FetchedData d) rnd" "demo_reach w" "initiator_enabled w e"
    "hmac_verify demo_keychain (ps_hmacKey (iw_calls w ! k)) d"
    "parseResultData demo demo_ossl d ((iw_calls w ! k)\<lparr>ps_phase := Ended\<rparr>) = Inr es"
    "tlv_get demo es tlv_Status = Inr st" "read_string demo st = ''200''" "tlv_get demo es tlv_BLSSigValue = Inr b"
    "blk_value b = [7]" "Suc (length (g_fetchedSignatures (iw_global w))) = length (g_signers (iw_global w))"
    "g_fetchedSignatures (iw_global w) = []" "g_signers (iw_global w) = [key ''a'' ''1'']" "successes w = []"
    by (rule demo_last_piece)
  have trusted: "\<forall>n \<in> set (g_signers (iw_global w)). trusted_key one_container n = Some ((\<lambda>_. 1) n)"
    by (simp add: r(12) trusted_key_def)
  have policy: "container_passSchema demo one_container (d_name (new_data (key ''data'' ''7''))) (g_signers (iw_global w))"
    by (simp add: r(12) container_passSchema_def new_data_def schema_match_def trusted_key_def passSchema_iff required_met_def demo_schema_def)
  let ?w = "initiator_handle demo demo_bls demo_ossl demo_keychain [GComp 8 ''i''] w e"
  obtain d' i' agg sum m where s: "successes ?w = [(d', i')]"
    "ndnBLSAggregateSignature_bufs demo_bls [[7]] = Inr agg"
    "ndnBLSAggregatePublicKey demo_bls [1] = Inr sum"
    "verify demo demo_bls one_container d' i' = Inr (blsVerify demo_bls (blsSignatureDeserialize demo_bls (sig_uninit demo_bls) agg) sum m = 1)"
    using initiator_trusts_pieces [OF tlv_laws_demo packet_laws_demo keychain_laws_demo r(2,3) [unfolded r(1)] r(4-8,10) trusted policy]
    unfolding r(1,9,11,12) list.map append_Nil by blast
  have "agg = enc_pair enc_nat enc_bytes (0, [])" "sum = 1"
    using s(2,3) by (simp_all add: ndnBLSAggregateSignature_bufs_def ndnBLSAggregatePublicKey_def demo_bls_def run_decoder_def dec_pair_def)
  then have "verify demo demo_bls one_container d' i' = Inr False"
    using s(4) run_decoder_enc [OF codes_pair [OF codes_nat codes_bytes], of "(0, [])"] by (simp add: demo_bls_def)
  moreover have "demo_reach ?w" by (rule reach_extend [OF r(2,3)])
  ultimately show ?thesis using s(1) by blast
qed

end
